(* ===== verification/Prelude.thy ===== *)
theory Prelude
  imports Main "HOL-Library.Word"
begin

unbundle bit_operations_syntax

text \<open>
  What every theory of the development shares: the outcome type of a C function that may
  stop the kernel, the C integer conversions, the search loop of the three bitmap
  allocators, little-endian encoding of 32-bit words, C strings, and the lemma
  collections that the component proofs use.
\<close>

section \<open>Outcomes\<close>

text \<open>
  A function of the kernel returns, or stops the machine. \<open>AssertFail\<close> is a failed
  \<open>assert\<close> (include/assert.h: interrupts off, then a \<open>hlt\<close> loop), \<open>Panic\<close> an explicit
  \<open>panic\<close>, \<open>NullPointer\<close> a field access through \<open>NULL\<close>, \<open>OutOfRange\<close> an access outside
  the array or buffer the code indexes, \<open>Loops\<close> a loop that never ends.
\<close>

datatype fault = AssertFail | Panic | NullPointer | OutOfRange | Loops

type_synonym 'a exec = "fault + 'a"

type_synonym u8 = "8 word"
type_synonym u16 = "16 word"
type_synonym u32 = "32 word"

definition bindE :: "'a exec \<Rightarrow> ('a \<Rightarrow> 'b exec) \<Rightarrow> 'b exec" where
  "bindE m f = (case m of Inl e \<Rightarrow> Inl e | Inr x \<Rightarrow> f x)"

definition assertE :: "bool \<Rightarrow> 'a exec \<Rightarrow> 'a exec" where
  "assertE c m = (if c then m else Inl AssertFail)"

definition guardE :: "fault \<Rightarrow> bool \<Rightarrow> 'a exec \<Rightarrow> 'a exec" where
  "guardE e c m = (if c then m else Inl e)"

named_theorems exec_simps \<open>evaluation of outcomes\<close>
named_theorems inv_intros \<open>operations keep their component's invariant\<close>
named_theorems frame_simps \<open>what an operation leaves unchanged\<close>

lemma bindE_Inl [simp, exec_simps]: "bindE (Inl e) f = Inl e"
  by (simp add: bindE_def)

lemma bindE_Inr [simp, exec_simps]: "bindE (Inr x) f = f x"
  by (simp add: bindE_def)

lemma bindE_eq_Inr_iff: "bindE m f = Inr y \<longleftrightarrow> (\<exists>x. m = Inr x \<and> f x = Inr y)"
  by (simp add: bindE_def split: sum.splits)

lemma bindE_InrE:
  assumes "bindE m f = Inr y"
  obtains x where "m = Inr x" and "f x = Inr y"
  using assms by (auto simp: bindE_eq_Inr_iff)

lemma bindE_assoc: "bindE (bindE m f) g = bindE m (\<lambda>x. bindE (f x) g)"
  by (simp add: bindE_def split: sum.splits)

lemma bindE_cong [fundef_cong]:
  "m = m' \<Longrightarrow> (\<And>x. m' = Inr x \<Longrightarrow> f x = f' x) \<Longrightarrow> bindE m f = bindE m' f'"
  by (simp add: bindE_def split: sum.splits)

lemma assertE_True [simp, exec_simps]: "c \<Longrightarrow> assertE c m = m"
  by (simp add: assertE_def)

lemma assertE_False [simp, exec_simps]: "\<not> c \<Longrightarrow> assertE c m = Inl AssertFail"
  by (simp add: assertE_def)

lemma guardE_True [simp, exec_simps]: "c \<Longrightarrow> guardE e c m = m"
  by (simp add: guardE_def)

lemma guardE_False [simp, exec_simps]: "\<not> c \<Longrightarrow> guardE e c m = Inl e"
  by (simp add: guardE_def)

lemma assertE_eq_Inr_iff [simp]: "assertE c m = Inr y \<longleftrightarrow> c \<and> m = Inr y"
  by (simp add: assertE_def)

lemma guardE_eq_Inr_iff [simp]: "guardE e c m = Inr y \<longleftrightarrow> c \<and> m = Inr y"
  by (simp add: guardE_def)

text \<open>
  \<open>postE m P\<close>: when the operation returns, \<open>P\<close> holds of its result. The rules follow the
  structure of the code, keeping the equations of the calls passed.
\<close>

definition postE :: "'a exec \<Rightarrow> ('a \<Rightarrow> bool) \<Rightarrow> bool" where
  "postE m P \<longleftrightarrow> (\<forall>x. m = Inr x \<longrightarrow> P x)"

named_theorems post_intros \<open>conditions on the result of an operation\<close>

lemma postE_Inr [post_intros]: "P x \<Longrightarrow> postE (Inr x) P"
  by (simp add: postE_def)

lemma postE_Inl [post_intros]: "postE (Inl e) P"
  by (simp add: postE_def)

lemma postE_bind [post_intros]: "(\<And>x. m = Inr x \<Longrightarrow> postE (f x) P) \<Longrightarrow> postE (bindE m f) P"
  by (auto simp: postE_def bindE_eq_Inr_iff)

lemma postE_if [post_intros]:
  "(c \<Longrightarrow> postE a P) \<Longrightarrow> (\<not> c \<Longrightarrow> postE b P) \<Longrightarrow> postE (if c then a else b) P"
  by simp

lemma postE_guard [post_intros]: "(c \<Longrightarrow> postE m P) \<Longrightarrow> postE (guardE e c m) P"
  by (auto simp: postE_def guardE_def)

lemma postE_assert [post_intros]: "(c \<Longrightarrow> postE m P) \<Longrightarrow> postE (assertE c m) P"
  by (auto simp: postE_def assertE_def)

lemma postE_prod [post_intros]: "(\<And>a b. (a, b) = x \<Longrightarrow> postE (f a b) P) \<Longrightarrow> postE (case x of (a, b) \<Rightarrow> f a b) P"
  by (cases x) auto

lemma postE_option [post_intros]:
  "(x = None \<Longrightarrow> postE n P) \<Longrightarrow> (\<And>a. x = Some a \<Longrightarrow> postE (f a) P) \<Longrightarrow>
     postE (case x of None \<Rightarrow> n | Some a \<Rightarrow> f a) P"
  by (cases x) simp_all

lemma postE_D: "postE m P \<Longrightarrow> m = Inr x \<Longrightarrow> P x"
  by (simp add: postE_def)

text \<open>A \<open>for\<close> loop whose body may stop the machine.\<close>

primrec fold_exec :: "('a \<Rightarrow> 's \<Rightarrow> 's exec) \<Rightarrow> 'a list \<Rightarrow> 's \<Rightarrow> 's exec" where
  "fold_exec f [] s = Inr s"
| "fold_exec f (x # xs) s = bindE (f x s) (fold_exec f xs)"

lemma fold_exec_append:
  "fold_exec f (xs @ ys) s = bindE (fold_exec f xs s) (fold_exec f ys)"
  by (induction xs arbitrary: s) (simp_all add: bindE_def split: sum.splits)

lemma fold_exec_total:
  "(\<And>x s. x \<in> set xs \<Longrightarrow> f x s = Inr (g x s)) \<Longrightarrow> fold_exec f xs s = Inr (fold g xs s)"
  by (induction xs arbitrary: s) simp_all

section \<open>C integers\<close>

text \<open>
  \<open>i32 x\<close> is the value an \<open>int\<close> holds after \<open>x\<close> is stored in it (the two's complement
  wrap-around of the compiled code); \<open>u32_of x\<close> the same for \<open>uint32_t\<close>.
\<close>

definition i32 :: "int \<Rightarrow> int" where
  "i32 x = sint (word_of_int x :: u32)"

definition u32_of :: "int \<Rightarrow> u32" where
  "u32_of x = word_of_int x"

definition i32_range :: "int \<Rightarrow> bool" where
  "i32_range x \<longleftrightarrow> - (2 ^ 31) \<le> x \<and> x < 2 ^ 31"

lemma i32_id [simp]: "i32_range x \<Longrightarrow> i32 x = x"
  by (simp add: i32_def i32_range_def sint_sbintrunc' signed_take_bit_int_eq_self_iff)

lemma i32_range_i32 [simp]: "i32_range (i32 x)"
  unfolding i32_def i32_range_def
  using sint_greater_eq [of "word_of_int x :: u32"] sint_less [of "word_of_int x :: u32"] by simp

lemma i32_nat_id: "0 \<le> x \<Longrightarrow> x < 2 ^ 31 \<Longrightarrow> i32 x = x"
  by (simp add: i32_range_def)

text \<open>C's division and remainder of \<open>int\<close> truncate towards zero.\<close>

definition cdiv :: "int \<Rightarrow> int \<Rightarrow> int" where
  "cdiv a b = sgn a * sgn b * (\<bar>a\<bar> div \<bar>b\<bar>)"

definition cmod :: "int \<Rightarrow> int \<Rightarrow> int" where
  "cmod a b = sgn a * (\<bar>a\<bar> mod \<bar>b\<bar>)"

lemma cdiv_nonneg [simp]: "0 \<le> a \<Longrightarrow> 0 < b \<Longrightarrow> cdiv a b = a div b"
  by (cases "a = 0") (auto simp: cdiv_def)

lemma cmod_nonneg [simp]: "0 \<le> a \<Longrightarrow> 0 < b \<Longrightarrow> cmod a b = a mod b"
  by (cases "a = 0") (auto simp: cmod_def)

lemma cdiv_cmod: "cdiv a b * b + cmod a b = a"
proof (cases "b = 0")
  case True
  then show ?thesis by (simp add: cdiv_def cmod_def sgn_mult_abs)
next
  case False
  then have "cdiv a b * b + cmod a b = sgn a * (\<bar>b\<bar> * (\<bar>a\<bar> div \<bar>b\<bar>) + \<bar>a\<bar> mod \<bar>b\<bar>)"
    by (simp add: cdiv_def cmod_def algebra_simps abs_sgn)
  then show ?thesis by (simp add: sgn_mult_abs)
qed

lemma unat32_less: "unat (w :: u32) < 4294967296"
  using unsigned_less [of w, where ?'a = nat] by simp

lemma unat_of_nat32: "n < 4294967296 \<Longrightarrow> unat (of_nat n :: u32) = n"
  by (simp add: unat_of_nat)

lemma unat_u32_of: "0 \<le> x \<Longrightarrow> x < 4294967296 \<Longrightarrow> unat (u32_of x) = nat x"
  by (simp add: u32_of_def unsigned_of_int take_bit_int_eq_self)

lemma unat_add32: "unat a + unat b < 4294967296 \<Longrightarrow> unat (a + b :: u32) = unat a + unat b"
  using unat_add_lem [of a b] by simp

lemma sint_unat32:
  assumes "unat (w :: u32) < 2147483648"
  shows "sint w = int (unat w)"
proof -
  have u: "uint w = int (unat w)" by simp
  then have "uint w < 2147483648" and "- 2147483648 \<le> uint w" using assms by linarith+
  then show ?thesis by (simp add: sint_uint signed_take_bit_int_eq_self_iff)
qed

lemma take_bit_small: "unat w < 2 ^ k \<Longrightarrow> take_bit k w = (w :: 'a::len word)"
  by (simp add: word_unat_eq_iff unsigned_take_bit_eq take_bit_nat_eq_self)

lemma bit_small: "unat (w :: 'a::len word) < 2 ^ k \<Longrightarrow> k \<le> n \<Longrightarrow> \<not> bit w n"
  by (metis take_bit_small bit_take_bit_iff linorder_not_less)

section \<open>The search loop of the bitmap allocators\<close>

text \<open>
  \<open>get_idle_page\<close>, \<open>get_free_block\<close> and \<open>get_free_disk_inode\<close> share the loop
  \<open>while (bitmap[i]) i = (i + 1) % n\<close>. It does not end when no slot is free, so it is a
  partial function: \<open>None\<close> is "never returns".
\<close>

partial_function (option) next_idle :: "(nat \<Rightarrow> bool) \<Rightarrow> nat \<Rightarrow> nat \<Rightarrow> nat option" where
  "next_idle used n i = (if used i then next_idle used n (Suc i mod n) else Some i)"

lemma next_idle_free [simp]: "\<not> used i \<Longrightarrow> next_idle used n i = Some i"
  by (simp add: next_idle.simps)

lemma next_idle_step: "used i \<Longrightarrow> next_idle used n i = next_idle used n (Suc i mod n)"
  by (simp add: next_idle.simps [of used n i])

lemma next_idle_reaches:
  "\<not> used ((i + d) mod n) \<Longrightarrow> i < n \<Longrightarrow>
     \<exists>k < n. next_idle used n i = Some k \<and> \<not> used k"
proof (induction d arbitrary: i)
  case 0
  then show ?case by auto
next
  case (Suc d)
  show ?case
  proof (cases "used i")
    case True
    have "(Suc i mod n + d) mod n = (i + Suc d) mod n"
      by (simp add: mod_add_left_eq)
    with Suc.prems have "\<not> used ((Suc i mod n + d) mod n)" by simp
    moreover have "Suc i mod n < n" using Suc.prems by simp
    ultimately show ?thesis using Suc.IH [of "Suc i mod n"] True by (simp add: next_idle_step)
  next
    case False
    with Suc.prems show ?thesis by auto
  qed
qed

lemma next_idle_Some:
  assumes "i < n" and "k < n" and "\<not> used k"
  shows "\<exists>j < n. next_idle used n i = Some j \<and> \<not> used j"
proof -
  have "(i + (k + n - i)) mod n = k" using assms by simp
  then show ?thesis using next_idle_reaches [of used i "k + n - i" n] assms by simp
qed

text \<open>Every returned slot is idle; with no idle slot the loop never returns.\<close>

lemma next_idle_sound: "next_idle used n i = Some k \<Longrightarrow> \<not> used k \<and> (k = i \<or> (0 < n \<longrightarrow> k < n))"
proof (rule next_idle.raw_induct
    [where P = "\<lambda>used n i k. \<not> used k \<and> (k = i \<or> (0 < n \<longrightarrow> k < n))"])
  fix f used n i k
  assume IH: "\<And>used n i k. f used n i = Some k \<Longrightarrow> \<not> used k \<and> (k = i \<or> (0 < n \<longrightarrow> k < n))"
    and eq: "(if used i then f used n (Suc i mod n) else Some i) = Some k"
  show "\<not> used k \<and> (k = i \<or> (0 < n \<longrightarrow> k < n))"
  proof (cases "used i")
    case True
    with eq have "f used n (Suc i mod n) = Some k" by simp
    then have "\<not> used k \<and> (k = Suc i mod n \<or> (0 < n \<longrightarrow> k < n))" by (rule IH)
    then show ?thesis by auto
  next
    case False
    with eq show ?thesis by simp
  qed
qed

lemma next_idle_None:
  assumes full: "\<forall>k < n. used k" and i: "i < n"
  shows "next_idle used n i = None"
proof (cases "next_idle used n i")
  case (Some k)
  then have "\<not> used k" and "k = i \<or> k < n" using next_idle_sound [OF Some] i by auto
  with full i show ?thesis by auto
qed

section \<open>Little-endian words\<close>

definition u32_bytes :: "u32 \<Rightarrow> u8 list" where
  "u32_bytes w = [ucast w, ucast (drop_bit 8 w), ucast (drop_bit 16 w), ucast (drop_bit 24 w)]"

definition bytes_u32 :: "u8 \<Rightarrow> u8 \<Rightarrow> u8 \<Rightarrow> u8 \<Rightarrow> u32" where
  "bytes_u32 a b c d =
     ucast a OR push_bit 8 (ucast b) OR push_bit 16 (ucast c) OR push_bit 24 (ucast d)"

lemma length_u32_bytes [simp]: "length (u32_bytes w) = 4"
  by (simp add: u32_bytes_def)

lemma bytes_u32_roundtrip:
  "bytes_u32 (ucast w) (ucast (drop_bit 8 w)) (ucast (drop_bit 16 w)) (ucast (drop_bit 24 w)) = w"
proof (rule bit_word_eqI)
  fix n
  assume n: "n < LENGTH(32)"
  consider "n < 8" | "8 \<le> n" "n < 16" | "16 \<le> n" "n < 24" | "24 \<le> n" by linarith
  then show "bit (bytes_u32 (ucast w) (ucast (drop_bit 8 w)) (ucast (drop_bit 16 w))
               (ucast (drop_bit 24 w))) n = bit w n"
    by cases (use n in \<open>simp_all add: bytes_u32_def bit_or_iff bit_push_bit_iff bit_ucast_iff
      bit_drop_bit_eq less_diff_conv2\<close>)
qed

fun u32_list :: "u8 list \<Rightarrow> u32 list" where
  "u32_list (a # b # c # d # bs) = bytes_u32 a b c d # u32_list bs"
| "u32_list bs = []"

definition bytes_list :: "u32 list \<Rightarrow> u8 list" where
  "bytes_list ws = concat (map u32_bytes ws)"

lemma length_bytes_list [simp]: "length (bytes_list ws) = 4 * length ws"
  by (induction ws) (simp_all add: bytes_list_def)

lemma u32_list_bytes [simp]: "u32_list (bytes_list ws) = ws"
  by (induction ws) (simp_all add: bytes_list_def u32_bytes_def bytes_u32_roundtrip)

lemma u32_bytes_roundtrip: "u32_bytes (bytes_u32 a b c d) = [a, b, c, d]"
proof -
  have "ucast (bytes_u32 a b c d) = a" "ucast (drop_bit 8 (bytes_u32 a b c d)) = b"
    "ucast (drop_bit 16 (bytes_u32 a b c d)) = c" "ucast (drop_bit 24 (bytes_u32 a b c d)) = d"
    by (rule bit_word_eqI;
        auto simp: bytes_u32_def bit_or_iff bit_push_bit_iff bit_ucast_iff bit_drop_bit_eq
          dest: bit_imp_le_length)+
  then show ?thesis by (simp add: u32_bytes_def)
qed

lemma bytes_list_u32 [simp]: "4 dvd length bs \<Longrightarrow> bytes_list (u32_list bs) = bs"
proof (induction bs rule: u32_list.induct)
  case (1 a b c d bs)
  then have "4 dvd length bs" by (simp add: dvd_def) presburger
  with 1 show ?case by (simp add: bytes_list_def u32_bytes_roundtrip)
qed (auto simp: bytes_list_def, presburger+)

lemma length_u32_list [simp]: "length (u32_list bs) = length bs div 4"
  by (induction bs rule: u32_list.induct) auto

lemma u32_list_append:
  "4 dvd length as \<Longrightarrow> u32_list (as @ bs) = u32_list as @ u32_list bs"
proof (induction as rule: u32_list.induct)
  case (1 a b c d as)
  then have "4 dvd length as" by (simp add: dvd_def) presburger
  with 1 show ?case by simp
qed (auto, presburger+)

lemma bytes_list_append [simp]: "bytes_list (xs @ ys) = bytes_list xs @ bytes_list ys"
  by (simp add: bytes_list_def)

section \<open>Slices of a memory\<close>

text \<open>\<open>cells m a n\<close>: the \<open>n\<close> cells of \<open>m\<close> from address \<open>a\<close>; \<open>patch m a bs\<close>: the memory
  after \<open>memcpy(m + a, bs, length bs)\<close>.\<close>

definition cells :: "(nat \<Rightarrow> 'a) \<Rightarrow> nat \<Rightarrow> nat \<Rightarrow> 'a list" where
  "cells m a n = map (\<lambda>k. m (a + k)) [0..<n]"

definition patch :: "(nat \<Rightarrow> 'a) \<Rightarrow> nat \<Rightarrow> 'a list \<Rightarrow> nat \<Rightarrow> 'a" where
  "patch m a bs = (\<lambda>x. if a \<le> x \<and> x < a + length bs then bs ! (x - a) else m x)"

lemma length_cells [simp]: "length (cells m a n) = n"
  by (simp add: cells_def)

lemma nth_cells [simp]: "k < n \<Longrightarrow> cells m a n ! k = m (a + k)"
  by (simp add: cells_def)

lemma cells_0 [simp]: "cells m a 0 = []"
  by (simp add: cells_def)

lemma cells_add: "cells m a (n + k) = cells m a n @ cells m (a + n) k"
  by (rule nth_equalityI) (auto simp: nth_append)

lemma cells_cong: "(\<And>k. k < n \<Longrightarrow> m (a + k) = m' (a' + k)) \<Longrightarrow> cells m a n = cells m' a' n"
  by (rule nth_equalityI) auto

lemma cells_patch_same [simp]: "cells (patch m a bs) a (length bs) = bs"
  by (rule nth_equalityI) (auto simp: patch_def)

lemma cells_patch_other:
  "b + n \<le> a \<or> a + length bs \<le> b \<Longrightarrow> cells (patch m a bs) b n = cells m b n"
  by (rule cells_cong) (auto simp: patch_def)

lemma patch_Nil [simp]: "patch m a [] = m"
  by (rule ext) (auto simp: patch_def)

lemma patch_append: "patch (patch m a bs) (a + length bs) cs = patch m a (bs @ cs)"
  by (auto simp: patch_def nth_append fun_eq_iff)

lemma patch_other: "x < a \<or> a + length bs \<le> x \<Longrightarrow> patch m a bs x = m x"
  by (auto simp: patch_def)

section \<open>Messages\<close>

text \<open>
  \<open>Msg\<close> of include/process.h. The first union holds \<open>type\<close> and \<open>ret\<close> in one word; the second
  overlays \<open>i[5]\<close> with \<open>req_pid\<close>, \<open>dev_id\<close>, \<open>buf\<close>, \<open>offset\<close> and \<open>len\<close>, each a 32-bit word.
\<close>

record msg =
  src :: int
  dest :: int
  mtype :: int
  i0 :: int
  i1 :: int
  i2 :: int
  i3 :: int
  i4 :: int

abbreviation ret :: "msg \<Rightarrow> int" where "ret m \<equiv> mtype m"
abbreviation req_pid :: "msg \<Rightarrow> int" where "req_pid m \<equiv> i0 m"
abbreviation dev_id :: "msg \<Rightarrow> int" where "dev_id m \<equiv> i1 m"
abbreviation buf :: "msg \<Rightarrow> int" where "buf m \<equiv> i2 m"
abbreviation offset :: "msg \<Rightarrow> int" where "offset m \<equiv> i3 m"
abbreviation len :: "msg \<Rightarrow> int" where "len m \<equiv> i4 m"

definition DEV_READ :: int where "DEV_READ = 1"
definition DEV_WRITE :: int where "DEV_WRITE = 2"
definition MSG_HARD_INTR :: int where "MSG_HARD_INTR = - 2"
definition POOL_NUM :: int where "POOL_NUM = 50"

text \<open>\<open>m->dest = m->src; m->src = self; m->ret = r\<close>: how the servers turn a request into its answer.\<close>

definition reply :: "int \<Rightarrow> int \<Rightarrow> msg \<Rightarrow> msg" where
  "reply self r m = m\<lparr>dest := src m, src := self, mtype := r\<rparr>"

section \<open>Byte devices\<close>

text \<open>Loops that read, or write, one byte per address; the device may change as it is read.\<close>

primrec iter_read :: "('a \<Rightarrow> 's \<Rightarrow> u8 \<times> 's) \<Rightarrow> 'a list \<Rightarrow> 's \<Rightarrow> u8 list \<times> 's" where
  "iter_read rd [] s = ([], s)"
| "iter_read rd (a # as) s =
     (let (b, s) = rd a s; (bs, s) = iter_read rd as s in (b # bs, s))"

primrec iter_write :: "('a \<Rightarrow> u8 \<Rightarrow> 's \<Rightarrow> 's) \<Rightarrow> ('a \<times> u8) list \<Rightarrow> 's \<Rightarrow> 's" where
  "iter_write wr [] s = s"
| "iter_write wr (x # xs) s = iter_write wr xs (wr (fst x) (snd x) s)"

text \<open>
  What a client of a byte device relies on: reads return the \<open>view\<close> and do not change it, a
  write changes it at one address.
\<close>

locale byte_device =
  fixes rd :: "'a \<Rightarrow> 's \<Rightarrow> u8 \<times> 's"
    and wr :: "'a \<Rightarrow> u8 \<Rightarrow> 's \<Rightarrow> 's"
    and view :: "'s \<Rightarrow> 'a \<Rightarrow> u8"
    and inv :: "'s \<Rightarrow> bool"
  assumes rd_value: "inv s \<Longrightarrow> fst (rd a s) = view s a"
    and rd_view: "inv s \<Longrightarrow> view (snd (rd a s)) = view s"
    and rd_inv: "inv s \<Longrightarrow> inv (snd (rd a s))"
    and wr_view: "inv s \<Longrightarrow> view (wr a b s) = (view s)(a := b)"
    and wr_inv: "inv s \<Longrightarrow> inv (wr a b s)"
begin

lemma read_all:
  "inv s \<Longrightarrow> fst (iter_read rd as s) = map (view s) as \<and>
     view (snd (iter_read rd as s)) = view s \<and> inv (snd (iter_read rd as s))"
proof (induction as arbitrary: s)
  case Nil
  then show ?case by simp
next
  case (Cons a as)
  obtain b t where bt: "rd a s = (b, t)" by fastforce
  with rd_value rd_view rd_inv Cons.prems have "b = view s a" "view t = view s" "inv t"
    by (metis fst_conv, metis snd_conv, metis snd_conv)
  with Cons.IH [of t] bt show ?case by (auto simp: Let_def split: prod.splits)
qed

lemma write_all:
  "inv s \<Longrightarrow> inv (iter_write wr xs s) \<and>
     view (iter_write wr xs s) = fold (\<lambda>x v. v(fst x := snd x)) xs (view s)"
  by (induction xs arbitrary: s) (auto simp: wr_view wr_inv)

lemma fold_upd_other:
  "a \<notin> fst ` set xs \<Longrightarrow> fold (\<lambda>x v. v(fst x := snd x)) xs v a = v a"
  by (induction xs arbitrary: v) auto

lemma fold_upd_zip:
  "distinct as \<Longrightarrow> length as = length bs \<Longrightarrow>
     map (fold (\<lambda>x v. v(fst x := snd x)) (zip as bs) v) as = bs"
proof (induction as bs arbitrary: v rule: list_induct2')
  case (4 a as b bs)
  have "fold (\<lambda>x v. v(fst x := snd x)) (zip as bs) (v(a := b)) a = b"
    using 4 by (subst fold_upd_other) (auto dest: set_zip_leftD)
  with 4 show ?case by (simp del: fun_upd_apply)
qed auto

text \<open>What is written over distinct addresses is read back.\<close>

lemma read_write:
  assumes "inv s" and "distinct as" and "length as = length bs"
  shows "fst (iter_read rd as (iter_write wr (zip as bs) s)) = bs"
  using read_all [of "iter_write wr (zip as bs) s" as] write_all [OF assms(1), of "zip as bs"]
    fold_upd_zip [OF assms(2,3), of "view s"] by simp

lemma write_other:
  assumes "inv s" and "a \<notin> set as"
  shows "view (iter_write wr (zip as bs) s) a = view s a"
proof -
  have "a \<notin> fst ` set (zip as bs)" using assms(2) by (auto dest: set_zip_leftD)
  then show ?thesis
    using write_all [OF assms(1), of "zip as bs"] fold_upd_other [of a "zip as bs" "view s"] by simp
qed

end

end
