(* ===== verification/Ring_List.thy ===== *)
theory Ring_List
  imports Prelude
begin

text \<open>
  The intrusive doubly linked list of include/adt/list.h, over an explicit heap: a node is
  the address of a \<open>ListHead\<close>, address 0 is \<open>NULL\<close>, and the heap holds the \<open>prev\<close> and
  \<open>next\<close> field of every address. The operations are the header's, with its asserts. \<open>ring\<close>
  says that a head and a HOL list form a well-linked circular list; under it the operations
  are list append, cons and removal, which is what the other theories use for the kernel's
  queues. The locale \<open>ring_ops\<close> states that contract.
\<close>

record dheap =
  prev_of :: "nat \<Rightarrow> nat"
  next_of :: "nat \<Rightarrow> nat"

abbreviation NULL :: nat where "NULL \<equiv> 0"

definition set_prev :: "nat \<Rightarrow> nat \<Rightarrow> dheap \<Rightarrow> dheap" where
  "set_prev p v h = h\<lparr>prev_of := (prev_of h)(p := v)\<rparr>"

definition set_next :: "nat \<Rightarrow> nat \<Rightarrow> dheap \<Rightarrow> dheap" where
  "set_next p v h = h\<lparr>next_of := (next_of h)(p := v)\<rparr>"

definition list_add :: "nat \<Rightarrow> nat \<Rightarrow> nat \<Rightarrow> dheap \<Rightarrow> dheap exec" where
  "list_add prev next data h =
     assertE (data \<noteq> NULL)
       (let h = set_next data next (set_prev data prev h);
            h = (if prev \<noteq> NULL then set_next prev data h else h);
            h = (if next \<noteq> NULL then set_prev next data h else h)
        in Inr h)"

definition list_add_before :: "nat \<Rightarrow> nat \<Rightarrow> dheap \<Rightarrow> dheap exec" where
  "list_add_before list data h =
     assertE (list \<noteq> NULL) (list_add (prev_of h list) list data h)"

definition list_add_after :: "nat \<Rightarrow> nat \<Rightarrow> dheap \<Rightarrow> dheap exec" where
  "list_add_after list data h =
     assertE (list \<noteq> NULL) (list_add list (next_of h list) data h)"

definition list_del :: "nat \<Rightarrow> dheap \<Rightarrow> dheap exec" where
  "list_del data h =
     assertE (data \<noteq> NULL)
       (let prev = prev_of h data; next = next_of h data in
        assertE (prev \<noteq> NULL \<and> next_of h prev = data)
          (assertE (next \<noteq> NULL \<and> prev_of h next = data)
             (let h = (if prev \<noteq> NULL then set_next prev next h else h);
                  h = (if next \<noteq> NULL then set_prev next prev h else h)
              in Inr h)))"

definition list_init :: "nat \<Rightarrow> dheap \<Rightarrow> dheap exec" where
  "list_init list h = assertE (list \<noteq> NULL) (Inr (set_prev list list (set_next list list h)))"

definition list_empty :: "nat \<Rightarrow> dheap \<Rightarrow> bool exec" where
  "list_empty list h = assertE (list \<noteq> NULL) (Inr (list = next_of h list))"

text \<open>The pointers \<open>list_foreach\<close> visits, starting at \<open>ptr\<close>; \<open>None\<close> when it never meets the head.\<close>

partial_function (option) list_foreach :: "dheap \<Rightarrow> nat \<Rightarrow> nat \<Rightarrow> nat list option" where
  "list_foreach h head ptr =
     (if ptr = head then Some []
      else Option.bind (list_foreach h head (next_of h ptr)) (\<lambda>ps. Some (ptr # ps)))"

section \<open>Well-linked rings\<close>

fun linked :: "dheap \<Rightarrow> nat \<Rightarrow> nat list \<Rightarrow> nat \<Rightarrow> bool" where
  "linked h p [] q \<longleftrightarrow> next_of h p = q \<and> prev_of h q = p"
| "linked h p (x # xs) q \<longleftrightarrow> next_of h p = x \<and> prev_of h x = p \<and> linked h x xs q"

definition ring :: "dheap \<Rightarrow> nat \<Rightarrow> nat list \<Rightarrow> bool" where
  "ring h head xs \<longleftrightarrow> NULL \<notin> set (head # xs) \<and> distinct (head # xs) \<and> linked h head xs head"

lemma linked_append:
  "linked h p (xs @ y # ys) q \<longleftrightarrow> linked h p xs y \<and> linked h y ys q"
  by (induction xs arbitrary: p) auto

lemma linked_next: "linked h p xs q \<Longrightarrow> next_of h p = hd (xs @ [q])"
  by (cases xs) auto

lemma linked_prev: "linked h p xs q \<Longrightarrow> prev_of h q = last (p # xs)"
  by (induction xs arbitrary: p) auto

lemma linked_cong:
  "\<lbrakk>\<And>a. a \<in> set (p # xs) \<Longrightarrow> next_of h' a = next_of h a;
    \<And>a. a \<in> set (xs @ [q]) \<Longrightarrow> prev_of h' a = prev_of h a\<rbrakk>
   \<Longrightarrow> linked h' p xs q = linked h p xs q"
  by (induction xs arbitrary: p) auto

text \<open>\<open>same_outside A h h'\<close>: the two heaps agree at every address outside \<open>A\<close>.\<close>

definition same_outside :: "nat set \<Rightarrow> dheap \<Rightarrow> dheap \<Rightarrow> bool" where
  "same_outside A h h' \<longleftrightarrow> (\<forall>a. a \<notin> A \<longrightarrow> next_of h' a = next_of h a \<and> prev_of h' a = prev_of h a)"

lemma ring_frame:
  assumes "ring h head xs" and "same_outside A h h'" and "A \<inter> set (head # xs) = {}"
  shows "ring h' head xs"
proof -
  have "linked h' head xs head = linked h head xs head"
    using assms(2,3) by (intro linked_cong) (auto simp: same_outside_def)
  with assms(1) show ?thesis by (simp add: ring_def)
qed

lemma set_fields [simp]:
  "next_of (set_prev p v h) = next_of h"
  "prev_of (set_next p v h) = prev_of h"
  "next_of (set_next p v h) = (next_of h)(p := v)"
  "prev_of (set_prev p v h) = (prev_of h)(p := v)"
  by (simp_all add: set_prev_def set_next_def)

lemma ring_nextD: "ring h head xs \<Longrightarrow> next_of h head = hd (xs @ [head])"
  by (auto simp: ring_def intro: linked_next)

lemma ring_empty_iff: "ring h head xs \<Longrightarrow> list_empty head h = Inr (xs = [])"
  by (cases xs) (auto simp: list_empty_def ring_def)

lemma ring_init: "head \<noteq> NULL \<Longrightarrow> \<exists>h'. list_init head h = Inr h' \<and> ring h' head [] \<and>
     same_outside {head} h h'"
  by (simp add: list_init_def ring_def same_outside_def)

text \<open>The heap after \<open>list_add p q x\<close>, when neither neighbour is \<open>NULL\<close>.\<close>

lemma list_add_Inr:
  "\<lbrakk>x \<noteq> NULL; p \<noteq> NULL; q \<noteq> NULL\<rbrakk> \<Longrightarrow>
   list_add p q x h = Inr \<lparr>prev_of = (prev_of h)(x := p, q := x), next_of = (next_of h)(x := q, p := x)\<rparr>"
  by (simp add: list_add_def Let_def set_prev_def set_next_def)

text \<open>Inserting \<open>x\<close> between two linked segments.\<close>

lemma linked_insert:
  assumes "linked h p xs q" and "x \<notin> set (p # xs @ [q])" and "distinct xs" and "p \<notin> set xs"
    and "q \<notin> set xs"
  shows "linked \<lparr>prev_of = (prev_of h)(x := last (p # xs), q := x),
                 next_of = (next_of h)(x := q, last (p # xs) := x)\<rparr> p (xs @ [x]) q"
  using assms
proof (induction xs arbitrary: p)
  case Nil
  then show ?case by auto
next
  case (Cons y ys)
  define H where "H = \<lparr>prev_of = (prev_of h)(x := last (y # ys), q := x),
      next_of = (next_of h)(x := q, last (y # ys) := x)\<rparr>"
  have e: "last (p # y # ys) = last (y # ys)" by simp
  from Cons.prems have "linked h y ys q" by simp
  then have "linked H y (ys @ [x]) q"
    unfolding H_def using Cons.prems by (intro Cons.IH) auto
  moreover have "p \<noteq> last (y # ys)" using Cons.prems by (metis last_in_set list.distinct(1))
  then have "next_of H p = y" and "prev_of H y = p" using Cons.prems by (auto simp: H_def)
  ultimately have "linked H p ((y # ys) @ [x]) q" by simp
  then show ?case unfolding H_def e .
qed

lemma ring_add_before:
  assumes r: "ring h head xs" and x: "x \<noteq> NULL" "x \<notin> set (head # xs)"
  shows "\<exists>h'. list_add_before head x h = Inr h' \<and> ring h' head (xs @ [x]) \<and>
     same_outside (set (x # head # xs)) h h'"
proof -
  from r have l: "linked h head xs head" and nn: "NULL \<notin> set (head # xs)"
    and d: "distinct (head # xs)" by (auto simp: ring_def)
  let ?p = "last (head # xs)"
  have p: "prev_of h head = ?p" using l by (rule linked_prev)
  have "?p \<noteq> NULL" using nn by (metis last_in_set list.distinct(1))
  then have eq: "list_add_before head x h = Inr \<lparr>prev_of = (prev_of h)(x := ?p, head := x),
      next_of = (next_of h)(x := head, ?p := x)\<rparr>"
    using nn x by (simp add: list_add_before_def p list_add_Inr)
  have "linked \<lparr>prev_of = (prev_of h)(x := ?p, head := x),
      next_of = (next_of h)(x := head, ?p := x)\<rparr> head (xs @ [x]) head"
    using l d x by (intro linked_insert) auto
  moreover have "?p \<in> set (head # xs)" by (rule last_in_set) simp
  then have "same_outside (set (x # head # xs)) h \<lparr>prev_of = (prev_of h)(x := ?p, head := x),
      next_of = (next_of h)(x := head, ?p := x)\<rparr>"
    by (auto simp: same_outside_def)
  ultimately show ?thesis using eq nn d x by (auto simp: ring_def)
qed

lemma ring_add_after:
  assumes r: "ring h head xs" and x: "x \<noteq> NULL" "x \<notin> set (head # xs)"
  shows "\<exists>h'. list_add_after head x h = Inr h' \<and> ring h' head (x # xs) \<and>
     same_outside (set (x # head # xs)) h h'"
proof -
  from r have l: "linked h head xs head" and nn: "NULL \<notin> set (head # xs)"
    and d: "distinct (head # xs)" by (auto simp: ring_def)
  let ?q = "hd (xs @ [head])"
  have q: "next_of h head = ?q" using l by (rule linked_next)
  have qn: "?q \<noteq> NULL" using nn by (cases xs) auto
  let ?h = "\<lparr>prev_of = (prev_of h)(x := head, ?q := x), next_of = (next_of h)(x := ?q, head := x)\<rparr>"
  have eq: "list_add_after head x h = Inr ?h"
    using nn qn x by (simp add: list_add_after_def q list_add_Inr)
  have "linked ?h head (x # xs) head"
  proof (cases xs)
    case Nil
    with l x show ?thesis by auto
  next
    case (Cons y ys)
    have "linked ?h y ys head = linked h y ys head"
      using d x Cons by (intro linked_cong) auto
    with l d x Cons show ?thesis by auto
  qed
  moreover have "?q \<in> set (head # xs)" by (cases xs) auto
  then have "same_outside (set (x # head # xs)) h ?h" by (auto simp: same_outside_def)
  ultimately show ?thesis using eq nn d x by (auto simp: ring_def)
qed

lemma ring_del:
  assumes r: "ring h head (xs @ x # ys)"
  shows "\<exists>h'. list_del x h = Inr h' \<and> ring h' head (xs @ ys) \<and>
     same_outside (set (head # xs @ ys)) h h'"
proof -
  from r have nn: "NULL \<notin> set (head # xs @ x # ys)" and d: "distinct (head # xs @ x # ys)"
    and l1: "linked h head xs x" and l2: "linked h x ys head"
    by (auto simp: ring_def linked_append)
  obtain p q where pdef: "p = last (head # xs)" and qdef: "q = hd (ys @ [head])" by blast
  have p: "prev_of h x = p" unfolding pdef using l1 by (rule linked_prev)
  have q: "next_of h x = q" unfolding qdef using l2 by (rule linked_next)
  have pn: "p \<in> set (head # xs)" and qn: "q \<in> set (ys @ [head])"
    unfolding pdef qdef by (metis last_in_set list.distinct(1)) (cases ys, auto)
  have np: "next_of h p = x" unfolding pdef using l1
    by (induction xs arbitrary: head) auto
  have pq: "prev_of h q = x" unfolding qdef using l2 by (cases ys) auto
  let ?h = "\<lparr>prev_of = (prev_of h)(q := p), next_of = (next_of h)(p := q)\<rparr>"
  have "NULL \<notin> set (head # xs)" "NULL \<notin> set (ys @ [head])" using nn by auto
  then have "p \<noteq> NULL" "q \<noteq> NULL" "x \<noteq> NULL" using nn pn qn by (auto intro!: gr0I)
  then have eq: "list_del x h = Inr ?h"
    by (simp add: list_del_def p q np pq Let_def set_prev_def set_next_def)
  have "linked ?h head (xs @ ys) head"
  proof (cases ys)
    case Nil
    then have q': "q = head" by (simp add: qdef)
    show ?thesis
    proof (cases xs rule: rev_cases)
      case Nil
      with \<open>ys = []\<close> show ?thesis by (simp add: pdef qdef)
    next
      case (snoc zs z)
      have "linked ?h head zs z = linked h head zs z"
        using d snoc q' by (intro linked_cong) (auto simp: pdef qdef)
      with l1 snoc \<open>ys = []\<close> show ?thesis by (auto simp: linked_append pdef qdef)
    qed
  next
    case (Cons y zs)
    have A: "linked ?h head xs y"
    proof (cases xs rule: rev_cases)
      case Nil
      with Cons show ?thesis by (simp add: pdef qdef)
    next
      case (snoc ws w)
      have "linked ?h head ws w = linked h head ws w"
        using d snoc Cons by (intro linked_cong) (auto simp: pdef qdef)
      with l1 snoc Cons show ?thesis by (auto simp: linked_append pdef qdef)
    qed
    have "linked ?h y zs head = linked h y zs head"
      using d Cons pn by (intro linked_cong) (auto simp: pdef qdef)
    with A l2 Cons show ?thesis by (auto simp: linked_append pdef qdef)
  qed
  moreover have "same_outside (set (head # xs @ ys)) h ?h"
    using pn qn by (auto simp: same_outside_def)
  ultimately show ?thesis using eq nn d by (auto simp: ring_def)
qed

lemma list_foreach_linked:
  "linked h p xs head \<Longrightarrow> head \<notin> set xs \<Longrightarrow> list_foreach h head (next_of h p) = Some xs"
proof (induction xs arbitrary: p)
  case Nil
  then show ?case by (simp add: list_foreach.simps)
next
  case (Cons x xs)
  then show ?case by (subst list_foreach.simps) auto
qed

lemma ring_foreach: "ring h head xs \<Longrightarrow> list_foreach h head (next_of h head) = Some xs"
  by (auto simp: ring_def intro: list_foreach_linked)

section \<open>The contract of the list header\<close>

text \<open>
  What the kernel's queues rely on: \<open>rep h l xs\<close> says that the list with head \<open>l\<close> holds the
  nodes \<open>xs\<close> in this order, \<open>outside A\<close> that only nodes of \<open>A\<close> were written.
\<close>

locale ring_ops =
  fixes rep :: "'h \<Rightarrow> nat \<Rightarrow> nat list \<Rightarrow> bool"
    and outside :: "nat set \<Rightarrow> 'h \<Rightarrow> 'h \<Rightarrow> bool"
    and put_tail :: "nat \<Rightarrow> nat \<Rightarrow> 'h \<Rightarrow> 'h exec"
    and put_head :: "nat \<Rightarrow> nat \<Rightarrow> 'h \<Rightarrow> 'h exec"
    and unlink :: "nat \<Rightarrow> 'h \<Rightarrow> 'h exec"
    and front :: "'h \<Rightarrow> nat \<Rightarrow> nat"
  assumes put_tail: "rep h l xs \<Longrightarrow> x \<noteq> 0 \<Longrightarrow> x \<notin> set (l # xs) \<Longrightarrow>
      \<exists>h'. put_tail l x h = Inr h' \<and> rep h' l (xs @ [x]) \<and> outside (set (x # l # xs)) h h'"
    and put_head: "rep h l xs \<Longrightarrow> x \<noteq> 0 \<Longrightarrow> x \<notin> set (l # xs) \<Longrightarrow>
      \<exists>h'. put_head l x h = Inr h' \<and> rep h' l (x # xs) \<and> outside (set (x # l # xs)) h h'"
    and unlink: "rep h l (xs @ x # ys) \<Longrightarrow>
      \<exists>h'. unlink x h = Inr h' \<and> rep h' l (xs @ ys) \<and> outside (set (l # xs @ ys)) h h'"
    and front: "rep h l (x # xs) \<Longrightarrow> front h l = x"
    and nodes: "rep h l xs \<Longrightarrow> 0 \<notin> set (l # xs) \<and> distinct (l # xs)"
    and frame: "rep h l xs \<Longrightarrow> outside A h h' \<Longrightarrow> A \<inter> set (l # xs) = {} \<Longrightarrow> rep h' l xs"
begin

lemma put_all:
  "\<lbrakk>rep h l xs; 0 \<notin> set ns; distinct ns; set ns \<inter> set (l # xs) = {}\<rbrakk> \<Longrightarrow>
   \<exists>h'. fold_exec (put_tail l) ns h = Inr h' \<and> rep h' l (xs @ ns)"
proof (induction ns arbitrary: h xs)
  case Nil
  then show ?case by simp
next
  case (Cons n ns)
  then obtain h1 where h1: "put_tail l n h = Inr h1" "rep h1 l (xs @ [n])"
    using put_tail [of h l xs n] by auto
  with Cons.prems Cons.IH [OF h1(2)] show ?case by auto
qed

text \<open>Taking the first node of one list and appending it to another: free list to queue.\<close>

lemma move_front:
  assumes a: "rep h a (x # xs)" and b: "rep h b ys"
    and disj: "set (a # x # xs) \<inter> set (b # ys) = {}"
  shows "\<exists>h1 h2. unlink (front h a) h = Inr h1 \<and> put_tail b x h1 = Inr h2 \<and>
           rep h2 a xs \<and> rep h2 b (ys @ [x])"
proof -
  have na: "0 \<notin> set (a # x # xs)" "distinct (a # x # xs)" using nodes [OF a] by auto
  from a obtain h1 where h1: "unlink x h = Inr h1" "rep h1 a xs" "outside (set (a # xs)) h h1"
    using unlink [of h a "[]" x xs] by auto
  have b1: "rep h1 b ys" using frame [OF b h1(3)] disj by auto
  then obtain h2 where h2: "put_tail b x h1 = Inr h2" "rep h2 b (ys @ [x])"
      "outside (set (x # b # ys)) h1 h2"
    using put_tail [of h1 b ys x] na disj by auto
  have "rep h2 a xs" using frame [OF h1(2) h2(3)] na disj by auto
  with h1(1) h2 front [OF a] show ?thesis by auto
qed

end

interpretation kernel_list: ring_ops ring same_outside list_add_before list_add_after list_del next_of
proof (unfold_locales, goal_cases)
  case (1 h l xs x)
  then show ?case by (intro ring_add_before) auto
next
  case (2 h l xs x)
  then show ?case by (intro ring_add_after) auto
next
  case (3 h l xs x ys)
  then show ?case by (rule ring_del)
next
  case (4 h l x xs)
  then show ?case using ring_nextD [of h l "x # xs"] by simp
next
  case (5 h l xs)
  then show ?case by (simp add: ring_def)
next
  case (6 h l xs A h')
  then show ?case by (rule ring_frame)
qed

section \<open>Properties\<close>

text \<open>
  Moving a node between two of the kernel's lists, as every allocation from a free list
  does (\<open>list_del(free.next)\<close>, then \<open>list_add_before(&queue, node)\<close>): no assert of the header
  fails, the node leaves the front of the first ring and becomes the last of the second, and
  both stay well linked, in order.
\<close>

theorem list_move_front:
  assumes "ring h a (x # xs)" and "ring h b ys" and "set (a # x # xs) \<inter> set (b # ys) = {}"
  shows "\<exists>h1 h2. list_del (next_of h a) h = Inr h1 \<and> list_add_before b x h1 = Inr h2 \<and>
           list_foreach h2 a (next_of h2 a) = Some xs \<and>
           list_foreach h2 b (next_of h2 b) = Some (ys @ [x]) \<and> ring h2 a xs \<and> ring h2 b (ys @ [x])"
  using kernel_list.move_front [OF assms] ring_foreach by blast

definition two_rings :: dheap where
  "two_rings = \<lparr>prev_of = (\<lambda>_. 0)(1 := 3, 2 := 1, 3 := 2, 5 := 5),
                next_of = (\<lambda>_. 0)(1 := 2, 2 := 3, 3 := 1, 5 := 5)\<rparr>"

lemma two_rings_ring: "ring two_rings 1 [2, 3]" "ring two_rings 5 []"
  by (simp_all add: two_rings_def ring_def)

theorem list_move_front_witness:
  "\<exists>h1 h2. list_del (next_of two_rings 1) two_rings = Inr h1 \<and> list_add_before 5 2 h1 = Inr h2 \<and>
     list_foreach h2 1 (next_of h2 1) = Some [3] \<and> list_foreach h2 5 (next_of h2 5) = Some [2] \<and>
     ring h2 1 [3] \<and> ring h2 5 [2]"
  using list_move_front [OF two_rings_ring] by simp

text \<open>
  The start-up loops \<open>list_init(&l); for (i...) list_add_before(&l, &pool[i].list)\<close>
  (message queues, device pool, timer nodes, process pool): for distinct non-null nodes no
  assert fails, and the list then holds exactly the pool, in index order.
\<close>

theorem list_init_pool:
  assumes "l \<noteq> NULL" and "NULL \<notin> set pool" and "distinct pool" and "l \<notin> set pool"
  shows "\<exists>h1 h2. list_init l h = Inr h1 \<and> fold_exec (list_add_before l) pool h1 = Inr h2 \<and>
           list_foreach h2 l (next_of h2 l) = Some pool \<and> list_empty l h2 = Inr (pool = [])"
proof -
  obtain h1 where h1: "list_init l h = Inr h1" "ring h1 l []"
    using ring_init [OF assms(1)] by blast
  obtain h2 where h2: "fold_exec (list_add_before l) pool h1 = Inr h2" "ring h2 l pool"
    using kernel_list.put_all [OF h1(2) assms(2,3)] assms(4) by auto
  with h1 show ?thesis using ring_foreach ring_empty_iff by blast
qed

theorem list_init_pool_witness:
  "\<exists>h1 h2. list_init 7 two_rings = Inr h1 \<and> fold_exec (list_add_before 7) [10, 11, 12] h1 = Inr h2 \<and>
     list_foreach h2 7 (next_of h2 7) = Some [10, 11, 12] \<and> list_empty 7 h2 = Inr False"
  using list_init_pool [of 7 "[10, 11, 12]" two_rings] by simp

end
