(* ===== verification/C_String.thy ===== *)
theory C_String
  imports Prelude
begin

text \<open>
  src/lib/string.c and src/lib/printk.c. A \<open>char *\<close> is the list of bytes from the pointer to
  the end of the object it points into; running off that object is \<open>OutOfRange\<close>. \<open>char\<close> is
  signed, as in the i386 ABI the Makefile compiles for. The serial port is the list of bytes
  given to \<open>serial_printc\<close>.
\<close>

section \<open>string.c\<close>

fun strlen :: "u8 list \<Rightarrow> nat exec" where
  "strlen [] = Inl OutOfRange"
| "strlen (c # str) = (if c \<noteq> 0 then bindE (strlen str) (\<lambda>len. Inr (Suc len)) else Inr 0)"

fun strcmp :: "u8 list \<Rightarrow> u8 list \<Rightarrow> int exec" where
  "strcmp (a # s1) (b # s2) =
     (if a \<noteq> 0 \<and> b \<noteq> 0 then
        (if sint a > sint b then Inr 1
         else if sint a < sint b then Inr (- 1)
         else strcmp s1 s2)
      else if a = 0 \<and> b = 0 then Inr 0
      else if a = 0 then Inr (- 1)
      else Inr 1)"
| "strcmp _ _ = Inl OutOfRange"

text \<open>\<open>memcpy(d, s, n)\<close> into the object \<open>d\<close>: both sides must hold \<open>n\<close> bytes.\<close>

definition memcpy :: "u8 list \<Rightarrow> u8 list \<Rightarrow> nat \<Rightarrow> u8 list exec" where
  "memcpy d s n =
     guardE OutOfRange (n \<le> length s \<and> n \<le> length d) (Inr (take n s @ drop n d))"

definition strcpy :: "u8 list \<Rightarrow> u8 list \<Rightarrow> u8 list exec" where
  "strcpy d s = bindE (strlen s) (\<lambda>n. memcpy d s (n + 1))"

text \<open>\<open>itoa\<close> fills its static buffer from the end; \<open>p\<close> is what has been written so far.\<close>

function itoa_loop :: "int \<Rightarrow> u8 list \<Rightarrow> u8 list" where
  "itoa_loop a p =
     (let p = word_of_int (48 + cmod a 10) # p; a = cdiv a 10 in
      if a \<noteq> 0 then itoa_loop a p else p)"
  by pat_completeness auto
termination
  by (relation "measure (\<lambda>(a, p). nat \<bar>a\<bar>)") (auto simp: cdiv_def abs_mult sgn_if split: if_splits)

definition itoa :: "int \<Rightarrow> u8 list" where
  "itoa a = itoa_loop a [0]"

section \<open>printk.c\<close>

function int_digits :: "int \<Rightarrow> u8 list \<Rightarrow> u8 list" where
  "int_digits val num =
     (if val \<noteq> 0 then int_digits (cdiv val 10) (word_of_int (48 + cmod val 10) # num) else num)"
  by pat_completeness auto
termination
  by (relation "measure (\<lambda>(v, p). nat \<bar>v\<bar>)") (auto simp: cdiv_def abs_mult sgn_if)

definition printf_int :: "int \<Rightarrow> u8 list" where
  "printf_int val =
     (let flag = (if val = - 2147483648 then 1 else 0);
          val = (if val = - 2147483648 then val + 1 else val);
          sign = (if val < 0 then [45] else []);
          val = (if val < 0 then 0 - val else val) in
      if val = 0 then sign @ [48]
      else let num = int_digits val [] in sign @ butlast num @ [last num + flag])"

function hex_digits :: "u32 \<Rightarrow> u8 list \<Rightarrow> u8 list" where
  "hex_digits val num =
     (if val \<noteq> 0 then
        hex_digits (val div 16)
          ((if val mod 16 < 10 then 48 + ucast (val mod 16) else 97 + ucast (val mod 16 - 10)) # num)
      else num)"
  by pat_completeness auto
termination
  by (relation "measure (\<lambda>(v, p). unat v)") (auto simp: unat_div unat_gt_0)

definition printf_int_x :: "u32 \<Rightarrow> u8 list" where
  "printf_int_x val = (if val = 0 then [48] else hex_digits val [])"

text \<open>
  The variable arguments of \<open>printk\<close>: a machine word, or a pointer to a string. A conversion
  that finds no argument, or one of the other kind, reads whatever the stack holds there:
  \<open>OutOfRange\<close>.
\<close>

datatype parg = PWord int | PStr "u8 list"

fun cstr_out :: "u8 list \<Rightarrow> u8 list exec" where
  "cstr_out [] = Inl OutOfRange"
| "cstr_out (c # str) = (if c \<noteq> 0 then bindE (cstr_out str) (\<lambda>out. Inr (c # out)) else Inr [])"

fun printk :: "u8 list \<Rightarrow> parg list \<Rightarrow> u8 list exec" where
  "printk [] args = Inl OutOfRange"
| "printk (c # fmt) args =
     (if c = 0 then Inr []
      else if c = 37 then
        (case fmt of [] \<Rightarrow> Inl OutOfRange
         | d # fmt' \<Rightarrow>
           (if d = 100 then
              (case args of PWord v # args' \<Rightarrow>
                 bindE (printk fmt' args') (\<lambda>out. Inr (printf_int (i32 v) @ out))
               | _ \<Rightarrow> Inl OutOfRange)
            else if d = 120 then
              (case args of PWord v # args' \<Rightarrow>
                 bindE (printk fmt' args') (\<lambda>out. Inr (printf_int_x (u32_of v) @ out))
               | _ \<Rightarrow> Inl OutOfRange)
            else if d = 99 then
              (case args of PWord v # args' \<Rightarrow>
                 bindE (printk fmt' args') (\<lambda>out. Inr (word_of_int v # out))
               | _ \<Rightarrow> Inl OutOfRange)
            else if d = 115 then
              (case args of PStr str # args' \<Rightarrow>
                 bindE (cstr_out str) (\<lambda>o1. bindE (printk fmt' args') (\<lambda>out. Inr (o1 @ out)))
               | _ \<Rightarrow> Inl OutOfRange)
            else if d = 37 then bindE (printk fmt' args) (\<lambda>out. Inr (37 # out))
            else printk fmt' args))
      else bindE (printk fmt args) (\<lambda>out. Inr (c # out)))"

section \<open>Strings\<close>

text \<open>\<open>cstr p\<close>: the characters before the first NUL.\<close>

definition cstr :: "u8 list \<Rightarrow> u8 list" where
  "cstr p = takeWhile (\<lambda>c. c \<noteq> 0) p"

lemma cstr_simps [simp]: "cstr [] = []" "cstr (c # p) = (if c = 0 then [] else c # cstr p)"
  by (simp_all add: cstr_def)

lemma cstr_no_nul [simp]: "0 \<notin> set (cstr p)"
  by (induction p) auto

lemma cstr_append_nul [simp]: "0 \<notin> set s \<Longrightarrow> cstr (s @ 0 # r) = s"
  by (induction s) auto

lemma strlen_cstr: "0 \<in> set p \<Longrightarrow> strlen p = Inr (length (cstr p))"
  by (induction p) auto

lemma length_cstr: "0 \<in> set p \<Longrightarrow> length (cstr p) < length p"
  by (induction p) auto

lemma take_cstr: "0 \<in> set p \<Longrightarrow> take (Suc (length (cstr p))) p = cstr p @ [0]"
  by (induction p) auto

lemma strcpy_cstr:
  assumes "0 \<in> set s" and "length (cstr s) < length d"
  shows "strcpy d s = Inr (cstr s @ 0 # drop (Suc (length (cstr s))) d)"
  using assms length_cstr [OF assms(1)] take_cstr [OF assms(1)]
  by (simp add: strcpy_def strlen_cstr memcpy_def)

lemma strcmp_defined: "\<lbrakk>0 \<in> set p; 0 \<in> set q\<rbrakk> \<Longrightarrow> \<exists>r. strcmp p q = Inr r"
  by (induction p q rule: strcmp.induct) auto

lemma strcmp_zero_iff: "\<lbrakk>0 \<in> set p; 0 \<in> set q\<rbrakk> \<Longrightarrow> strcmp p q = Inr 0 \<longleftrightarrow> cstr p = cstr q"
  by (induction p q rule: strcmp.induct) (auto dest: signed_word_eqI)

lemma strcmp_swap: "strcmp p q = Inr r \<Longrightarrow> strcmp q p = Inr (- r)"
  by (induction p q rule: strcmp.induct) (auto split: if_splits)

section \<open>Decimal and hexadecimal output\<close>

text \<open>The decimal and hexadecimal numerals of a number, most significant digit first.\<close>

fun decimal :: "nat \<Rightarrow> u8 list" where
  "decimal n = (if n < 10 then [] else decimal (n div 10)) @ [48 + of_nat (n mod 10)]"

definition hex_digit :: "nat \<Rightarrow> u8" where
  "hex_digit d = (if d < 10 then 48 + of_nat d else 97 + of_nat (d - 10))"

fun hexadecimal :: "nat \<Rightarrow> u8 list" where
  "hexadecimal n = (if n < 16 then [] else hexadecimal (n div 16)) @ [hex_digit (n mod 16)]"

declare decimal.simps [simp del] hexadecimal.simps [simp del]
  int_digits.simps [simp del] hex_digits.simps [simp del] itoa_loop.simps [simp del]

lemma decimal_not_Nil [simp]: "decimal n \<noteq> []"
  by (subst decimal.simps) simp

lemma digit_byte: "0 \<le> b \<Longrightarrow> (word_of_int (48 + int n mod int b) :: u8) = 48 + of_nat (n mod b)"
proof -
  have "48 + int n mod int b = int (48 + n mod b)" by (simp add: zmod_int)
  then have "(word_of_int (48 + int n mod int b) :: u8) = of_nat (48 + n mod b)"
    by (simp only: of_int_of_nat_eq)
  then show ?thesis by simp
qed

lemma int_digits_decimal: "0 < n \<Longrightarrow> int_digits (int n) acc = decimal n @ acc"
proof (induction n arbitrary: acc rule: decimal.induct)
  case (1 n)
  have step: "int_digits (int n) acc = int_digits (int (n div 10)) ((48 + of_nat (n mod 10)) # acc)"
    using 1(2) digit_byte [of 10 n] by (subst int_digits.simps) (simp add: zdiv_int)
  show ?case
  proof (cases "n < 10")
    case True
    then have "n div 10 = 0" by simp
    then show ?thesis using step True
      by (simp add: decimal.simps [of n] int_digits.simps [of 0])
  next
    case False
    then have "0 < n div 10" by (simp add: div_greater_zero_iff)
    with False step 1(1) show ?thesis by (simp add: decimal.simps [of n])
  qed
qed

lemma itoa_loop_decimal: "itoa_loop (int n) acc = decimal n @ acc"
proof (induction n arbitrary: acc rule: decimal.induct)
  case (1 n)
  have step: "itoa_loop (int n) acc =
      (if n div 10 \<noteq> 0 then itoa_loop (int (n div 10)) ((48 + of_nat (n mod 10)) # acc)
       else (48 + of_nat (n mod 10)) # acc)"
    using digit_byte [of 10 n] by (subst itoa_loop.simps) (simp add: Let_def zdiv_int)
  show ?case
  proof (cases "n < 10")
    case True
    then show ?thesis using step by (simp add: decimal.simps [of n])
  next
    case False
    with step 1 show ?thesis by (simp add: decimal.simps [of n])
  qed
qed

lemma length_decimal: "n < 10 ^ k \<Longrightarrow> 0 < k \<Longrightarrow> length (decimal n) \<le> k"
proof (induction k arbitrary: n)
  case (Suc k)
  show ?case
  proof (cases "n < 10")
    case False
    then have "0 < k" using Suc.prems by (cases k) auto
    moreover have "n div 10 < 10 ^ k" using Suc.prems by (simp add: less_mult_imp_div_less)
    ultimately show ?thesis using Suc.IH False by (subst decimal.simps) simp
  qed (subst decimal.simps, simp)
qed simp

lemma hex_digit_byte:
  "(if val mod 16 < 10 then 48 + ucast (val mod 16) else 97 + ucast (val mod 16 - 10))
     = hex_digit (unat (val :: u32) mod 16)"
proof -
  have m: "unat (val mod 16) = unat val mod 16" by (simp add: unat_mod)
  have l: "val mod 16 < 10 \<longleftrightarrow> unat val mod 16 < 10" by (simp add: word_less_nat_alt m)
  show ?thesis
  proof (cases "unat val mod 16 < 10")
    case True
    then show ?thesis using l by (simp add: hex_digit_def flip: m)
  next
    case False
    then have "10 \<le> val mod 16" using l by (simp add: not_less)
    then have "unat (val mod 16 - 10) = unat val mod 16 - 10" by (simp add: unat_sub m)
    then have "of_nat (unat val mod 16 - 10) = (ucast (val mod 16 - 10) :: u8)"
      by (metis of_nat_unat)
    then show ?thesis using l False by (simp add: hex_digit_def)
  qed
qed

lemma hex_digits_hexadecimal: "val \<noteq> 0 \<Longrightarrow> hex_digits val acc = hexadecimal (unat val) @ acc"
proof (induction val acc rule: hex_digits.induct)
  case (1 val acc)
  have d: "unat (val div 16) = unat val div 16" by (simp add: unat_div)
  have step: "hex_digits val acc = hex_digits (val div 16) (hex_digit (unat val mod 16) # acc)"
    using 1(2) by (subst hex_digits.simps) (simp only: hex_digit_byte not_False_eq_True if_True)
  show ?case
  proof (cases "val div 16 = 0")
    case True
    then have "unat val < 16" using d by (simp add: div_eq_0_iff)
    with True step show ?thesis
      by (simp add: hexadecimal.simps [of "unat val"] hex_digits.simps [of 0])
  next
    case False
    then have "\<not> unat val < 16" using d by (metis div_less unat_eq_zero)
    with False step 1 d show ?thesis
      by (simp add: hexadecimal.simps [of "unat val"] hex_digit_byte)
  qed
qed

text \<open>The digits of 2147483648 are those of 2147483647 with the last one increased.\<close>

lemma decimal_last: "n mod 10 \<noteq> 9 \<Longrightarrow> decimal (Suc n) = butlast (decimal n) @ [last (decimal n) + 1]"
proof -
  assume a: "n mod 10 \<noteq> 9"
  then have "Suc n mod 10 = Suc (n mod 10)" and "Suc n div 10 = n div 10"
    by (auto simp: mod_Suc div_Suc)
  moreover have "n < 10 \<longleftrightarrow> Suc n < 10" using a by presburger
  ultimately show ?thesis
    by (simp add: decimal.simps [of n] decimal.simps [of "Suc n"] add.commute)
qed

section \<open>Properties\<close>

text \<open>
  \<open>printf_int\<close> prints the decimal numeral of every 32-bit \<open>int\<close>, with a minus sign when it
  is negative. This includes -2147483648, whose negation does not fit an \<open>int\<close>: the code prints
  the digits of 2147483647 and corrects the last one.
\<close>

theorem printf_int_decimal:
  assumes "i32_range v"
  shows "printf_int v = (if v < 0 then 45 # decimal (nat (- v)) else decimal (nat v))"
proof -
  have pos: "int_digits v [] = decimal (nat v)" if "0 < v" for v
    using int_digits_decimal [of "nat v" "[]"] that by simp
  have snoc: "butlast (decimal n) @ [last (decimal n)] = decimal n" for n
    by (rule append_butlast_last_id) simp
  consider "v = 0" | "0 < v" | "v < 0" "v \<noteq> - 2147483648" | "v = - 2147483648" by linarith
  then show ?thesis
  proof cases
    case 4
    have "decimal 2147483648 = butlast (decimal 2147483647) @ [last (decimal 2147483647) + 1]"
      using decimal_last [of 2147483647] by simp
    with 4 pos [of 2147483647] show ?thesis by (simp add: printf_int_def Let_def)
  qed (auto simp: printf_int_def Let_def pos snoc decimal.simps [of 0])
qed

theorem printf_int_decimal_witness:
  "i32_range (- 2147483648) \<and> printf_int (- 2147483648) = 45 # decimal 2147483648"
proof -
  have r: "i32_range (- 2147483648)" by (simp add: i32_range_def)
  show ?thesis using printf_int_decimal [OF r] r by simp
qed

text \<open>
  \<open>printf_int_x\<close> prints the hexadecimal numeral of every 32-bit word, without leading zeros.
\<close>

theorem printf_int_x_hexadecimal: "printf_int_x val = hexadecimal (unat val)"
  by (cases "val = 0")
    (simp_all add: printf_int_x_def hex_digits_hexadecimal hexadecimal.simps [of 0] hex_digit_def)

text \<open>
  \<open>itoa\<close> returns the NUL-terminated decimal numeral of every non-negative \<open>int\<close>, and it fits
  its 30-byte static buffer. (A negative argument yields bytes below '0'.)
\<close>

theorem itoa_decimal:
  assumes "0 \<le> a" and "i32_range a"
  shows "itoa a = decimal (nat a) @ [0] \<and> length (itoa a) \<le> 29"
proof -
  have e: "itoa a = decimal (nat a) @ [0]"
    using itoa_loop_decimal [of "nat a" "[0]"] assms by (simp add: itoa_def)
  have "nat a < 10 ^ 28" using assms by (simp add: i32_range_def)
  then have "length (decimal (nat a)) \<le> 28" by (intro length_decimal) simp_all
  with e show ?thesis by simp
qed

theorem itoa_decimal_witness: "itoa 200 = [50, 48, 48, 0]"
proof -
  have h: "(0::int) \<le> 200" "i32_range 200" by (simp_all add: i32_range_def)
  from itoa_decimal [OF h] have "itoa 200 = decimal (nat 200) @ [0]" by (rule conjunct1)
  then show ?thesis by (simp add: decimal.simps)
qed

text \<open>
  \<open>strcmp\<close> on NUL-terminated strings always returns, returns 0 exactly for equal strings, and
  swapping the arguments negates the result.
\<close>

theorem strcmp_compares:
  assumes "0 \<in> set p" and "0 \<in> set q"
  shows "\<exists>r. strcmp p q = Inr r \<and> strcmp q p = Inr (- r) \<and> (r = 0 \<longleftrightarrow> cstr p = cstr q)"
proof -
  from assms obtain r where r: "strcmp p q = Inr r" using strcmp_defined by blast
  with strcmp_swap [OF r] strcmp_zero_iff [OF assms] show ?thesis by auto
qed

theorem strcmp_compares_witness:
  "\<exists>r. strcmp [46, 0] [46, 46, 0] = Inr r \<and> strcmp [46, 46, 0] [46, 0] = Inr (- r) \<and>
     (r = 0 \<longleftrightarrow> cstr [46, 0] = cstr [46, 46, 0])"
  using strcmp_compares [of "[46, 0]" "[46, 46, 0]"] by simp

end
