(* ===== verification/Ide_Cache.thy ===== *)
theory Ide_Cache
  imports Prelude
begin

text \<open>
  The IDE driver (src/kernel/drivers/ide): the direct-mapped write-back sector cache of
  cache.c, the transfers and the command registers of disk.c, and the message handler and
  write-back timer of ide.c. The disk behind the ports is a map from sector numbers to 512
  bytes. The contents a client sees, \<open>ide_view\<close>, is the cached byte when its sector is cached
  and the disk's byte otherwise; the cache operations refine reads and writes of that view.
\<close>

record sector_cache =
  sector :: u32
  used :: bool
  dirty :: bool
  content :: "u8 list"

record ide =
  cache :: "nat \<Rightarrow> sector_cache"
  hd_sectors :: "u32 \<Rightarrow> u8 list"
  wb_counter :: nat

definition NR_SEC_CACHE :: nat where "NR_SEC_CACHE = 128"

section \<open>disk.c\<close>

text \<open>The port writes of \<open>ide_prepare\<close> once the controller is ready, in order.\<close>

definition ide_prepare :: "u32 \<Rightarrow> (u16 \<times> u8) list" where
  "ide_prepare sec =
     [(0x3F6, 0), (0x1F0 + 2, 1),
      (0x1F0 + 3, ucast (sec AND 0xFF)),
      (0x1F0 + 4, ucast (drop_bit 8 sec AND 0xFF)),
      (0x1F0 + 5, ucast (drop_bit 16 sec AND 0xFF)),
      (0x1F0 + 6, ucast (0xE0 OR (drop_bit 24 sec AND 0xFF)))]"

text \<open>
  \<open>disk_do_read\<close> fills the buffer with the 128 longs the data port delivers,
  \<open>disk_do_write\<close> sends the buffer's 128 longs.
\<close>

definition disk_do_read :: "u32 \<Rightarrow> ide \<Rightarrow> u8 list" where
  "disk_do_read sec s = bytes_list (u32_list (hd_sectors s sec))"

definition disk_do_write :: "u8 list \<Rightarrow> u32 \<Rightarrow> ide \<Rightarrow> ide" where
  "disk_do_write bf sec s = s\<lparr>hd_sectors := (hd_sectors s)(sec := bytes_list (u32_list bf))\<rparr>"

section \<open>cache.c\<close>

definition cache_init :: "ide \<Rightarrow> ide" where
  "cache_init s = s\<lparr>cache := (\<lambda>i. if i < NR_SEC_CACHE then (cache s i)\<lparr>used := False\<rparr> else cache s i)\<rparr>"

definition writeback_slot :: "nat \<Rightarrow> ide \<Rightarrow> ide" where
  "writeback_slot i s =
     (if dirty (cache s i) then
        let s = disk_do_write (content (cache s i)) (sector (cache s i)) s
        in s\<lparr>cache := (cache s)(i := (cache s i)\<lparr>dirty := False\<rparr>)\<rparr>
      else s)"

definition cache_writeback :: "ide \<Rightarrow> ide" where
  "cache_writeback s = fold writeback_slot [0..<NR_SEC_CACHE] s"

definition slot_of :: "u32 \<Rightarrow> nat" where
  "slot_of sec = unat (sec mod of_nat NR_SEC_CACHE)"

definition cache_fetch :: "u32 \<Rightarrow> ide \<Rightarrow> ide" where
  "cache_fetch sec s =
     (let i = slot_of sec; p = cache s i in
      if used p \<and> sector p = sec then s
      else
        let s = (if used p \<and> dirty p then disk_do_write (content p) (sector p) s else s);
            p = p\<lparr>content := disk_do_read sec s\<rparr>;
            p = p\<lparr>used := True, sector := sec, dirty := False\<rparr>
        in s\<lparr>cache := (cache s)(i := p)\<rparr>)"

definition read_byte :: "u32 \<Rightarrow> ide \<Rightarrow> u8 \<times> ide" where
  "read_byte off s =
     (let sec = drop_bit 9 off; s = cache_fetch sec s
      in (content (cache s (slot_of sec)) ! unat (off AND 511), s))"

definition write_byte :: "u32 \<Rightarrow> u8 \<Rightarrow> ide \<Rightarrow> ide" where
  "write_byte off data s =
     (let sec = drop_bit 9 off; s = cache_fetch sec s; i = slot_of sec; p = cache s i;
          p = p\<lparr>content := (content p)[unat (off AND 511) := data]\<rparr>;
          p = p\<lparr>dirty := True\<rparr>
      in s\<lparr>cache := (cache s)(i := p)\<rparr>)"

section \<open>ide.c\<close>

definition IDE_READY :: int where "IDE_READY = 1"
definition IDE_WRITEBACK :: int where "IDE_WRITEBACK = 2"

text \<open>
  The two waits of a transfer. \<open>ide_prepare\<close> polls the status port until the controller is ready and
  not busy; \<open>st n\<close> is what the \<open>n\<close>th look at the port gives, the result how many looks were in vain.
  Then the interrupts in the driver's mailbox are taken until one reports the transfer; \<open>None\<close>: the
  driver sleeps for the next.
\<close>

partial_function (option) wait_idle :: "(nat \<Rightarrow> u8) \<Rightarrow> nat \<Rightarrow> nat option" where
  "wait_idle st n = (if st n AND 0xC0 \<noteq> 0x40 then wait_idle st (n + 1) else Some n)"

fun wait_ready :: "msg list \<Rightarrow> msg list option" where
  "wait_ready [] = None"
| "wait_ready (m # ms) = (if mtype m \<noteq> IDE_READY then wait_ready ms else Some ms)"

text \<open>The first ready status ends the polling; a controller that never gets ready hangs the driver.\<close>

lemma wait_idle_first:
  "st (n + k) AND 0xC0 = 0x40 \<Longrightarrow> (\<forall>j < k. st (n + j) AND 0xC0 \<noteq> 0x40) \<Longrightarrow> wait_idle st n = Some (n + k)"
proof (induction k arbitrary: n)
  case (Suc k)
  have "st n AND 0xC0 \<noteq> 0x40" using Suc.prems(2) by (metis add_0_right zero_less_Suc)
  moreover have "wait_idle st (n + 1) = Some (n + 1 + k)"
    using Suc.prems by (intro Suc.IH) auto
  ultimately show ?case by (subst wait_idle.simps) simp
qed (subst wait_idle.simps, simp)

text \<open>A write-back request that comes during a transfer is taken out of the mailbox and lost.\<close>

lemma wait_ready_drops:
  "\<forall>m \<in> set ms. mtype m = IDE_WRITEBACK \<Longrightarrow> mtype r = IDE_READY \<Longrightarrow> wait_ready (ms @ r # rest) = Some rest"
  by (induction ms) (auto simp: IDE_READY_def IDE_WRITEBACK_def)

text \<open>The addresses \<open>m.offset + i\<close> for \<open>i < m.len\<close>, all \<open>uint32_t\<close>.\<close>

definition dev_addrs :: "msg \<Rightarrow> u32 list" where
  "dev_addrs m = map (\<lambda>i. u32_of (offset m) + of_nat i) [0..<unat (u32_of (len m))]"

text \<open>
  One message of \<open>ide_driver_thread\<close>. \<open>ubytes\<close> are the bytes at \<open>m.buf\<close> in the requester's
  memory; the result is the answer sent (if any), the bytes copied to \<open>m.buf\<close>, and the new
  state. \<open>fetch_pcb\<close> asserts that \<open>req_pid\<close> is a slot of the process pool.
\<close>

definition ide_handle :: "int \<Rightarrow> msg \<Rightarrow> (nat \<Rightarrow> u8) \<Rightarrow> ide \<Rightarrow> (msg option \<times> u8 list \<times> ide) exec" where
  "ide_handle IDE m ubytes s =
     (if src m = MSG_HARD_INTR then
        (if mtype m = IDE_WRITEBACK then Inr (None, [], cache_writeback s) else Inl Panic)
      else if mtype m = DEV_READ then
        assertE (dev_addrs m = [] \<or> 0 \<le> req_pid m \<and> req_pid m < POOL_NUM)
          (let (bs, s) = iter_read read_byte (dev_addrs m) s
           in Inr (Some (reply IDE (len m) m), bs, s))
      else if mtype m = DEV_WRITE then
        assertE (dev_addrs m = [] \<or> 0 \<le> req_pid m \<and> req_pid m < POOL_NUM)
          (let as = dev_addrs m;
               s = iter_write write_byte (zip as (cells ubytes 0 (length as))) s
           in Inr (Some (reply IDE (len m) m), [], s))
      else Inl AssertFail)"

text \<open>\<open>time_intr\<close>: every \<open>WRITEBACK_TIME * HZ\<close> ticks a write-back message is sent.\<close>

definition time_intr :: "ide \<Rightarrow> bool \<times> ide" where
  "time_intr s = (let c = Suc (wb_counter s) mod (1 * 100) in (c = 0, s\<lparr>wb_counter := c\<rparr>))"

section \<open>The view of the disk through the cache\<close>

definition cached :: "ide \<Rightarrow> u32 \<Rightarrow> bool" where
  "cached s sec \<longleftrightarrow> used (cache s (slot_of sec)) \<and> sector (cache s (slot_of sec)) = sec"

definition sector_view :: "ide \<Rightarrow> u32 \<Rightarrow> u8 list" where
  "sector_view s sec = (if cached s sec then content (cache s (slot_of sec)) else hd_sectors s sec)"

definition ide_view :: "ide \<Rightarrow> u32 \<Rightarrow> u8" where
  "ide_view s off = sector_view s (drop_bit 9 off) ! unat (off AND 511)"

text \<open>
  Every used slot holds a sector that maps to it, 512 bytes long, equal to the disk's unless
  dirty; dirty slots are in use; every sector of the disk has 512 bytes.
\<close>

definition ide_inv :: "ide \<Rightarrow> bool" where
  "ide_inv s \<longleftrightarrow>
     (\<forall>i < NR_SEC_CACHE. let p = cache s i in
        (used p \<longrightarrow> slot_of (sector p) = i \<and> length (content p) = 512 \<and>
           (\<not> dirty p \<longrightarrow> content p = hd_sectors s (sector p))) \<and>
        (dirty p \<longrightarrow> used p)) \<and>
     (\<forall>sec. length (hd_sectors s sec) = 512)"

lemma slot_of_less [simp]: "slot_of sec < NR_SEC_CACHE"
  by (simp add: slot_of_def NR_SEC_CACHE_def unat_mod)

lemma ide_invD:
  assumes "ide_inv s" and "i < NR_SEC_CACHE"
  shows "used (cache s i) \<Longrightarrow> slot_of (sector (cache s i)) = i"
    and "used (cache s i) \<Longrightarrow> length (content (cache s i)) = 512"
    and "used (cache s i) \<Longrightarrow> \<not> dirty (cache s i) \<Longrightarrow> content (cache s i) = hd_sectors s (sector (cache s i))"
    and "dirty (cache s i) \<Longrightarrow> used (cache s i)"
  using assms by (auto simp: ide_inv_def Let_def)

lemma ide_inv_disk: "ide_inv s \<Longrightarrow> length (hd_sectors s sec) = 512"
  by (simp add: ide_inv_def)

lemma disk_do_read_eq [simp]: "ide_inv s \<Longrightarrow> disk_do_read sec s = hd_sectors s sec"
  by (simp add: disk_do_read_def ide_inv_disk)

lemma disk_do_write_eq:
  "length bf = 512 \<Longrightarrow> disk_do_write bf sec s = s\<lparr>hd_sectors := (hd_sectors s)(sec := bf)\<rparr>"
  by (simp add: disk_do_write_def)

text \<open>Fetching a sector caches it and changes no sector's contents.\<close>

lemma cache_fetch_spec:
  assumes inv: "ide_inv s"
  shows "ide_inv (cache_fetch sec s) \<and> sector_view (cache_fetch sec s) = sector_view s \<and>
         cached (cache_fetch sec s) sec \<and> wb_counter (cache_fetch sec s) = wb_counter s"
proof (cases "cached s sec")
  case True
  then show ?thesis using inv by (simp add: cache_fetch_def cached_def Let_def)
next
  case miss: False
  define i p where "i = slot_of sec" and "p = cache s i"
  have i: "i < NR_SEC_CACHE" by (simp add: i_def)
  define s1 where "s1 = (if used p \<and> dirty p
    then s\<lparr>hd_sectors := (hd_sectors s)(sector p := content p)\<rparr> else s)"
  define s2 where "s2 = s1\<lparr>cache := (cache s)(i := p\<lparr>content := hd_sectors s1 sec, used := True,
    sector := sec, dirty := False\<rparr>)\<rparr>"
  note P = ide_invD [OF inv i, folded p_def]
  have d1: "length (hd_sectors s1 x) = 512" for x
    using inv P by (auto simp: s1_def ide_inv_disk)
  have ne: "sector p \<noteq> sec" if "used p"
    using miss that by (auto simp: cached_def p_def i_def)
  have fetch: "cache_fetch sec s = s2"
  proof -
    have A: "(if used p \<and> dirty p then disk_do_write (content p) (sector p) s else s) = s1"
      using P by (simp add: s1_def disk_do_write_eq)
    have B: "disk_do_read sec s1 = hd_sectors s1 sec"
      by (simp add: disk_do_read_def d1)
    have C: "cache s1 = cache s" by (simp add: s1_def)
    have M: "\<not> (used p \<and> sector p = sec)" using miss by (auto simp: cached_def p_def i_def)
    have "cache_fetch sec s =
      (let s' = if used p \<and> dirty p then disk_do_write (content p) (sector p) s else s
       in s'\<lparr>cache := (cache s')(i := p\<lparr>content := disk_do_read sec s', used := True,
            sector := sec, dirty := False\<rparr>)\<rparr>)"
      unfolding cache_fetch_def Let_def i_def [symmetric] p_def [symmetric]
      by (simp only: if_not_P [OF M])
    then show ?thesis by (simp only: Let_def A B C s2_def)
  qed
  have other: "hd_sectors s1 (sector (cache s j)) = hd_sectors s (sector (cache s j))"
    if "j < NR_SEC_CACHE" "j \<noteq> i" "used (cache s j)" for j
    using ide_invD(1) [OF inv that(1) that(3)] P(1) that(2) by (auto simp: s1_def)
  have inv2: "ide_inv s2"
    unfolding ide_inv_def Let_def
  proof (intro conjI allI impI)
    fix j assume j: "j < NR_SEC_CACHE"
    show "used (cache s2 j)" if "dirty (cache s2 j)"
      using ide_invD(4) [OF inv j] that by (auto simp: s2_def split: if_splits)
    assume u: "used (cache s2 j)"
    show "slot_of (sector (cache s2 j)) = j"
      using ide_invD(1) [OF inv j] u by (auto simp: s2_def i_def split: if_splits)
    show "length (content (cache s2 j)) = 512"
      using ide_invD(2) [OF inv j] u d1 by (auto simp: s2_def split: if_splits)
    show "content (cache s2 j) = hd_sectors s2 (sector (cache s2 j))" if "\<not> dirty (cache s2 j)"
      using ide_invD(3) [OF inv j] other [OF j] u that by (auto simp: s2_def split: if_splits)
  next
    fix x show "length (hd_sectors s2 x) = 512" using d1 by (simp add: s2_def)
  qed
  have "sector_view s2 x = sector_view s x" for x
  proof (cases "slot_of x = i")
    case True
    show ?thesis
    proof (cases "x = sec")
      case True
      then show ?thesis using miss ne
        by (auto simp: sector_view_def cached_def s2_def s1_def i_def p_def)
    next
      case False
      with True have "\<not> cached s2 x" by (simp add: cached_def s2_def)
      then show ?thesis using True P(3)
        by (auto simp: sector_view_def cached_def s2_def s1_def p_def)
    qed
  next
    case False
    then have "cached s2 x = cached s x" by (simp add: cached_def s2_def)
    moreover have "hd_sectors s1 x = hd_sectors s x"
      using False P(1) by (auto simp: s1_def)
    ultimately show ?thesis using False by (simp add: sector_view_def s2_def)
  qed
  moreover have "cached s2 sec" by (simp add: cached_def s2_def i_def)
  moreover have "wb_counter s2 = wb_counter s" by (simp add: s2_def s1_def)
  ultimately show ?thesis using inv2 fetch by auto
qed

section \<open>The cache as a byte device\<close>

lemma read_byte_spec:
  assumes "ide_inv s"
  shows "fst (read_byte off s) = ide_view s off \<and> ide_view (snd (read_byte off s)) = ide_view s \<and>
         ide_inv (snd (read_byte off s))"
proof -
  note f = cache_fetch_spec [OF assms, of "drop_bit 9 off"]
  then have "sector_view s (drop_bit 9 off) =
      content (cache (cache_fetch (drop_bit 9 off) s) (slot_of (drop_bit 9 off)))"
    by (metis sector_view_def)
  with f show ?thesis by (simp add: read_byte_def Let_def ide_view_def fun_eq_iff)
qed

lemma byte_index_less [simp]: "unat (off AND 511 :: u32) < 512"
proof -
  have "off AND 511 \<le> 511" by (rule word_and_le1)
  then show ?thesis by (simp add: word_le_nat_alt)
qed

lemma offset_split: "drop_bit 9 a = drop_bit 9 b \<Longrightarrow> a AND 511 = b AND 511 \<Longrightarrow> a = (b :: u32)"
proof (rule bit_word_eqI)
  fix n assume n: "n < LENGTH(32)" and h: "drop_bit 9 a = drop_bit 9 b" "a AND 511 = b AND 511"
  have m: "(511 :: u32) = mask 9" by (simp add: mask_eq_exp_minus_1)
  show "bit a n = bit b n"
  proof (cases "n < 9")
    case True
    have "bit (a AND 511) n = bit (b AND 511) n" using h by simp
    with True show ?thesis by (simp add: m bit_and_iff bit_mask_iff)
  next
    case False
    have "bit (drop_bit 9 a) (n - 9) = bit (drop_bit 9 b) (n - 9)" using h by simp
    with False show ?thesis by (simp add: bit_drop_bit_eq)
  qed
qed

lemma write_byte_spec:
  assumes inv: "ide_inv s"
  shows "ide_view (write_byte off b s) = (ide_view s)(off := b) \<and> ide_inv (write_byte off b s)"
proof -
  define sec t where "sec = drop_bit 9 off" and "t = cache_fetch sec s"
  define i p where "i = slot_of sec" and "p = cache t i"
  note f = cache_fetch_spec [OF inv, of sec, folded t_def]
  have it: "ide_inv t" and ct: "used p" "sector p = sec"
    using f by (auto simp: cached_def i_def p_def)
  have i: "i < NR_SEC_CACHE" by (simp add: i_def)
  note P = ide_invD [OF it i, folded p_def]
  define u where "u = t\<lparr>cache := (cache t)(i := p\<lparr>content := (content p)[unat (off AND 511) := b],
    dirty := True\<rparr>)\<rparr>"
  have w: "write_byte off b s = u"
    by (simp add: write_byte_def Let_def u_def i_def p_def t_def sec_def)
  have "ide_inv u"
    using it P ct by (auto simp: ide_inv_def Let_def u_def)
  moreover have "ide_view u a = ((ide_view s)(off := b)) a" for a
  proof -
    have v: "ide_view s a = ide_view t a" using f by (simp add: ide_view_def)
    show ?thesis
    proof (cases "drop_bit 9 a = sec")
      case True
      have "sector_view t sec = content p" "sector_view u sec = (content p)[unat (off AND 511) := b]"
        using ct by (auto simp: sector_view_def cached_def u_def i_def p_def)
      moreover have "a = off \<longleftrightarrow> unat (off AND 511) = unat (a AND 511)"
        using offset_split [of a off] True sec_def by (metis word_unat_eq_iff)
      ultimately show ?thesis using v True P(2) ct by (auto simp: ide_view_def nth_list_update)
    next
      case False
      have "sector_view u x = sector_view t x" if "x \<noteq> sec" for x
        using that ct by (auto simp: sector_view_def cached_def u_def p_def i_def)
      with False v show ?thesis by (auto simp: ide_view_def sec_def)
    qed
  qed
  ultimately show ?thesis using w by auto
qed

interpretation ide_device: byte_device read_byte write_byte ide_view ide_inv
proof (unfold_locales, goal_cases)
  case (1 s a) then show ?case using read_byte_spec by blast
next
  case (2 s a) then show ?case using read_byte_spec by blast
next
  case (3 s a) then show ?case using read_byte_spec by blast
next
  case (4 s a b) then show ?case using write_byte_spec by blast
next
  case (5 s a b) then show ?case using write_byte_spec by blast
qed

text \<open>Writing back one slot changes no view; it cleans the slot and leaves clean slots clean.\<close>

lemma writeback_slot_spec:
  assumes inv: "ide_inv s" and i: "i < NR_SEC_CACHE"
  shows "ide_inv (writeback_slot i s) \<and> sector_view (writeback_slot i s) = sector_view s \<and>
         (\<forall>j. dirty (cache (writeback_slot i s) j) \<longleftrightarrow> dirty (cache s j) \<and> j \<noteq> i)"
proof (cases "dirty (cache s i)")
  case False
  then show ?thesis using inv by (auto simp: writeback_slot_def)
next
  case True
  define p where "p = cache s i"
  note P = ide_invD [OF inv i, folded p_def]
  define u where "u = s\<lparr>hd_sectors := (hd_sectors s)(sector p := content p),
    cache := (cache s)(i := p\<lparr>dirty := False\<rparr>)\<rparr>"
  have w: "writeback_slot i s = u"
    using True P by (simp add: writeback_slot_def Let_def disk_do_write_eq u_def p_def)
  have up: "used p" "slot_of (sector p) = i" using True P by (auto simp: p_def)
  have other: "sector (cache s j) \<noteq> sector p" if "j < NR_SEC_CACHE" "j \<noteq> i" "used (cache s j)" for j
    using ide_invD(1) [OF inv that(1) that(3)] up that(2) by auto
  have "ide_inv u"
    unfolding ide_inv_def Let_def
  proof (intro conjI allI impI)
    fix j assume j: "j < NR_SEC_CACHE"
    show "used (cache u j)" if "dirty (cache u j)"
      using ide_invD(4) [OF inv j] that by (auto simp: u_def split: if_splits)
    assume uj: "used (cache u j)"
    show "slot_of (sector (cache u j)) = j"
      using ide_invD(1) [OF inv j] uj up by (auto simp: u_def split: if_splits)
    show "length (content (cache u j)) = 512"
      using ide_invD(2) [OF inv j] uj P up by (auto simp: u_def split: if_splits)
    show "content (cache u j) = hd_sectors u (sector (cache u j))" if "\<not> dirty (cache u j)"
      using ide_invD(3) [OF inv j] other [OF j] uj that by (auto simp: u_def split: if_splits)
  next
    fix x show "length (hd_sectors u x) = 512"
      using ide_inv_disk [OF inv] P up by (simp add: u_def)
  qed
  moreover have "sector_view u x = sector_view s x" for x
    using up by (auto simp: sector_view_def cached_def u_def p_def)
  moreover have "dirty (cache u j) \<longleftrightarrow> dirty (cache s j) \<and> j \<noteq> i" for j
    by (auto simp: u_def)
  ultimately show ?thesis using w by auto
qed

lemma writeback_fold:
  "\<lbrakk>ide_inv s; set is \<subseteq> {..<NR_SEC_CACHE}\<rbrakk> \<Longrightarrow>
   ide_inv (fold writeback_slot is s) \<and> sector_view (fold writeback_slot is s) = sector_view s \<and>
   (\<forall>j. dirty (cache (fold writeback_slot is s) j) \<longleftrightarrow> dirty (cache s j) \<and> j \<notin> set is)"
proof (induction "is" arbitrary: s)
  case Nil
  then show ?case by simp
next
  case (Cons i "is")
  then have "ide_inv (writeback_slot i s)" "set is \<subseteq> {..<NR_SEC_CACHE}"
    "sector_view (writeback_slot i s) = sector_view s"
    "\<forall>j. dirty (cache (writeback_slot i s) j) \<longleftrightarrow> dirty (cache s j) \<and> j \<noteq> i"
    using writeback_slot_spec [of s i] by auto
  with Cons.IH [of "writeback_slot i s"] show ?case by auto
qed

lemma dev_addrs_distinct: "distinct (dev_addrs m)"
proof -
  have "inj_on (\<lambda>i. u32_of (offset m) + of_nat i) {..<unat (u32_of (len m))}"
  proof (rule inj_onI)
    fix i j
    assume i: "i \<in> {..<unat (u32_of (len m))}" and j: "j \<in> {..<unat (u32_of (len m))}"
      and "u32_of (offset m) + of_nat i = u32_of (offset m) + (of_nat j :: u32)"
    then have e: "(of_nat i :: u32) = of_nat j" by simp
    have "i < 2 ^ 32" "j < 2 ^ 32"
      using i j unat32_less [of "u32_of (len m)"] by auto
    then have "unat (of_nat i :: u32) = i" "unat (of_nat j :: u32) = j"
      by (simp_all add: unat_of_nat32)
    with e show "i = j" by metis
  qed
  then show ?thesis by (simp add: dev_addrs_def distinct_map atLeast0LessThan)
qed

section \<open>Properties\<close>

text \<open>
  A \<open>DEV_READ\<close> request to the IDE driver is answered with \<open>ret = len\<close>; the bytes copied to
  the requester are those of the disk's view from \<open>offset\<close> on, whichever sectors had to be
  fetched or evicted on the way, and the view of the whole disk is unchanged.
\<close>

theorem ide_read_correct:
  assumes "ide_inv s" and "src m \<noteq> MSG_HARD_INTR" and "mtype m = DEV_READ"
    and "0 \<le> req_pid m" and "req_pid m < POOL_NUM"
  shows "\<exists>s'. ide_handle IDE m ub s =
           Inr (Some (reply IDE (len m) m), map (ide_view s) (dev_addrs m), s') \<and>
         ide_view s' = ide_view s \<and> ide_inv s'"
proof -
  obtain bs s' where r: "iter_read read_byte (dev_addrs m) s = (bs, s')" by fastforce
  with ide_device.read_all [OF assms(1), of "dev_addrs m"] assms show ?thesis
    by (auto simp: ide_handle_def DEV_READ_def)
qed

definition blank_ide :: ide where
  "blank_ide = \<lparr>cache = (\<lambda>_. \<lparr>sector = 0, used = False, dirty = False, content = []\<rparr>),
                hd_sectors = (\<lambda>_. replicate 512 0), wb_counter = 0\<rparr>"

definition ide_req :: "int \<Rightarrow> int \<Rightarrow> int \<Rightarrow> msg" where
  "ide_req t off n = \<lparr>src = 12, dest = 6, mtype = t, i0 = 12, i1 = 0, i2 = 0, i3 = off, i4 = n\<rparr>"

lemma blank_ide_inv: "ide_inv blank_ide"
  by (simp add: ide_inv_def blank_ide_def)

theorem ide_read_correct_witness:
  "\<exists>s'. ide_handle 6 (ide_req 1 510 4) (\<lambda>_. 0) blank_ide =
     Inr (Some (reply 6 4 (ide_req 1 510 4)), map (ide_view blank_ide) (dev_addrs (ide_req 1 510 4)), s') \<and>
     ide_view s' = ide_view blank_ide \<and> ide_inv s'"
  using ide_read_correct [OF blank_ide_inv, of "ide_req 1 510 4" 6 "\<lambda>_. 0"]
  by (simp add: ide_req_def MSG_HARD_INTR_def DEV_READ_def POOL_NUM_def)

text \<open>
  C19. What a \<open>DEV_WRITE\<close> request stores is what a later \<open>DEV_READ\<close> of the same range delivers,
  and no byte outside the range changes, although both requests go through the 128-slot cache
  and may evict each other's sectors.
\<close>

theorem ide_write_read_roundtrip:
  assumes "ide_inv s" and "src m \<noteq> MSG_HARD_INTR" and "mtype m = DEV_WRITE"
    and "0 \<le> req_pid m" and "req_pid m < POOL_NUM"
  shows "\<exists>s1 s2. ide_handle IDE m ub s = Inr (Some (reply IDE (len m) m), [], s1) \<and>
           ide_handle IDE (m\<lparr>mtype := DEV_READ\<rparr>) ub' s1 =
             Inr (Some (reply IDE (len m) m), cells ub 0 (length (dev_addrs m)), s2) \<and>
           (\<forall>a. a \<notin> set (dev_addrs m) \<longrightarrow> ide_view s1 a = ide_view s a) \<and> ide_inv s2"
proof -
  let ?as = "dev_addrs m" and ?bs = "cells ub 0 (length (dev_addrs m))"
  define s1 where "s1 = iter_write write_byte (zip ?as ?bs) s"
  have i1: "ide_inv s1" using ide_device.write_all [OF assms(1)] by (simp add: s1_def)
  obtain bs s2 where r: "iter_read read_byte ?as s1 = (bs, s2)" by fastforce
  have "bs = ?bs"
    using ide_device.read_write [OF assms(1) dev_addrs_distinct, of m ?bs] r by (simp add: s1_def)
  moreover have "ide_inv s2" using ide_device.read_all [OF i1, of ?as] r by simp
  moreover have "\<forall>a. a \<notin> set ?as \<longrightarrow> ide_view s1 a = ide_view s a"
    using ide_device.write_other [OF assms(1)] by (simp add: s1_def)
  moreover have "dev_addrs (m\<lparr>mtype := DEV_READ\<rparr>) = ?as" by (simp add: dev_addrs_def)
  ultimately show ?thesis using r assms
    by (auto simp: ide_handle_def s1_def [symmetric] Let_def DEV_READ_def DEV_WRITE_def reply_def)
qed

theorem ide_write_read_roundtrip_witness:
  "\<exists>s1 s2. ide_handle 6 (ide_req 2 510 4) of_nat blank_ide = Inr (Some (reply 6 4 (ide_req 2 510 4)), [], s1) \<and>
     ide_handle 6 ((ide_req 2 510 4)\<lparr>mtype := DEV_READ\<rparr>) of_nat s1 =
       Inr (Some (reply 6 4 (ide_req 2 510 4)), cells of_nat 0 (length (dev_addrs (ide_req 2 510 4))), s2) \<and>
     (\<forall>a. a \<notin> set (dev_addrs (ide_req 2 510 4)) \<longrightarrow> ide_view s1 a = ide_view blank_ide a) \<and> ide_inv s2"
  using ide_write_read_roundtrip [OF blank_ide_inv, of "ide_req 2 510 4" 6 of_nat of_nat]
  by (simp add: ide_req_def MSG_HARD_INTR_def DEV_WRITE_def POOL_NUM_def)

text \<open>
  C28. The periodic write-back loses nothing: after it every byte on the disk is the byte the
  clients saw before, no slot is dirty, and what clients see is unchanged.
\<close>

theorem cache_writeback_flushes:
  assumes "ide_inv s"
  shows "ide_inv (cache_writeback s) \<and> ide_view (cache_writeback s) = ide_view s \<and>
         (\<forall>i < NR_SEC_CACHE. \<not> dirty (cache (cache_writeback s) i)) \<and>
         (\<forall>off. hd_sectors (cache_writeback s) (drop_bit 9 off) ! unat (off AND 511) = ide_view s off)"
proof -
  define t where "t = cache_writeback s"
  have t: "ide_inv t" "sector_view t = sector_view s" "\<forall>i < NR_SEC_CACHE. \<not> dirty (cache t i)"
    using writeback_fold [OF assms, of "[0..<NR_SEC_CACHE]"]
    by (auto simp: t_def cache_writeback_def atLeast0LessThan)
  have "hd_sectors t sec = sector_view t sec" for sec
    using t(3) ide_invD(3) [OF t(1) slot_of_less, of sec] by (auto simp: sector_view_def cached_def)
  with t show ?thesis by (auto simp: t_def ide_view_def)
qed

theorem cache_writeback_flushes_witness:
  "ide_inv (cache_writeback (write_byte 513 7 blank_ide)) \<and>
   hd_sectors (cache_writeback (write_byte 513 7 blank_ide)) 1 ! 1 = 7"
proof -
  have i: "ide_inv (write_byte 513 7 blank_ide)"
    using write_byte_spec [OF blank_ide_inv] by simp
  have "ide_view (write_byte 513 7 blank_ide) 513 = 7"
    using write_byte_spec [OF blank_ide_inv, of 513 7] by simp
  moreover have "hd_sectors (cache_writeback (write_byte 513 7 blank_ide)) (drop_bit 9 513) !
      unat (513 AND 511 :: u32) = ide_view (write_byte 513 7 blank_ide) 513"
    using cache_writeback_flushes [OF i] by blast
  ultimately show ?thesis using cache_writeback_flushes [OF i] by simp
qed

text \<open>The sector number the controller reads from its LBA registers, ports 0x1F3 to 0x1F6.\<close>

definition lba_registers :: "(u16 \<times> u8) list \<Rightarrow> u32" where
  "lba_registers ws =
     (let r = (\<lambda>p. case map_of (rev ws) p of None \<Rightarrow> 0 | Some b \<Rightarrow> (ucast b :: u32)) in
      r 0x1F3 OR push_bit 8 (r 0x1F4) OR push_bit 16 (r 0x1F5) OR push_bit 24 (r 0x1F6 AND 0x0F))"

text \<open>
  The command registers \<open>ide_prepare\<close> programs select LBA mode and address exactly the
  requested sector, for every sector number of 28 bits.
\<close>

theorem ide_prepare_lba:
  assumes "sec < 2 ^ 28"
  shows "lba_registers (ide_prepare sec) = sec"
proof -
  have hi: "\<not> bit sec n" if "28 \<le> n" for n
    using assms that by (intro bit_small [of _ 28]) (simp_all add: word_less_nat_alt)
  have l: "lba_registers (ide_prepare sec) =
      (ucast (ucast (sec AND 0xFF) :: u8)) OR push_bit 8 (ucast (ucast (drop_bit 8 sec AND 0xFF) :: u8)) OR
      push_bit 16 (ucast (ucast (drop_bit 16 sec AND 0xFF) :: u8)) OR
      push_bit 24 (ucast (ucast (0xE0 OR (drop_bit 24 sec AND 0xFF)) :: u8) AND 0x0F)"
    by (simp add: lba_registers_def ide_prepare_def)
  show ?thesis unfolding l
  proof (rule bit_word_eqI)
    fix n assume n: "n < LENGTH(32)"
    have m: "(0xFF :: u32) = mask 8" "(0x0F :: u32) = mask 4"
      by (simp_all add: mask_eq_exp_minus_1)
    consider "n < 8" | "8 \<le> n" "n < 16" | "16 \<le> n" "n < 24" | "n = 24" | "n = 25" | "n = 26" | "n = 27" | "28 \<le> n"
      by linarith
    then show "bit (ucast (ucast (sec AND 0xFF) :: u8) OR
         push_bit 8 (ucast (ucast (drop_bit 8 sec AND 0xFF) :: u8)) OR
         push_bit 16 (ucast (ucast (drop_bit 16 sec AND 0xFF) :: u8)) OR
         push_bit 24 (ucast (ucast (0xE0 OR (drop_bit 24 sec AND 0xFF)) :: u8) AND 0x0F) :: u32) n = bit sec n"
      by cases (use n hi in \<open>simp_all add: m bit_or_iff bit_and_iff bit_mask_iff bit_push_bit_iff
        bit_ucast_iff bit_drop_bit_eq less_diff_conv2\<close>)
  qed
qed

theorem ide_prepare_lba_witness: "lba_registers (ide_prepare 0x0ABCDEF) = 0x0ABCDEF"
  using ide_prepare_lba [of "0x0ABCDEF"] by simp

end
