(* ===== verification/Hal.thy ===== *)
theory Hal
  imports Prelude C_String
begin

text \<open>
  The device table of src/kernel/drivers/hal.c. \<open>dev_pool\<close> has 16 slots that move from the
  \<open>free\<close> list to the \<open>devices\<close> list; a slot is its index in the pool. A device name is a C
  string. \<open>lock\<close> and \<open>unlock\<close> only mask interrupts here.
\<close>

record dev =
  dname :: "u8 list"
  dpid :: int
  ddev :: int

record hal =
  dev_pool :: "nat \<Rightarrow> dev"
  free_devs :: "nat list"
  devices :: "nat list"

definition NR_DEV :: nat where "NR_DEV = 16"

definition init_hal :: "hal \<Rightarrow> hal" where
  "init_hal h = h\<lparr>free_devs := [0..<NR_DEV], devices := []\<rparr>"

fun hal_search :: "(nat \<Rightarrow> dev) \<Rightarrow> u8 list \<Rightarrow> nat list \<Rightarrow> nat option exec" where
  "hal_search pool name [] = Inr None"
| "hal_search pool name (d # ds) =
     bindE (strcmp (dname (pool d)) name)
       (\<lambda>c. if c = 0 then Inr (Some d) else hal_search pool name ds)"

definition hal_get :: "u8 list \<Rightarrow> hal \<Rightarrow> nat option exec" where
  "hal_get name h = hal_search (dev_pool h) name (devices h)"

definition hal_get_id :: "u8 list \<Rightarrow> hal \<Rightarrow> (int \<times> int) exec" where
  "hal_get_id name h =
     bindE (hal_get name h)
       (\<lambda>r. case r of None \<Rightarrow> Inl AssertFail
              | Some d \<Rightarrow> Inr (dpid (dev_pool h d), ddev (dev_pool h d)))"

definition hal_register :: "u8 list \<Rightarrow> int \<Rightarrow> int \<Rightarrow> hal \<Rightarrow> hal exec" where
  "hal_register name pid did h =
     (case free_devs h of
        [] \<Rightarrow> Inl Panic
      | d # free \<Rightarrow>
          bindE (hal_get name h)
            (\<lambda>r. if r \<noteq> None then Inl Panic
              else Inr (h\<lparr>free_devs := free,
                          dev_pool := (dev_pool h)(d := \<lparr>dname = name, dpid = pid, ddev = did\<rparr>),
                          devices := devices h @ [d]\<rparr>)))"

text \<open>The request \<open>dev_rw\<close> sends to the device's server; its result is the answer's \<open>ret\<close>.\<close>

definition dev_rw :: "int \<Rightarrow> u8 list \<Rightarrow> int \<Rightarrow> int \<Rightarrow> int \<Rightarrow> int \<Rightarrow> int \<Rightarrow> hal \<Rightarrow> msg exec" where
  "dev_rw cur name ty req bf off n h =
     bindE (hal_get name h)
       (\<lambda>r. case r of None \<Rightarrow> Inl AssertFail
          | Some d \<Rightarrow> Inr \<lparr>src = cur, dest = dpid (dev_pool h d), mtype = ty, i0 = req,
               i1 = ddev (dev_pool h d), i2 = bf, i3 = off, i4 = n\<rparr>)"

section \<open>The device table as a map from names\<close>

text \<open>
  Every slot is in exactly one of the two lists; registered names are NUL-terminated and
  pairwise different strings.
\<close>

definition hal_inv :: "hal \<Rightarrow> bool" where
  "hal_inv h \<longleftrightarrow>
     distinct (free_devs h @ devices h) \<and> set (free_devs h @ devices h) = {..<NR_DEV} \<and>
     (\<forall>d \<in> set (devices h). 0 \<in> set (dname (dev_pool h d))) \<and>
     distinct (map (\<lambda>d. cstr (dname (dev_pool h d))) (devices h))"

definition dev_table :: "hal \<Rightarrow> (u8 list \<times> (int \<times> int)) list" where
  "dev_table h = map (\<lambda>d. (cstr (dname (dev_pool h d)), dpid (dev_pool h d), ddev (dev_pool h d))) (devices h)"

lemma hal_search_spec:
  assumes "\<forall>d \<in> set ds. 0 \<in> set (dname (pool d))" and "0 \<in> set name"
  shows "\<exists>r. hal_search pool name ds = Inr r \<and>
     map_option (\<lambda>d. (dpid (pool d), ddev (pool d))) r =
       map_of (map (\<lambda>d. (cstr (dname (pool d)), dpid (pool d), ddev (pool d))) ds) (cstr name) \<and>
     (\<forall>d. r = Some d \<longrightarrow> d \<in> set ds)"
  using assms
proof (induction ds)
  case Nil
  then show ?case by simp
next
  case (Cons d ds)
  then obtain c where c: "strcmp (dname (pool d)) name = Inr c"
    using strcmp_defined [of "dname (pool d)" name] by auto
  have z: "c = 0 \<longleftrightarrow> cstr (dname (pool d)) = cstr name"
    using strcmp_zero_iff [of "dname (pool d)" name] Cons.prems c by auto
  from Cons.prems Cons.IH show ?case using c z by (cases "c = 0") auto
qed

lemma hal_get_table:
  assumes "hal_inv h" and "0 \<in> set name"
  shows "\<exists>r. hal_get name h = Inr r \<and>
     map_option (\<lambda>d. (dpid (dev_pool h d), ddev (dev_pool h d))) r = map_of (dev_table h) (cstr name) \<and>
     (\<forall>d. r = Some d \<longrightarrow> d \<in> set (devices h))"
  using hal_search_spec [of "devices h" "dev_pool h" name] assms
  by (auto simp: hal_inv_def hal_get_def dev_table_def)

lemma init_hal_inv: "hal_inv (init_hal h)"
  by (auto simp: hal_inv_def init_hal_def)

lemma hal_register_ok:
  assumes inv: "hal_inv h" and nul: "0 \<in> set name" and new: "map_of (dev_table h) (cstr name) = None"
    and room: "length (devices h) < NR_DEV"
  shows "\<exists>h'. hal_register name pid did h = Inr h' \<and> hal_inv h' \<and>
     dev_table h' = dev_table h @ [(cstr name, pid, did)]"
proof -
  obtain r where r: "hal_get name h = Inr r" and "r = None"
    using hal_get_table [OF inv nul] new by auto
  have card: "length (free_devs h @ devices h) = NR_DEV"
    using inv distinct_card [of "free_devs h @ devices h"] by (simp add: hal_inv_def)
  then obtain d fr where fr: "free_devs h = d # fr" using room by (cases "free_devs h") auto
  let ?n = "\<lparr>dname = name, dpid = pid, ddev = did\<rparr>"
  let ?h = "h\<lparr>free_devs := fr, dev_pool := (dev_pool h)(d := ?n), devices := devices h @ [d]\<rparr>"
  have d: "d \<notin> set (devices h)" using inv fr by (auto simp: hal_inv_def)
  have keep: "map (\<lambda>x. g (((dev_pool h)(d := ?n)) x)) (devices h) = map (\<lambda>x. g (dev_pool h x)) (devices h)"
    for g :: "dev \<Rightarrow> 'b" using d by (intro map_cong) auto
  have t: "dev_table ?h = dev_table h @ [(cstr name, pid, did)]"
    using keep [of "\<lambda>e. (cstr (dname e), dpid e, ddev e)"] by (simp add: dev_table_def)
  have names: "map (\<lambda>x. cstr (dname (dev_pool h x))) (devices h) = map fst (dev_table h)"
    by (simp add: dev_table_def)
  have "cstr name \<notin> set (map fst (dev_table h))" using new by (simp add: map_of_eq_None_iff)
  then have "hal_inv ?h"
    using inv fr d nul keep [of "\<lambda>e. cstr (dname e)"] names by (auto simp: hal_inv_def)
  with t r \<open>r = None\<close> fr show ?thesis by (simp add: hal_register_def)
qed

section \<open>Properties\<close>

text \<open>
  A device registered under a fresh name while the table has room is afterwards found by
  that name with its process and device number, every other lookup answers as before, and the
  table stays well formed (distinct names, no slot lost or shared).
\<close>

theorem hal_register_lookup:
  assumes "hal_inv h" and "0 \<in> set name" and "0 \<in> set other"
    and "map_of (dev_table h) (cstr name) = None" and "length (devices h) < NR_DEV"
  shows "\<exists>h'. hal_register name pid did h = Inr h' \<and> hal_inv h' \<and>
     hal_get_id name h' = Inr (pid, did) \<and>
     (cstr other \<noteq> cstr name \<longrightarrow> hal_get_id other h' = hal_get_id other h)"
proof -
  obtain h' where h': "hal_register name pid did h = Inr h'" "hal_inv h'"
      "dev_table h' = dev_table h @ [(cstr name, pid, did)]"
    using hal_register_ok [OF assms(1,2,4,5)] by blast
  have get: "hal_get_id x g = (case map_of (dev_table g) (cstr x) of None \<Rightarrow> Inl AssertFail | Some p \<Rightarrow> Inr p)"
    if "hal_inv g" "0 \<in> set x" for x g
    using hal_get_table [OF that] by (auto simp: hal_get_id_def split: option.splits)
  from h' assms(2,4) get show ?thesis
    by (auto simp: get [OF h'(2) assms(2)] get [OF h'(2) assms(3)] get [OF assms(1) assms(3)]
        map_add_def split: option.splits)
qed

definition empty_hal :: hal where
  "empty_hal = init_hal \<lparr>dev_pool = (\<lambda>_. \<lparr>dname = [0], dpid = 0, ddev = 0\<rparr>), free_devs = [], devices = []\<rparr>"

theorem hal_register_lookup_witness:
  "\<exists>h'. hal_register [114, 97, 109, 0] 7 0 empty_hal = Inr h' \<and> hal_inv h' \<and>
     hal_get_id [114, 97, 109, 0] h' = Inr (7, 0) \<and>
     (cstr [104, 0] \<noteq> cstr [114, 97, 109, 0] \<longrightarrow> hal_get_id [104, 0] h' = hal_get_id [104, 0] empty_hal)"
  by (rule hal_register_lookup)
    (simp_all add: empty_hal_def init_hal_inv, simp_all add: init_hal_def dev_table_def NR_DEV_def)

text \<open>
  The two refusals of \<open>hal_register\<close>: a full table and a name that is already registered
  both stop the kernel with a panic; nothing is ever registered twice.
\<close>

theorem hal_register_refuses:
  assumes "hal_inv h" and "0 \<in> set name"
    and "length (devices h) = NR_DEV \<or> map_of (dev_table h) (cstr name) \<noteq> None"
  shows "hal_register name pid did h = Inl Panic"
proof -
  have card: "length (free_devs h) + length (devices h) = NR_DEV"
    using assms(1) distinct_card [of "free_devs h @ devices h"] by (simp add: hal_inv_def)
  show ?thesis
  proof (cases "free_devs h")
    case Nil
    then show ?thesis by (simp add: hal_register_def)
  next
    case (Cons d fr)
    with card assms(3) have "map_of (dev_table h) (cstr name) \<noteq> None" by auto
    with hal_get_table [OF assms(1,2)] Cons show ?thesis by (auto simp: hal_register_def)
  qed
qed

definition one_dev :: hal where
  "one_dev = \<lparr>dev_pool = (\<lambda>_. \<lparr>dname = [114, 0], dpid = 7, ddev = 0\<rparr>), free_devs = [1..<16], devices = [0]\<rparr>"

theorem hal_register_refuses_witness: "hal_register [114, 0] 9 1 one_dev = Inl Panic"
  by (rule hal_register_refuses)
    (auto simp: one_dev_def hal_inv_def dev_table_def NR_DEV_def)

end
