(* ===== verification/Ramdisk.thy ===== *)
theory Ramdisk
  imports Prelude
begin

text \<open>
  The RAM disk server (src/kernel/drivers/ramdisk/ramdisk.c): an array of 4 MB and two
  request handlers with bounds asserts. \<open>offset + len\<close> is an addition of two \<open>int\<close>s; it is
  read as the compiled code's wrap-around, so the assert can pass for a range that ends
  beyond the array, which the copy then meets as \<open>OutOfRange\<close>.
\<close>

type_synonym disk = "nat \<Rightarrow> u8"

definition RAMDISK_SIZE :: int where "RAMDISK_SIZE = 4 * 1024 * 1024"

text \<open>
  The copy loops of kcpy.c on the disk's side. For a kernel process it is one \<open>memcpy\<close> of \<open>n\<close>
  bytes; for a user process a loop that does nothing when \<open>n\<close> is not positive.
\<close>

definition disk_out :: "bool \<Rightarrow> int \<Rightarrow> int \<Rightarrow> disk \<Rightarrow> u8 list exec" where
  "disk_out is_kernel off n d =
     (if \<not> is_kernel \<and> n \<le> 0 then Inr []
      else guardE OutOfRange (0 \<le> n \<and> off + n \<le> RAMDISK_SIZE) (Inr (cells d (nat off) (nat n))))"

definition disk_in :: "bool \<Rightarrow> int \<Rightarrow> int \<Rightarrow> (nat \<Rightarrow> u8) \<Rightarrow> disk \<Rightarrow> disk exec" where
  "disk_in is_kernel off n bytes d =
     (if \<not> is_kernel \<and> n \<le> 0 then Inr d
      else guardE OutOfRange (0 \<le> n \<and> off + n \<le> RAMDISK_SIZE)
             (Inr (patch d (nat off) (cells bytes 0 (nat n)))))"

definition ram_bounds :: "int \<Rightarrow> int \<Rightarrow> 'a exec \<Rightarrow> 'a exec" where
  "ram_bounds off n k = assertE (0 \<le> off) (assertE (i32 (off + n) < RAMDISK_SIZE) k)"

definition pid_ok :: "int \<Rightarrow> bool" where
  "pid_ok p \<longleftrightarrow> 0 \<le> p \<and> p < POOL_NUM"

text \<open>
  \<open>read_ram\<close> answers with the bytes copied to the requester, \<open>write_ram\<close> stores the bytes
  found at \<open>m->buf\<close> in the requester's memory. \<open>kern p\<close>: process \<open>p\<close> is a kernel process.
\<close>

definition read_ram :: "int \<Rightarrow> (int \<Rightarrow> bool) \<Rightarrow> msg \<Rightarrow> disk \<Rightarrow> (msg \<times> u8 list) exec" where
  "read_ram RAMDISK kern m d =
     ram_bounds (offset m) (len m)
       (assertE (pid_ok (req_pid m))
         (bindE (disk_out (kern (req_pid m)) (offset m) (len m) d)
           (\<lambda>bs. Inr (reply RAMDISK (len m) m, bs))))"

definition write_ram :: "int \<Rightarrow> (int \<Rightarrow> bool) \<Rightarrow> msg \<Rightarrow> (nat \<Rightarrow> u8) \<Rightarrow> disk \<Rightarrow> (msg \<times> disk) exec" where
  "write_ram RAMDISK kern m bytes d =
     ram_bounds (offset m) (len m)
       (assertE (pid_ok (req_pid m))
         (bindE (disk_in (kern (req_pid m)) (offset m) (len m) bytes d)
           (\<lambda>d. Inr (reply RAMDISK (len m) m, d))))"

definition ram_handle :: "int \<Rightarrow> (int \<Rightarrow> bool) \<Rightarrow> msg \<Rightarrow> (nat \<Rightarrow> u8) \<Rightarrow> disk \<Rightarrow> (msg \<times> u8 list \<times> disk) exec" where
  "ram_handle RAMDISK kern m bytes d =
     (if mtype m = DEV_READ then bindE (read_ram RAMDISK kern m d) (\<lambda>(r, bs). Inr (r, bs, d))
      else if mtype m = DEV_WRITE then
        bindE (write_ram RAMDISK kern m bytes d) (\<lambda>(r, d). Inr (r, [], d))
      else Inl AssertFail)"

text \<open>
  What \<open>dev_read("ram", ...)\<close> and \<open>dev_write("ram", ...)\<close> do to the disk, for a caller whose
  \<open>req_pid\<close> is in the pool.
\<close>

definition dev_read_ram :: "bool \<Rightarrow> int \<Rightarrow> int \<Rightarrow> disk \<Rightarrow> u8 list exec" where
  "dev_read_ram is_kernel off n d = ram_bounds off n (disk_out is_kernel off n d)"

definition dev_write_ram :: "bool \<Rightarrow> int \<Rightarrow> u8 list \<Rightarrow> disk \<Rightarrow> disk exec" where
  "dev_write_ram is_kernel off bs d =
     ram_bounds off (int (length bs)) (disk_in is_kernel off (int (length bs)) (\<lambda>k. bs ! k) d)"

lemma read_ram_dev:
  "pid_ok (req_pid m) \<Longrightarrow> read_ram R kern m d =
     bindE (dev_read_ram (kern (req_pid m)) (offset m) (len m) d) (\<lambda>bs. Inr (reply R (len m) m, bs))"
  by (simp add: read_ram_def dev_read_ram_def ram_bounds_def assertE_def)

lemma dev_read_ram_ok:
  "\<lbrakk>0 \<le> off; 0 \<le> n; off + n < RAMDISK_SIZE\<rbrakk> \<Longrightarrow>
     dev_read_ram k off n d = Inr (cells d (nat off) (nat n))"
  by (auto simp: dev_read_ram_def ram_bounds_def disk_out_def RAMDISK_SIZE_def i32_nat_id)

lemma cells_nth [simp]: "cells (\<lambda>k. bs ! k) 0 (length bs) = bs"
  by (rule nth_equalityI) auto

lemma dev_write_ram_ok:
  "\<lbrakk>0 \<le> off; off + int (length bs) < RAMDISK_SIZE\<rbrakk> \<Longrightarrow>
     dev_write_ram k off bs d = Inr (patch d (nat off) bs)"
  by (auto simp: dev_write_ram_def ram_bounds_def disk_in_def RAMDISK_SIZE_def i32_nat_id)

section \<open>Block stores\<close>

text \<open>
  The contract the file system relies on, for tables of fixed-width records in a byte store:
  in-range accesses succeed, a read returns the last write of the same range, and writes
  elsewhere do not matter.
\<close>

locale block_store =
  fixes rdn :: "int \<Rightarrow> int \<Rightarrow> 's \<Rightarrow> u8 list exec"
    and wrn :: "int \<Rightarrow> u8 list \<Rightarrow> 's \<Rightarrow> 's exec"
    and cap :: int
  assumes wr_total: "\<lbrakk>0 \<le> off; off + int (length bs) < cap\<rbrakk> \<Longrightarrow> \<exists>s'. wrn off bs s = Inr s'"
    and rd_same: "\<lbrakk>0 \<le> off; off + int (length bs) < cap; wrn off bs s = Inr s'\<rbrakk> \<Longrightarrow>
      rdn off (int (length bs)) s' = Inr bs"
    and rd_other: "\<lbrakk>0 \<le> off; 0 \<le> off'; 0 \<le> n; off + int (length bs) < cap; off' + n < cap;
      off' + n \<le> off \<or> off + int (length bs) \<le> off'; wrn off bs s = Inr s'\<rbrakk> \<Longrightarrow>
      rdn off' n s' = rdn off' n s"
begin

text \<open>Records of width \<open>w\<close> at \<open>base + i * w\<close>.\<close>

lemma table_write:
  assumes "0 \<le> base" and "0 \<le> i" and "0 < w" and "base + (i + 1) * w < cap" and "int (length bs) = w"
  shows "\<exists>s'. wrn (base + i * w) bs s = Inr s' \<and> rdn (base + i * w) w s' = Inr bs \<and>
    (\<forall>j. 0 \<le> j \<and> j \<noteq> i \<and> base + (j + 1) * w < cap \<longrightarrow>
       rdn (base + j * w) w s' = rdn (base + j * w) w s)"
proof -
  let ?a = "base + i * w"
  have a: "0 \<le> ?a" "?a + w < cap" using assms by (auto simp: algebra_simps)
  obtain s' where s': "wrn ?a bs s = Inr s'" using wr_total [of ?a bs s] a assms(5) by auto
  have "rdn ?a w s' = Inr bs" using rd_same [OF a(1) _ s'] a assms(5) by simp
  moreover have "rdn (base + j * w) w s' = rdn (base + j * w) w s"
    if j: "0 \<le> j" "j \<noteq> i" "base + (j + 1) * w < cap" for j
  proof (rule rd_other [OF a(1) _ _ _ _ _ s'])
    show "0 \<le> base + j * w" using assms(1,3) j by simp
    show "base + j * w + w < cap" using j by (simp add: algebra_simps)
    have "(j + 1) * w \<le> i * w \<or> (i + 1) * w \<le> j * w"
      using j assms(3) by (cases "j < i") (auto intro!: mult_right_mono)
    then show "base + j * w + w \<le> ?a \<or> ?a + int (length bs) \<le> base + j * w"
      using assms(5) by (auto simp: algebra_simps)
  qed (use a assms in auto)
  ultimately show ?thesis using s' by blast
qed

end

interpretation ram_store: block_store "dev_read_ram k" "dev_write_ram k" RAMDISK_SIZE for k
proof (unfold_locales, goal_cases)
  case (1 off bs s)
  then show ?case by (simp add: dev_write_ram_ok)
next
  case (2 off bs s s')
  then have "s' = patch s (nat off) bs" by (simp add: dev_write_ram_ok)
  with 2 show ?case by (simp add: dev_read_ram_ok)
next
  case (3 off off' n bs s s')
  then have "s' = patch s (nat off) bs" by (simp add: dev_write_ram_ok)
  moreover have "nat off' + nat n \<le> nat off \<or> nat off + length bs \<le> nat off'" using 3 by auto
  ultimately show ?case using 3 by (simp add: dev_read_ram_ok cells_patch_other)
qed

section \<open>Properties\<close>

text \<open>
  The RAM disk server: after a write request for a range inside the disk, a read request
  of the same range delivers exactly the written bytes, and a read of any other range that
  does not overlap it delivers what it delivered before; both are answered with \<open>ret = len\<close>.
\<close>

theorem ramdisk_write_read:
  assumes "0 \<le> offset m" and "0 \<le> len m" and "offset m + len m < RAMDISK_SIZE" and "pid_ok (req_pid m)"
    and "0 \<le> offset m'" and "0 \<le> len m'" and "offset m' + len m' < RAMDISK_SIZE" and "pid_ok (req_pid m')"
    and "mtype m = DEV_WRITE" and "mtype m' = DEV_READ"
    and "offset m' + len m' \<le> offset m \<or> offset m + len m \<le> offset m'"
  shows "\<exists>d'. ram_handle R kern m bytes d = Inr (reply R (len m) m, [], d') \<and>
    ram_handle R kern (m\<lparr>mtype := DEV_READ\<rparr>) x d' =
      Inr (reply R (len m) m, cells bytes 0 (nat (len m)), d') \<and>
    (\<exists>bs. ram_handle R kern m' x d = Inr (reply R (len m') m', bs, d) \<and>
          ram_handle R kern m' x d' = Inr (reply R (len m') m', bs, d'))"
proof -
  let ?bs = "cells bytes 0 (nat (len m))"
  define d' where "d' = patch d (nat (offset m)) ?bs"
  have w: "write_ram R kern m bytes d = Inr (reply R (len m) m, d')"
    using assms by (auto simp: write_ram_def ram_bounds_def disk_in_def RAMDISK_SIZE_def i32_nat_id d'_def)
  have r: "read_ram R kern q e = Inr (reply R (len q) q, cells e (nat (offset q)) (nat (len q)))"
    if "0 \<le> offset q" "0 \<le> len q" "offset q + len q < RAMDISK_SIZE" "pid_ok (req_pid q)" for q e
    using that by (simp add: read_ram_dev dev_read_ram_ok)
  have "cells d' (nat (offset m)) (nat (len m)) = ?bs"
    using cells_patch_same [of d "nat (offset m)" ?bs] by (simp add: d'_def)
  moreover have "cells d' (nat (offset m')) (nat (len m')) = cells d (nat (offset m')) (nat (len m'))"
    unfolding d'_def using assms by (intro cells_patch_other) auto
  ultimately show ?thesis using w r [of m'] r [of "m\<lparr>mtype := DEV_READ\<rparr>"] assms
    by (auto simp: ram_handle_def DEV_READ_def DEV_WRITE_def reply_def)
qed

definition ram_req :: "int \<Rightarrow> int \<Rightarrow> int \<Rightarrow> msg" where
  "ram_req t off n = \<lparr>src = 9, dest = 8, mtype = t, i0 = 9, i1 = 0, i2 = 0, i3 = off, i4 = n\<rparr>"

theorem ramdisk_write_read_witness:
  "\<exists>d'. ram_handle 8 (\<lambda>_. True) (ram_req 2 100 3) of_nat (\<lambda>_. 9) = Inr (reply 8 3 (ram_req 2 100 3), [], d') \<and>
    ram_handle 8 (\<lambda>_. True) ((ram_req 2 100 3)\<lparr>mtype := DEV_READ\<rparr>) of_nat d' =
      Inr (reply 8 3 (ram_req 2 100 3), cells of_nat 0 (nat 3), d') \<and>
    (\<exists>bs. ram_handle 8 (\<lambda>_. True) (ram_req 1 103 3) of_nat (\<lambda>_. 9) = Inr (reply 8 3 (ram_req 1 103 3), bs, \<lambda>_. 9) \<and>
          ram_handle 8 (\<lambda>_. True) (ram_req 1 103 3) of_nat d' = Inr (reply 8 3 (ram_req 1 103 3), bs, d'))"
  using ramdisk_write_read [of "ram_req 2 100 3" "ram_req 1 103 3" 8 "\<lambda>_. True" of_nat "\<lambda>_. 9" of_nat]
  by (simp add: ram_req_def RAMDISK_SIZE_def pid_ok_def POOL_NUM_def DEV_READ_def DEV_WRITE_def)

text \<open>
  C40. The bounds asserts of the RAM disk are not enough: for an offset just below \<open>2^31\<close> the sum
  \<open>offset + len\<close> wraps to a negative number, both asserts pass, and the copy runs outside the
  array.
\<close>

theorem ramdisk_bounds_wrap:
  assumes "0 < len m" and "len m < RAMDISK_SIZE" and "offset m = 2 ^ 31 - len m" and "pid_ok (req_pid m)"
  shows "read_ram R kern m d = Inl OutOfRange"
proof -
  have "i32 (2 ^ 31) = - (2 ^ 31)" by (simp add: i32_def)
  with assms show ?thesis
    by (simp add: read_ram_dev dev_read_ram_def ram_bounds_def disk_out_def RAMDISK_SIZE_def)
qed

theorem ramdisk_bounds_wrap_witness: "read_ram 8 (\<lambda>_. True) (ram_req 1 (2 ^ 31 - 256) 256) (\<lambda>_. 0) = Inl OutOfRange"
  by (rule ramdisk_bounds_wrap) (simp_all add: RAMDISK_SIZE_def ram_req_def pid_ok_def POOL_NUM_def)

end
