(* ===== verification/Fs_Backstage.thy ===== *)
theory Fs_Backstage
  imports Ramdisk C_String
begin

text \<open>
  The tables behind the file system server (src/kernel/file_system/fm_backstage.c and
  include/fm.h): inodes and their place on the RAM disk, the two bitmaps, the tables of active
  vnodes and of open files with their free lists. A vnode or an open file is its index in its
  array; a kernel list is the list of its nodes, front first (theory Ring_List has the
  pointers). The server runs as one kernel thread, so its operations do not interleave.
\<close>

section \<open>Layout\<close>

abbreviation BLOCK_SIZE :: int where "BLOCK_SIZE \<equiv> 256"
abbreviation BLOCK_NUM :: nat where "BLOCK_NUM \<equiv> 4096"
abbreviation INODE_NUM :: nat where "INODE_NUM \<equiv> 1024"
abbreviation KERNEL_INODE_NUM :: nat where "KERNEL_INODE_NUM \<equiv> 128"
abbreviation KERNEL_FILE_NUM :: nat where "KERNEL_FILE_NUM \<equiv> 128"

text \<open>\<open>inode_base = INODE_NUM + BLOCK_NUM\<close>, \<open>block_base = inode_base + INODE_NUM * 76\<close>.\<close>

abbreviation inode_base :: int where "inode_base \<equiv> 5120"
abbreviation block_base :: int where "block_base \<equiv> 82944"

definition PLAIN :: int where "PLAIN = 0"
definition DIR :: int where "DIR = 1"

section \<open>State\<close>

record inode =
  isize :: int
  itype :: int
  idev :: int
  ilink :: int
  blk :: "u32 list"

record vnode =
  vindex :: int
  vinode :: inode
  vcount :: int

text \<open>A file name in a \<open>dir_entry\<close> is an array of 32 bytes.\<close>

record dirent =
  filename :: "u8 list"
  dindex :: int

record open_file =
  foffset :: u32
  fcount :: int
  fvnode :: nat

text \<open>The fields of a process that the server works on.\<close>

record fproc =
  fd_table :: "nat option list"
  min_fd :: int
  current_dir :: dirent
  is_kernel :: bool

text \<open>
  \<open>stk\<close> and \<open>stk_names\<close> are what the stack holds where the code declares an inode or a
  \<open>dir_entry\<close> without initialising it: arbitrary values, one after the other.
\<close>

record fs =
  disk :: disk
  inode_bitmap :: "nat \<Rightarrow> u8"
  inode_bit_index :: nat
  block_bitmap :: "nat \<Rightarrow> u8"
  block_bit_index :: nat
  vnode_array :: "nat \<Rightarrow> vnode"
  free_vnodes :: "nat list"
  active_vnodes :: "nat list"
  open_files :: "nat \<Rightarrow> open_file"
  free_files :: "nat list"
  index_block1 :: "u32 list"
  index_block2 :: "u32 list"
  index_block3 :: "u32 list"
  block_buf :: "nat \<Rightarrow> u8 list"
  block_buf_flag :: "bool list"
  root_dir :: dirent
  stdin_vnode :: nat
  stdout_vnode :: nat
  stderr_vnode :: nat
  fprocs :: "int \<Rightarrow> fproc"
  stk :: "nat \<Rightarrow> inode"
  stk_names :: "nat \<Rightarrow> u8 list"

section \<open>The RAM disk\<close>

definition ram_read :: "bool \<Rightarrow> int \<Rightarrow> int \<Rightarrow> fs \<Rightarrow> u8 list exec" where
  "ram_read k off n s = dev_read_ram k off n (disk s)"

definition ram_write :: "bool \<Rightarrow> int \<Rightarrow> u8 list \<Rightarrow> fs \<Rightarrow> fs exec" where
  "ram_write k off bs s = bindE (dev_write_ram k off bs (disk s)) (\<lambda>d. Inr (s\<lparr>disk := d\<rparr>))"

definition read_bitmap_from_disk :: "fs \<Rightarrow> fs exec" where
  "read_bitmap_from_disk s =
     bindE (ram_read True 0 (int INODE_NUM) s)
       (\<lambda>ib. bindE (ram_read True (int INODE_NUM) (int BLOCK_NUM) s)
         (\<lambda>bb. Inr (s\<lparr>inode_bitmap := patch (inode_bitmap s) 0 ib,
                       block_bitmap := patch (block_bitmap s) 0 bb\<rparr>)))"

text \<open>An inode is 76 bytes: four ints and fifteen block addresses, little endian.\<close>

definition inode_bytes :: "inode \<Rightarrow> u8 list" where
  "inode_bytes n = bytes_list (map u32_of [isize n, itype n, idev n, ilink n] @ blk n)"

definition bytes_inode :: "u8 list \<Rightarrow> inode" where
  "bytes_inode bs =
     (let ws = u32_list bs in
      \<lparr>isize = sint (ws ! 0), itype = sint (ws ! 1), idev = sint (ws ! 2), ilink = sint (ws ! 3),
       blk = drop 4 ws\<rparr>)"

definition inode_addr :: "int \<Rightarrow> int" where
  "inode_addr index = i32 (inode_base + index * 76)"

definition read_inode_from_disk :: "int \<Rightarrow> fs \<Rightarrow> inode exec" where
  "read_inode_from_disk index s =
     bindE (ram_read True (inode_addr index) 76 s) (\<lambda>bs. Inr (bytes_inode bs))"

definition write_inode_to_disk :: "int \<Rightarrow> inode \<Rightarrow> fs \<Rightarrow> fs exec" where
  "write_inode_to_disk index n s = ram_write True (inode_addr index) (inode_bytes n) s"

section \<open>Bitmaps\<close>

definition get_free_block :: "fs \<Rightarrow> (u32 \<times> fs) exec" where
  "get_free_block s =
     (case next_idle (\<lambda>i. block_bitmap s i \<noteq> 0) BLOCK_NUM (block_bit_index s) of
        None \<Rightarrow> Inl Loops
      | Some i \<Rightarrow>
          Inr (u32_of (block_base + int i * BLOCK_SIZE),
               s\<lparr>block_bit_index := i, block_bitmap := (block_bitmap s)(i := 1)\<rparr>))"

text \<open>The subtraction is on \<open>uint32_t\<close>: an address below \<open>block_base\<close> gives a huge index.\<close>

definition set_block_idle :: "u32 \<Rightarrow> fs \<Rightarrow> fs exec" where
  "set_block_idle block_addr s =
     (let index = unat ((block_addr - u32_of block_base) div u32_of BLOCK_SIZE) in
      guardE OutOfRange (index < BLOCK_NUM)
        (Inr (s\<lparr>block_bitmap := (block_bitmap s)(index := 0)\<rparr>)))"

definition get_free_disk_inode :: "fs \<Rightarrow> (int \<times> fs) exec" where
  "get_free_disk_inode s =
     (case next_idle (\<lambda>i. inode_bitmap s i \<noteq> 0) INODE_NUM (inode_bit_index s) of
        None \<Rightarrow> Inl Loops
      | Some i \<Rightarrow>
          Inr (int i, s\<lparr>inode_bit_index := i, inode_bitmap := (inode_bitmap s)(i := 1)\<rparr>))"

definition release_disk_inode :: "int \<Rightarrow> fs \<Rightarrow> fs exec" where
  "release_disk_inode index s =
     guardE OutOfRange (0 \<le> index \<and> index < int INODE_NUM)
       (Inr (s\<lparr>inode_bitmap := (inode_bitmap s)(nat index := 0)\<rparr>))"

section \<open>Vnodes and open files\<close>

definition set_vnode :: "nat \<Rightarrow> vnode \<Rightarrow> fs \<Rightarrow> fs" where
  "set_vnode v x s = s\<lparr>vnode_array := (vnode_array s)(v := x)\<rparr>"

definition set_file :: "nat \<Rightarrow> open_file \<Rightarrow> fs \<Rightarrow> fs" where
  "set_file f x s = s\<lparr>open_files := (open_files s)(f := x)\<rparr>"

text \<open>The start-up loops push the nodes at the front of the list, so it ends up reversed.\<close>

definition init_vnode_array :: "fs \<Rightarrow> fs" where
  "init_vnode_array s = s\<lparr>free_vnodes := rev [0..<KERNEL_INODE_NUM], active_vnodes := []\<rparr>"

definition get_free_vnode :: "fs \<Rightarrow> (nat \<times> fs) exec" where
  "get_free_vnode s =
     (case free_vnodes s of
        [] \<Rightarrow> Inl AssertFail
      | v # vs \<Rightarrow>
          Inr (v, set_vnode v ((vnode_array s v)\<lparr>vcount := 1\<rparr>)
                    (s\<lparr>free_vnodes := vs, active_vnodes := active_vnodes s @ [v]\<rparr>)))"

definition release_kernel_vnode :: "nat \<Rightarrow> fs \<Rightarrow> fs exec" where
  "release_kernel_vnode v s =
     (let x = vnode_array s v; s = set_vnode v (x\<lparr>vcount := vcount x - 1\<rparr>) s in
      if vcount x - 1 = 0 then
        bindE (write_inode_to_disk (vindex x) (vinode x) s)
          (\<lambda>s. Inr (s\<lparr>active_vnodes := remove1 v (active_vnodes s), free_vnodes := v # free_vnodes s\<rparr>))
      else Inr s)"

definition search_vnode_by_index :: "int \<Rightarrow> fs \<Rightarrow> nat option" where
  "search_vnode_by_index index s = find (\<lambda>v. vindex (vnode_array s v) = index) (active_vnodes s)"

definition init_file_table :: "fs \<Rightarrow> fs" where
  "init_file_table s = s\<lparr>free_files := rev [0..<KERNEL_FILE_NUM]\<rparr>"

definition get_free_file_entry :: "fs \<Rightarrow> (nat \<times> fs) exec" where
  "get_free_file_entry s =
     (case free_files s of
        [] \<Rightarrow> Inl AssertFail
      | f # fl \<Rightarrow> Inr (f, set_file f ((open_files s f)\<lparr>fcount := 1\<rparr>) (s\<lparr>free_files := fl\<rparr>)))"

definition release_file_entry :: "nat \<Rightarrow> fs \<Rightarrow> fs exec" where
  "release_file_entry f s =
     (let x = open_files s f; s = set_file f (x\<lparr>fcount := fcount x - 1\<rparr>) s in
      if fcount x - 1 = 0 then
        bindE (release_kernel_vnode (fvnode x) s) (\<lambda>s. Inr (s\<lparr>free_files := f # free_files s\<rparr>))
      else Inr s)"


section \<open>The on-disk inode\<close>

definition inode_ok :: "inode \<Rightarrow> bool" where
  "inode_ok n \<longleftrightarrow> i32_range (isize n) \<and> i32_range (itype n) \<and> i32_range (idev n) \<and> i32_range (ilink n) \<and>
     length (blk n) = 15"

lemma sint_u32_of [simp]: "i32_range x \<Longrightarrow> sint (u32_of x) = x"
  using i32_id [of x] by (simp add: i32_def u32_of_def)

lemma length_inode_bytes [simp]: "inode_ok n \<Longrightarrow> length (inode_bytes n) = 76"
  by (simp add: inode_bytes_def inode_ok_def del: bytes_list_append)

lemma bytes_inode_bytes [simp]: "inode_ok n \<Longrightarrow> bytes_inode (inode_bytes n) = n"
  by (simp add: bytes_inode_def inode_bytes_def inode_ok_def del: bytes_list_append)

lemma sint_i32_range [simp]: "i32_range (sint (w :: u32))"
  using sint_greater_eq [of w] sint_less [of w] by (simp add: i32_range_def)

lemma bytes_inode_ok: "length bs = 76 \<Longrightarrow> inode_ok (bytes_inode bs)"
  by (simp add: bytes_inode_def inode_ok_def Let_def)

lemma inode_addr_eq [simp]: "0 \<le> i \<Longrightarrow> i < 1024 \<Longrightarrow> inode_addr i = 5120 + i * 76"
  unfolding inode_addr_def by (rule i32_nat_id) auto

lemma read_inode_eq:
  assumes "0 \<le> i" and "i < 1024"
  shows "read_inode_from_disk i s = Inr (bytes_inode (cells (disk s) (5120 + nat i * 76) 76))"
proof -
  have "nat (5120 + i * 76) = 5120 + nat i * 76" using assms by (simp add: nat_add_distrib nat_mult_distrib)
  with assms show ?thesis
    by (simp add: read_inode_from_disk_def ram_read_def dev_read_ram_ok RAMDISK_SIZE_def)
qed

lemma write_inode_eq:
  assumes "0 \<le> i" and "i < 1024" and "inode_ok n"
  shows "write_inode_to_disk i n s = Inr (s\<lparr>disk := patch (disk s) (5120 + nat i * 76) (inode_bytes n)\<rparr>)"
proof -
  have "nat (5120 + i * 76) = 5120 + nat i * 76" using assms by (simp add: nat_add_distrib nat_mult_distrib)
  with assms show ?thesis
    by (simp add: write_inode_to_disk_def ram_write_def dev_write_ram_ok RAMDISK_SIZE_def)
qed

lemma read_inode_ok:
  assumes "0 \<le> i" and "i < 1024"
  obtains n where "read_inode_from_disk i s = Inr n" and "inode_ok n"
  using read_inode_eq [OF assms, of s] bytes_inode_ok by (metis length_cells)

lemma inode_read_write:
  assumes "0 \<le> i" and "i < 1024" and "inode_ok n" and "write_inode_to_disk i n s = Inr s'"
  shows "read_inode_from_disk i s' = Inr n"
proof -
  have "disk s' = patch (disk s) (5120 + nat i * 76) (inode_bytes n)"
    using assms by (auto simp: write_inode_eq)
  then show ?thesis
    using assms(1-3) cells_patch_same [of "disk s" "5120 + nat i * 76" "inode_bytes n"]
    by (simp add: read_inode_eq)
qed

lemma inode_read_other:
  assumes "0 \<le> i" and "i < 1024" and "inode_ok n" and "write_inode_to_disk i n s = Inr s'"
    and "0 \<le> j" and "j < 1024" and "i \<noteq> j"
  shows "read_inode_from_disk j s' = read_inode_from_disk j s"
proof -
  have d: "disk s' = patch (disk s) (5120 + nat i * 76) (inode_bytes n)"
    using assms by (auto simp: write_inode_eq)
  have "nat i < nat j \<or> nat j < nat i" using assms by auto
  then have "5120 + nat j * 76 + 76 \<le> 5120 + nat i * 76 \<or>
    5120 + nat i * 76 + length (inode_bytes n) \<le> 5120 + nat j * 76"
    using assms(3) by auto
  then show ?thesis using assms(5,6) by (simp add: read_inode_eq d cells_patch_other)
qed

section \<open>Slot allocators\<close>

text \<open>
  The contract of an allocator over a fixed set of slots: it returns an idle slot and marks
  it, loops for ever when there is none, and releasing a slot makes it idle again.
\<close>

locale slot_alloc =
  fixes alloc :: "'s \<Rightarrow> ('i \<times> 's) exec"
    and free :: "'i \<Rightarrow> 's \<Rightarrow> 's exec"
    and used :: "'s \<Rightarrow> 'i \<Rightarrow> bool"
    and slots :: "'i set"
    and inv :: "'s \<Rightarrow> bool"
  assumes finite_slots: "finite slots"
    and alloc_idle: "inv s \<Longrightarrow> \<exists>k \<in> slots. \<not> used s k \<Longrightarrow>
      \<exists>k s'. alloc s = Inr (k, s') \<and> k \<in> slots \<and> \<not> used s k \<and> inv s' \<and>
        (\<forall>j \<in> slots. used s' j \<longleftrightarrow> j = k \<or> used s j)"
    and alloc_full: "inv s \<Longrightarrow> \<forall>k \<in> slots. used s k \<Longrightarrow> alloc s = Inl Loops"
    and free_slot: "inv s \<Longrightarrow> k \<in> slots \<Longrightarrow>
      \<exists>s'. free k s = Inr s' \<and> inv s' \<and> (\<forall>j \<in> slots. used s' j \<longleftrightarrow> j \<noteq> k \<and> used s j)"
begin

lemma alloc_iff: "inv s \<Longrightarrow> (\<exists>k s'. alloc s = Inr (k, s')) \<longleftrightarrow> (\<exists>k \<in> slots. \<not> used s k)"
  using alloc_idle [of s] alloc_full [of s] by fastforce

lemma alloc_SomeD:
  assumes "inv s" and "alloc s = Inr (k, s')"
  shows "k \<in> slots" and "\<not> used s k" and "inv s'" and "\<forall>j \<in> slots. used s' j \<longleftrightarrow> j = k \<or> used s j"
  using assms alloc_idle [of s] alloc_full [of s] by fastforce+

definition idle :: "'s \<Rightarrow> nat" where
  "idle s = card {k \<in> slots. \<not> used s k}"

lemma idle_alloc:
  assumes "inv s" and "alloc s = Inr (k, s')"
  shows "idle s = Suc (idle s')"
proof -
  have "{j \<in> slots. \<not> used s j} = insert k {j \<in> slots. \<not> used s' j}"
    and "k \<notin> {j \<in> slots. \<not> used s' j}"
    using alloc_SomeD [OF assms] by auto
  then show ?thesis by (simp add: idle_def finite_slots)
qed

lemma idle_pos_iff: "0 < idle s \<longleftrightarrow> (\<exists>k \<in> slots. \<not> used s k)"
  using finite_slots by (auto simp: idle_def card_gt_0_iff)

lemma alloc_defined:
  assumes "inv s" and "0 < idle s"
  obtains k s' where "alloc s = Inr (k, s')"
  using assms alloc_iff idle_pos_iff by blast

text \<open>Releasing the slot just taken undoes the allocation.\<close>

lemma free_alloc:
  assumes "inv s" and "alloc s = Inr (k, s')"
  shows "\<exists>s''. free k s' = Inr s'' \<and> (\<forall>j \<in> slots. used s'' j \<longleftrightarrow> used s j)"
  using free_slot [of s' k] alloc_SomeD [OF assms] by fastforce

end

definition block_of :: "nat \<Rightarrow> u32" where
  "block_of i = u32_of (block_base + int i * BLOCK_SIZE)"

definition block_slots :: "u32 set" where
  "block_slots = block_of ` {..<BLOCK_NUM}"

definition block_no :: "u32 \<Rightarrow> nat" where
  "block_no a = unat ((a - u32_of block_base) div u32_of BLOCK_SIZE)"

definition block_used :: "fs \<Rightarrow> u32 \<Rightarrow> bool" where
  "block_used s a \<longleftrightarrow> block_bitmap s (block_no a) \<noteq> 0"

definition inode_used :: "fs \<Rightarrow> int \<Rightarrow> bool" where
  "inode_used s i \<longleftrightarrow> inode_bitmap s (nat i) \<noteq> 0"

definition indices_ok :: "fs \<Rightarrow> bool" where
  "indices_ok s \<longleftrightarrow> block_bit_index s < BLOCK_NUM \<and> inode_bit_index s < INODE_NUM"

lemma unat_block_of: "i < 4096 \<Longrightarrow> unat (block_of i) = 82944 + i * 256"
  unfolding block_of_def by (subst unat_u32_of) (auto simp: nat_add_distrib nat_mult_distrib)

lemma block_no_block_of [simp]:
  assumes "i < 4096"
  shows "block_no (block_of i) = i"
proof -
  have "block_of i - u32_of 82944 = u32_of (int i * 256)"
    by (simp add: block_of_def u32_of_def)
  then have "unat (block_of i - u32_of 82944) = i * 256"
    using assms by (simp add: unat_u32_of nat_mult_distrib)
  moreover have "unat (u32_of 256) = 256" by (simp add: u32_of_def)
  ultimately show ?thesis by (simp add: block_no_def unat_div)
qed

lemma block_of_inj: "i < 4096 \<Longrightarrow> j < 4096 \<Longrightarrow> block_of i = block_of j \<longleftrightarrow> i = j"
  by (metis block_no_block_of)

interpretation blocks: slot_alloc get_free_block set_block_idle block_used block_slots indices_ok
proof (unfold_locales, goal_cases)
  case 1
  show ?case by (simp add: block_slots_def)
next
  case (2 s)
  then obtain i where "i < 4096" "block_bitmap s i = 0" by (auto simp: block_slots_def block_used_def)
  then obtain k where k: "k < 4096" "next_idle (\<lambda>i. block_bitmap s i \<noteq> 0) 4096 (block_bit_index s) = Some k"
      "block_bitmap s k = 0"
    using next_idle_Some [of "block_bit_index s" 4096 i "\<lambda>i. block_bitmap s i \<noteq> 0"] 2
    by (auto simp: indices_ok_def)
  let ?s = "s\<lparr>block_bit_index := k, block_bitmap := (block_bitmap s)(k := 1)\<rparr>"
  have "get_free_block s = Inr (block_of k, ?s)" using k by (simp add: get_free_block_def block_of_def)
  moreover have "\<forall>j \<in> block_slots. block_used ?s j \<longleftrightarrow> j = block_of k \<or> block_used s j"
    using k(1) by (auto simp: block_slots_def block_used_def block_of_inj)
  ultimately show ?case using k 2 by (auto simp: block_slots_def block_used_def indices_ok_def block_of_inj)
next
  case (3 s)
  then have "\<forall>k < 4096. block_bitmap s k \<noteq> 0" by (auto simp: block_slots_def block_used_def)
  with 3 show ?case by (simp add: get_free_block_def next_idle_None indices_ok_def)
next
  case (4 s k)
  then obtain i where "i < 4096" "k = block_of i" by (auto simp: block_slots_def)
  with 4 show ?case
    by (auto simp: set_block_idle_def block_slots_def block_used_def indices_ok_def block_of_inj simp flip: block_no_def)
qed

interpretation inodes: slot_alloc get_free_disk_inode release_disk_inode inode_used "{0..<1024}" indices_ok
proof (unfold_locales, goal_cases)
  case 1
  show ?case by simp
next
  case (2 s)
  then obtain j where "0 \<le> j" "j < 1024" "inode_bitmap s (nat j) = 0" by (auto simp: inode_used_def)
  then obtain i where "i < 1024" "inode_bitmap s i = 0" by (metis nat_less_iff of_nat_numeral)
  then obtain k where k: "k < 1024" "next_idle (\<lambda>i. inode_bitmap s i \<noteq> 0) 1024 (inode_bit_index s) = Some k"
      "inode_bitmap s k = 0"
    using next_idle_Some [of "inode_bit_index s" 1024 i "\<lambda>i. inode_bitmap s i \<noteq> 0"] 2
    by (auto simp: indices_ok_def)
  let ?s = "s\<lparr>inode_bit_index := k, inode_bitmap := (inode_bitmap s)(k := 1)\<rparr>"
  have "get_free_disk_inode s = Inr (int k, ?s)" using k by (simp add: get_free_disk_inode_def)
  moreover have "\<forall>j \<in> {0..<1024}. inode_used ?s j \<longleftrightarrow> j = int k \<or> inode_used s j"
    using k(1) by (auto simp: inode_used_def)
  ultimately show ?case using k 2 by (auto simp: inode_used_def indices_ok_def)
next
  case (3 s)
  have "\<forall>k < 1024. inode_bitmap s k \<noteq> 0"
  proof (intro allI impI)
    fix k :: nat assume "k < 1024"
    then have "int k \<in> {0..<1024}" by simp
    with 3 show "inode_bitmap s k \<noteq> 0" unfolding inode_used_def by fastforce
  qed
  with 3 show ?case by (simp add: get_free_disk_inode_def next_idle_None indices_ok_def)
next
  case (4 s k)
  then show ?case by (auto simp: release_disk_inode_def inode_used_def indices_ok_def)
qed

text \<open>A file system with an empty disk, and an empty file.\<close>

definition no_name :: dirent where "no_name = \<lparr>filename = replicate 32 0, dindex = 0\<rparr>"

definition empty_inode :: inode where
  "empty_inode = \<lparr>isize = 0, itype = PLAIN, idev = 0, ilink = 1, blk = replicate 15 0\<rparr>"

definition fs0 :: fs where
  "fs0 = \<lparr>disk = (\<lambda>_. 0), inode_bitmap = (\<lambda>_. 0), inode_bit_index = 0, block_bitmap = (\<lambda>_. 0), block_bit_index = 0,
     vnode_array = (\<lambda>_. \<lparr>vindex = 0, vinode = empty_inode, vcount = 0\<rparr>), free_vnodes = rev [0..<128],
     active_vnodes = [], open_files = (\<lambda>_. \<lparr>foffset = 0, fcount = 0, fvnode = 0\<rparr>), free_files = rev [0..<128],
     index_block1 = replicate 64 0, index_block2 = replicate 64 0, index_block3 = replicate 64 0,
     block_buf = (\<lambda>_. replicate 256 0), block_buf_flag = replicate 20 False, root_dir = no_name,
     stdin_vnode = 0, stdout_vnode = 0, stderr_vnode = 0,
     fprocs = (\<lambda>_. \<lparr>fd_table = replicate 100 None, min_fd = 3, current_dir = no_name, is_kernel = False\<rparr>),
     stk = (\<lambda>_. empty_inode), stk_names = (\<lambda>_. replicate 32 0)\<rparr>"

section \<open>Properties\<close>

text \<open>
  C29. While some block is idle \<open>get_free_block\<close> returns the address of an idle block and marks
  that block and no other; \<open>set_block_idle\<close> on the address gives the old bitmap back.
\<close>

theorem get_free_block_exact:
  assumes "indices_ok s" and "\<exists>k \<in> block_slots. \<not> block_used s k"
  shows "\<exists>a s' s''. get_free_block s = Inr (a, s') \<and> a \<in> block_slots \<and> \<not> block_used s a \<and> indices_ok s' \<and>
    (\<forall>j \<in> block_slots. block_used s' j \<longleftrightarrow> j = a \<or> block_used s j) \<and>
    set_block_idle a s' = Inr s'' \<and> (\<forall>j \<in> block_slots. block_used s'' j \<longleftrightarrow> block_used s j)"
proof -
  obtain a s' where a: "get_free_block s = Inr (a, s')" using blocks.alloc_iff assms by blast
  show ?thesis using a blocks.alloc_SomeD [OF assms(1) a] blocks.free_alloc [OF assms(1) a] by blast
qed

theorem get_free_block_exact_witness:
  "\<exists>a s' s''. get_free_block fs0 = Inr (a, s') \<and> set_block_idle a s' = Inr s''"
proof -
  have "block_of 0 \<in> block_slots" "\<not> block_used fs0 (block_of 0)" "indices_ok fs0"
    by (auto simp: block_slots_def block_used_def fs0_def indices_ok_def)
  then show ?thesis using get_free_block_exact [of fs0] by blast
qed

text \<open>
  An inode written to its place on the disk is read back unchanged, and every other inode
  reads as before, for all 1024 inode numbers.
\<close>

theorem inode_disk_roundtrip:
  assumes "0 \<le> i" and "i < 1024" and "inode_ok n"
  shows "\<exists>s'. write_inode_to_disk i n s = Inr s' \<and> read_inode_from_disk i s' = Inr n \<and>
    (\<forall>j. 0 \<le> j \<and> j < 1024 \<and> j \<noteq> i \<longrightarrow> read_inode_from_disk j s' = read_inode_from_disk j s)"
proof -
  obtain s' where s': "write_inode_to_disk i n s = Inr s'" using write_inode_eq [OF assms] by blast
  show ?thesis using s' inode_read_write [OF assms s'] inode_read_other [OF assms s'] by blast
qed

theorem inode_disk_roundtrip_witness:
  "\<exists>s'. write_inode_to_disk 1023 empty_inode fs0 = Inr s' \<and> read_inode_from_disk 1023 s' = Inr empty_inode"
  using inode_disk_roundtrip [of 1023 empty_inode fs0]
  by (auto simp: inode_ok_def empty_inode_def i32_range_def PLAIN_def)

end
