(* ===== verification/Fs_Read.thy ===== *)
theory Fs_Read
  imports Fs_Backstage
begin

text \<open>
  \<open>read_data\<close> of src/kernel/file_system/fm_syscall.c: reading a byte range of a file through
  twelve direct blocks and one, two and three levels of index blocks. Each of its loops is a
  function over the loop variables \<open>file_offset\<close>, \<open>len\<close> and the bytes copied so far (so
  \<open>readed_len\<close> is their number). An index block is the list of its 64 words; indexing it, or
  \<open>inode->index\<close>, outside its bounds is \<open>OutOfRange\<close>. File sizes and offsets stay below
  \<open>2 ^ 31 - 256\<close>, so the sums here are exact; the disk holds 1 MB of blocks.
\<close>

section \<open>Constants\<close>

text \<open>
  \<open>level_end0 = BLOCK_SIZE * 12\<close>, \<open>level_end1 = level_end0 + 64 * BLOCK_SIZE\<close>,
  \<open>level_end2 = level_end1 + 64 * 64 * BLOCK_SIZE\<close>, \<open>level_end3 = level_end2 + 64 * 64 * 64 * BLOCK_SIZE\<close>;
  the sizes are what one entry of each kind of index block spans.
\<close>

abbreviation level_end0 :: int where "level_end0 \<equiv> 3072"
abbreviation level_end1 :: int where "level_end1 \<equiv> 19456"
abbreviation level_end2 :: int where "level_end2 \<equiv> 1068032"
abbreviation level_end3 :: int where "level_end3 \<equiv> 68176896"
abbreviation index_zero_size :: int where "index_zero_size \<equiv> 256"
abbreviation index_one_size :: int where "index_one_size \<equiv> 16384"
abbreviation index_two_size :: int where "index_two_size \<equiv> 1048576"

section \<open>The loops\<close>

type_synonym rd = "int \<times> int \<times> u8 list"

definition idx_at :: "u32 list \<Rightarrow> int \<Rightarrow> u32 exec" where
  "idx_at idx i = guardE OutOfRange (0 \<le> i \<and> i < int (length idx)) (Inr (idx ! nat i))"

definition cur_read_len :: "int \<Rightarrow> int \<Rightarrow> int \<Rightarrow> int" where
  "cur_read_len n file_offset sz =
     (let block_rest = BLOCK_SIZE - cmod file_offset BLOCK_SIZE;
          rest_size = sz - file_offset;
          cur_len = (if block_rest < n then block_rest else n)
      in if cur_len < rest_size then cur_len else rest_size)"

definition read_step :: "bool \<Rightarrow> int \<Rightarrow> u32 \<Rightarrow> fs \<Rightarrow> rd \<Rightarrow> rd exec" where
  "read_step k sz a s = (\<lambda>(file_offset, n, out).
     let ramdisk_offset = a + u32_of (cmod file_offset BLOCK_SIZE);
         cur_len = cur_read_len n file_offset sz in
     bindE (ram_read k (sint ramdisk_offset) cur_len s)
       (\<lambda>bs. Inr (file_offset + cur_len, n - cur_len, out @ bs)))"

lemma cur_read_len_pos: "0 < n \<Longrightarrow> fo < sz \<Longrightarrow> 0 < cur_read_len n fo sz"
proof -
  have "cmod fo 256 < 256" by (auto simp: cmod_def sgn_if)
  moreover assume "0 < n" "fo < sz"
  ultimately show ?thesis by (simp add: cur_read_len_def Let_def)
qed

lemma read_step_InrD:
  "read_step k sz a s (fo, n, out) = Inr (fo', n', out') \<Longrightarrow>
     fo' = fo + cur_read_len n fo sz \<and> n' = n - cur_read_len n fo sz"
  by (auto simp: read_step_def Let_def bindE_eq_Inr_iff)

text \<open>The loop over the direct blocks (lines 225-233).\<close>

function read_direct :: "bool \<Rightarrow> inode \<Rightarrow> fs \<Rightarrow> rd \<Rightarrow> rd exec" where
  "read_direct k ino s (fo, n, out) =
     (if fo < min (isize ino) level_end0 \<and> 0 < n then
        bindE (idx_at (blk ino) (cdiv fo BLOCK_SIZE))
          (\<lambda>a. bindE (read_step k (isize ino) a s (fo, n, out)) (read_direct k ino s))
      else Inr (fo, n, out))"
  by pat_completeness auto
termination
  by (relation "measure (\<lambda>(k, ino, s, fo, n, out). nat (isize ino - fo))")
    (auto dest!: read_step_InrD simp: cur_read_len_pos)

text \<open>
  The innermost loop of the three indexed levels (lines 243-252, 269-278 and 305-314): the
  blocks of one index block \<open>idx\<close>, from entry \<open>i\<close> on.
\<close>

function read_indexed :: "bool \<Rightarrow> int \<Rightarrow> int \<Rightarrow> u32 list \<Rightarrow> fs \<Rightarrow> int \<Rightarrow> rd \<Rightarrow> rd exec" where
  "read_indexed k sz end idx s i (fo, n, out) =
     (if fo < min sz end \<and> 0 < n then
        bindE (idx_at idx i)
          (\<lambda>a. bindE (read_step k sz a s (fo, n, out)) (read_indexed k sz end idx s (i + 1)))
      else Inr (fo, n, out))"
  by pat_completeness auto
termination
  by (relation "measure (\<lambda>(k, sz, end, idx, s, i, fo, n, out). nat (sz - fo))")
    (auto dest!: read_step_InrD simp: cur_read_len_pos)

text \<open>\<open>dev_read("ram", current->pid, index_block, addr, BLOCK_SIZE)\<close> into one of the three buffers.\<close>

definition load_index :: "u32 \<Rightarrow> fs \<Rightarrow> u32 list exec" where
  "load_index a s = bindE (ram_read True (sint a) BLOCK_SIZE s) (\<lambda>bs. Inr (u32_list bs))"

definition load1 :: "u32 \<Rightarrow> fs \<Rightarrow> fs exec" where
  "load1 a s = bindE (load_index a s) (\<lambda>ib. Inr (s\<lparr>index_block1 := ib\<rparr>))"

definition load2 :: "u32 \<Rightarrow> fs \<Rightarrow> fs exec" where
  "load2 a s = bindE (load_index a s) (\<lambda>ib. Inr (s\<lparr>index_block2 := ib\<rparr>))"

definition load3 :: "u32 \<Rightarrow> fs \<Rightarrow> fs exec" where
  "load3 a s = bindE (load_index a s) (\<lambda>ib. Inr (s\<lparr>index_block3 := ib\<rparr>))"

text \<open>Lines 238-253.\<close>

definition read_level1 :: "bool \<Rightarrow> inode \<Rightarrow> rd \<times> fs \<Rightarrow> (rd \<times> fs) exec" where
  "read_level1 k ino = (\<lambda>((fo, n, out), s).
     if fo < level_end1 \<and> 0 < n then
       bindE (idx_at (blk ino) 12) (\<lambda>a. bindE (load1 a s) (\<lambda>s.
         bindE (read_indexed k (isize ino) level_end1 (index_block1 s) s
                  (cdiv (fo - level_end0) index_zero_size) (fo, n, out))
           (\<lambda>r. Inr (r, s))))
     else Inr ((fo, n, out), s))"

lemma load_frames [frame_simps]:
  "load2 a s = Inr s' \<Longrightarrow> index_block1 s' = index_block1 s"
  "load3 a s = Inr s' \<Longrightarrow> index_block1 s' = index_block1 s"
  by (auto simp: load2_def load3_def bindE_eq_Inr_iff)

lemma idx_at_InrD: "idx_at idx i = Inr a \<Longrightarrow> 0 \<le> i \<and> i < int (length idx) \<and> a = idx ! nat i"
  by (auto simp: idx_at_def)

text \<open>The outer loop of the double-indirect level (lines 262-280).\<close>

function read_outer2 :: "bool \<Rightarrow> int \<Rightarrow> int \<Rightarrow> rd \<times> fs \<Rightarrow> (rd \<times> fs) exec" where
  "read_outer2 k sz i ((fo, n, out), s) =
     (if fo < min sz level_end2 \<and> 0 < n then
        bindE (idx_at (index_block1 s) i) (\<lambda>a. bindE (load2 a s) (\<lambda>s.
          let temp_end = level_end1 + (i + 1) * index_one_size;
              j = cdiv (fo - (temp_end - index_one_size)) index_zero_size in
          bindE (read_indexed k sz temp_end (index_block2 s) s j (fo, n, out))
            (\<lambda>r. read_outer2 k sz (i + 1) (r, s))))
      else Inr ((fo, n, out), s))"
  by pat_completeness auto
termination
  by (relation "measure (\<lambda>(k, sz, i, r, s). nat (int (length (index_block1 s)) - i))")
    (auto dest!: idx_at_InrD simp: frame_simps)

text \<open>Lines 257-281.\<close>

definition read_level2 :: "bool \<Rightarrow> inode \<Rightarrow> rd \<times> fs \<Rightarrow> (rd \<times> fs) exec" where
  "read_level2 k ino = (\<lambda>((fo, n, out), s).
     if fo < level_end2 \<and> 0 < n then
       bindE (idx_at (blk ino) 13) (\<lambda>a. bindE (load1 a s) (\<lambda>s.
         read_outer2 k (isize ino) (cdiv (fo - level_end1) index_one_size) ((fo, n, out), s)))
     else Inr ((fo, n, out), s))"

text \<open>
  The two outer loops of the triple-indirect level (lines 297-316 and 290-318). The code takes
  the third index block from \<open>index_block1\<close>, not from \<open>index_block2\<close>.
\<close>

function read_middle3 :: "bool \<Rightarrow> int \<Rightarrow> int \<Rightarrow> int \<Rightarrow> rd \<times> fs \<Rightarrow> (rd \<times> fs) exec" where
  "read_middle3 k sz i j ((fo, n, out), s) =
     (if fo < min sz (level_end2 + (i + 1) * index_two_size) \<and> 0 < n then
        bindE (idx_at (index_block1 s) j) (\<lambda>a. bindE (load3 a s) (\<lambda>s.
          let temp_end1 = level_end2 + i * index_two_size + (j + 1) * index_one_size;
              kk = cdiv (fo - (temp_end1 - index_one_size)) index_zero_size in
          bindE (read_indexed k sz temp_end1 (index_block3 s) s kk (fo, n, out))
            (\<lambda>r. read_middle3 k sz i (j + 1) (r, s))))
      else Inr ((fo, n, out), s))"
  by pat_completeness auto
termination
  by (relation "measure (\<lambda>(k, sz, i, j, r, s). nat (int (length (index_block1 s)) - j))")
    (auto dest!: idx_at_InrD simp: frame_simps)

declare read_direct.simps [simp del] read_indexed.simps [simp del] read_outer2.simps [simp del]
  read_middle3.simps [simp del]

lemma read_middle3_frame:
  "read_middle3 k sz i j r = Inr r' \<Longrightarrow> index_block1 (snd r') = index_block1 (snd r)"
proof (induction k sz i j r arbitrary: r' rule: read_middle3.induct)
  case (1 k sz i j fo n out s)
  show ?case
  proof (cases "fo < min sz (level_end2 + (i + 1) * index_two_size) \<and> 0 < n")
    case True
    note step = 1(2) [unfolded read_middle3.simps [of k sz i j fo n out s] if_P [OF True] Let_def]
    from step obtain a where a: "idx_at (index_block1 s) j = Inr a" by (rule bindE_InrE)
    from step [unfolded a bindE_Inr] obtain s1 where s1: "load3 a s = Inr s1" by (rule bindE_InrE)
    from step [unfolded a bindE_Inr s1] have "index_block1 (snd r') = index_block1 s1"
      by (rule bindE_InrE) (use 1(1) [OF True a s1 refl refl] in auto)
    with s1 show ?thesis by (simp add: frame_simps)
  next
    case False
    from 1(2) [unfolded read_middle3.simps [of k sz i j fo n out s] if_not_P [OF False]]
    show ?thesis by auto
  qed
qed

function read_outer3 :: "bool \<Rightarrow> int \<Rightarrow> int \<Rightarrow> rd \<times> fs \<Rightarrow> (rd \<times> fs) exec" where
  "read_outer3 k sz i ((fo, n, out), s) =
     (if fo < min sz level_end3 \<and> 0 < n then
        bindE (idx_at (index_block1 s) i) (\<lambda>a. bindE (load2 a s) (\<lambda>s.
          bindE (read_middle3 k sz i
                   (cdiv (fo - (level_end2 + i * index_two_size)) index_one_size) ((fo, n, out), s))
            (read_outer3 k sz (i + 1))))
      else Inr ((fo, n, out), s))"
  by pat_completeness auto
termination
  by (relation "measure (\<lambda>(k, sz, i, r, s). nat (int (length (index_block1 s)) - i))")
    (auto dest!: idx_at_InrD read_middle3_frame simp: frame_simps)

text \<open>Lines 285-319.\<close>

definition read_level3 :: "bool \<Rightarrow> inode \<Rightarrow> rd \<times> fs \<Rightarrow> (rd \<times> fs) exec" where
  "read_level3 k ino = (\<lambda>((fo, n, out), s).
     if 0 < n then
       bindE (idx_at (blk ino) 14) (\<lambda>a. bindE (load1 a s) (\<lambda>s.
         read_outer3 k (isize ino) (cdiv (fo - level_end2) index_two_size) ((fo, n, out), s)))
     else Inr ((fo, n, out), s))"

text \<open>
  The whole function: the early return at the end of the file stands between the levels, and
  the last one (line 282) tests \<open>>\<close> instead of \<open>\<ge>\<close>.
\<close>

definition read_data :: "bool \<Rightarrow> int \<Rightarrow> inode \<Rightarrow> int \<Rightarrow> fs \<Rightarrow> (u8 list \<times> fs) exec" where
  "read_data k file_offset ino n s =
     bindE (read_direct k ino s (file_offset, n, [])) (\<lambda>(fo, n, out).
       if isize ino \<le> fo then Inr (out, s)
       else bindE (read_level1 k ino ((fo, n, out), s)) (\<lambda>((fo, n, out), s).
         if isize ino \<le> fo then Inr (out, s)
         else bindE (read_level2 k ino ((fo, n, out), s)) (\<lambda>((fo, n, out), s).
           if isize ino < fo then Inr (out, s)
           else bindE (read_level3 k ino ((fo, n, out), s)) (\<lambda>((fo, n, out), s). Inr (out, s)))))"

declare read_outer3.simps [simp del]


section \<open>Where a byte of a file is\<close>

text \<open>
  The reference: the address of the \<open>b\<close>-th block of a file, found by walking the index blocks
  on the disk, for the levels a file on this disk can reach.
\<close>

definition index_on :: "disk \<Rightarrow> u32 \<Rightarrow> u32 list" where
  "index_on d a = u32_list (cells d (unat a) 256)"

definition block_addr :: "disk \<Rightarrow> inode \<Rightarrow> nat \<Rightarrow> u32" where
  "block_addr d ino b =
     (if b < 12 then blk ino ! b
      else if b < 76 then index_on d (blk ino ! 12) ! (b - 12)
      else index_on d (index_on d (blk ino ! 13) ! ((b - 76) div 64)) ! ((b - 76) mod 64))"

definition file_byte :: "disk \<Rightarrow> inode \<Rightarrow> nat \<Rightarrow> u8" where
  "file_byte d ino p = d (unat (block_addr d ino (p div 256)) + p mod 256)"

text \<open>A block inside the disk, one byte short of its end as the driver's assert has it.\<close>

definition addr_ok :: "u32 \<Rightarrow> bool" where
  "addr_ok a \<longleftrightarrow> unat a + 256 < 4194304"

text \<open>All the data blocks and index blocks that bytes below the size need are on the disk.\<close>

definition file_ok :: "disk \<Rightarrow> inode \<Rightarrow> bool" where
  "file_ok d ino \<longleftrightarrow>
     length (blk ino) = 15 \<and> 0 \<le> isize ino \<and> isize ino \<le> level_end2 \<and>
     (\<forall>b. int b * 256 < isize ino \<longrightarrow> addr_ok (block_addr d ino b)) \<and>
     (level_end0 < isize ino \<longrightarrow> addr_ok (blk ino ! 12)) \<and>
     (level_end1 < isize ino \<longrightarrow> addr_ok (blk ino ! 13) \<and>
        (\<forall>i. level_end1 + int i * index_one_size < isize ino \<longrightarrow>
           addr_ok (index_on d (blk ino ! 13) ! i)))"

lemma length_index_on [simp]: "length (index_on d a) = 64"
  by (simp add: index_on_def)

lemma unat_u32_of_small: "c < 256 \<Longrightarrow> unat (u32_of (int c)) = c"
  by (subst unat_u32_of) auto

lemma sint_addr:
  assumes "addr_ok a" and "c < 256"
  shows "sint (a + u32_of (int c)) = int (unat a + c)"
proof -
  have "unat (a + u32_of (int c)) = unat a + c"
    using assms by (subst unat_add32) (auto simp: unat_u32_of_small addr_ok_def)
  then show ?thesis using assms by (subst sint_unat32) (auto simp: addr_ok_def)
qed

lemma sint_addr0 [simp]: "addr_ok a \<Longrightarrow> sint a = int (unat a)"
  by (subst sint_unat32) (auto simp: addr_ok_def)

lemma ram_read_ok:
  "\<lbrakk>0 \<le> off; 0 \<le> n; off + n < 4194304\<rbrakk> \<Longrightarrow> ram_read k off n s = Inr (cells (disk s) (nat off) (nat n))"
  by (simp add: ram_read_def dev_read_ram_ok RAMDISK_SIZE_def)

lemma load_index_ok [simp]:
  assumes "addr_ok a"
  shows "load_index a s = Inr (index_on (disk s) a)"
proof -
  have "int (unat a) + 256 < 4194304" using assms by (simp only: addr_ok_def)
  then have "ram_read True (int (unat a)) 256 s = Inr (cells (disk s) (unat a) 256)"
    by (subst ram_read_ok) auto
  with assms show ?thesis by (simp add: load_index_def index_on_def del: of_nat_unat)
qed

lemma load_ok [simp]:
  "addr_ok a \<Longrightarrow> load1 a s = Inr (s\<lparr>index_block1 := index_on (disk s) a\<rparr>)"
  "addr_ok a \<Longrightarrow> load2 a s = Inr (s\<lparr>index_block2 := index_on (disk s) a\<rparr>)"
  "addr_ok a \<Longrightarrow> load3 a s = Inr (s\<lparr>index_block3 := index_on (disk s) a\<rparr>)"
  by (simp_all add: load1_def load2_def load3_def)

text \<open>One round of a loop: at most to the end of the block, of the request and of the file.\<close>

definition chunk :: "nat \<Rightarrow> nat \<Rightarrow> nat \<Rightarrow> nat" where
  "chunk p n sz = min (min (256 - p mod 256) n) (sz - p)"

lemma cur_read_len_chunk:
  assumes "p < sz"
  shows "cur_read_len (int n) (int p) (int sz) = int (chunk p n sz)"
proof -
  define r where "r = p mod 256"
  have "cmod (int p) 256 = int r" by (simp add: r_def zmod_int)
  moreover have "r < 256" by (simp add: r_def)
  ultimately show ?thesis
    using assms by (simp add: cur_read_len_def chunk_def Let_def min_def of_nat_diff flip: r_def)
      (intro conjI impI; linarith)
qed

lemma chunk_bounds:
  assumes "p < sz" and "0 < n"
  shows "0 < chunk p n sz" and "chunk p n sz \<le> n" and "p + chunk p n sz \<le> sz" and "p mod 256 + chunk p n sz \<le> 256"
proof -
  have "p mod 256 < 256" by simp
  with assms show "0 < chunk p n sz" "chunk p n sz \<le> n" "p + chunk p n sz \<le> sz" "p mod 256 + chunk p n sz \<le> 256"
    by (auto simp: chunk_def)
qed

lemma read_step_eq:
  assumes "addr_ok a" and "p < sz" and "0 < n"
  shows "read_step k (int sz) a s (int p, int n, out) =
    Inr (int (p + chunk p n sz), int (n - chunk p n sz), out @ cells (disk s) (unat a + p mod 256) (chunk p n sz))"
proof -
  let ?c = "chunk p n sz"
  note c = chunk_bounds [OF assms(2,3)]
  have off: "sint (a + u32_of (int p mod 256)) = int (unat a + p mod 256)"
    using sint_addr [OF assms(1), of "p mod 256"] by (simp only: zmod_int of_nat_numeral)
  have "ram_read k (int (unat a + p mod 256)) (int ?c) s = Inr (cells (disk s) (unat a + p mod 256) ?c)"
    using c assms(1) by (subst ram_read_ok) (auto simp: addr_ok_def simp flip: of_nat_add)
  then show ?thesis
    using c by (simp add: read_step_def cur_read_len_chunk [OF assms(2)] off of_nat_diff Let_def del: of_nat_add)
qed

lemma same_block:
  fixes p :: nat
  assumes "p mod 256 + c \<le> 256" and "q < c"
  shows "(p + q) div 256 = p div 256" and "(p + q) mod 256 = p mod 256 + q"
proof -
  have e: "p + q = (p mod 256 + q) + 256 * (p div 256)" by simp
  have l: "p mod 256 + q < 256" using assms by simp
  show "(p + q) div 256 = p div 256" by (subst e, subst div_mult_self2) (use l in auto)
  show "(p + q) mod 256 = p mod 256 + q" by (subst e, subst mod_mult_self2) (use l in auto)
qed

text \<open>The next chunk lies in the next block, unless the request or the file ends here.\<close>

lemma chunk_next:
  assumes "p < sz" and "0 < n" and "n - chunk p n sz \<noteq> 0" and "p + chunk p n sz < sz"
  shows "(p + chunk p n sz) div 256 = Suc (p div 256)"
proof -
  have "chunk p n sz = 256 - p mod 256" using assms by (auto simp: chunk_def min_def split: if_splits)
  moreover have "p = 256 * (p div 256) + p mod 256" and "p mod 256 < 256" by simp_all
  ultimately have "p + chunk p n sz = 256 * (p div 256) + 256" by linarith
  then show ?thesis by simp
qed

text \<open>How far a loop whose level ends at \<open>e\<close> gets, and what it has copied by then.\<close>

definition span :: "nat \<Rightarrow> nat \<Rightarrow> nat \<Rightarrow> nat \<Rightarrow> nat" where
  "span p n sz e = min n (min sz e - p)"

lemma span_step:
  assumes "p < sz" and "p < e" and "0 < n" and "256 dvd e"
  shows "span p n sz e = chunk p n sz + span (p + chunk p n sz) (n - chunk p n sz) sz e"
proof -
  from assms(4) obtain m where m: "e = 256 * m" by (rule dvdE)
  then have "p div 256 < m" using assms(2) by (simp add: div_less_iff_less_mult mult.commute)
  moreover have "p = 256 * (p div 256) + p mod 256" and "p mod 256 < 256" by simp_all
  ultimately have "p + (256 - p mod 256) \<le> e" unfolding m by linarith
  then have "chunk p n sz \<le> e - p" unfolding chunk_def by linarith
  with chunk_bounds [OF assms(1,3)] have c: "chunk p n sz \<le> n" "chunk p n sz \<le> min sz e - p"
    by linarith+
  have "min n m = c + min (n - c) (m - c)" if "c \<le> n" "c \<le> m" for c m :: nat
    using that by linarith
  from this [OF c] show ?thesis by (simp add: span_def)
qed


section \<open>What the loops copy\<close>

lemma map_chunk:
  assumes "p mod 256 + c \<le> 256"
    and "\<And>q. q < c \<Longrightarrow> f (p + q) = d (a + (p + q) mod 256)"
  shows "cells d (a + p mod 256) c = map f [p..<p + c]"
  using assms same_block(2) [OF assms(1)] by (intro nth_equalityI) (auto simp: add.assoc)

text \<open>
  \<open>B\<close> is the number of the file's block that entry 0 of the index block describes, \<open>L\<close> the number of
  entries in use; \<open>f q\<close> is the
  byte at position \<open>q\<close> of the file.
\<close>

lemma read_indexed_spec:
  assumes "L \<le> length idx" and "256 * B \<le> p"
    and "p < min sz (256 * (B + L)) \<Longrightarrow> 0 < n \<Longrightarrow> i = int (p div 256 - B)"
    and ok: "\<And>j. j < L \<Longrightarrow> 256 * (B + j) < sz \<Longrightarrow> addr_ok (idx ! j)"
    and f: "\<And>q. p \<le> q \<Longrightarrow> q < min sz (256 * (B + L)) \<Longrightarrow>
      f q = disk s (unat (idx ! (q div 256 - B)) + q mod 256)"
    and e: "e = int (256 * (B + L))"
  shows "read_indexed k (int sz) e idx s i (int p, int n, out) =
    Inr (int (p + span p n sz (256 * (B + L))), int (n - span p n sz (256 * (B + L))),
         out @ map f [p..<p + span p n sz (256 * (B + L))])"
  using assms(2,3) f
proof (induction n arbitrary: p i out rule: less_induct)
  case (less n)
  let ?e = "256 * (B + L)"
  show ?case
  proof (cases "p < min sz ?e \<and> 0 < n")
    case False
    then have "\<not> (int p < min (int sz) e \<and> 0 < int n)" by (auto simp: e)
    then have "read_indexed k (int sz) e idx s i (int p, int n, out) = Inr (int p, int n, out)"
      by (subst read_indexed.simps) (rule if_not_P)
    moreover have "span p n sz ?e = 0" using False by (auto simp: span_def)
    ultimately show ?thesis by simp
  next
    case True
    define c where "c = chunk p n sz"
    define m where "m = span (p + c) (n - c) sz ?e"
    have m: "span p n sz ?e = c + m" using span_step [of p sz ?e n] True by (simp add: c_def m_def)
    have c: "0 < c" "c \<le> n" "p + c \<le> sz" "p mod 256 + c \<le> 256"
      using chunk_bounds [of p sz n] True by (auto simp: c_def)
    have i: "i = int (p div 256 - B)" using less True by blast
    have "p div 256 < B + L" using True by (auto simp: div_less_iff_less_mult mult.commute)
    moreover have B: "B \<le> p div 256"
      using less(2) by (simp add: less_eq_div_iff_mult_less_eq mult.commute)
    ultimately have j: "p div 256 - B < L" by linarith
    have "256 * (B + (p div 256 - B)) \<le> p" using B by simp
    then have a: "addr_ok (idx ! (p div 256 - B))" using ok [OF j] True by linarith
    have idx: "idx_at idx i = Inr (idx ! (p div 256 - B))" using j i assms(1) by (simp add: idx_at_def)
    have bs: "cells (disk s) (unat (idx ! (p div 256 - B)) + p mod 256) c = map f [p..<p + c]"
    proof (rule map_chunk [OF c(4)])
      fix q assume "q < c"
      moreover have "p + c \<le> ?e"
        using m [unfolded span_def] True by linarith
      ultimately show "f (p + q) = disk s (unat (idx ! (p div 256 - B)) + (p + q) mod 256)"
        using less(4) [of "p + q"] same_block [OF c(4)] c(3) by auto
    qed
    have "read_indexed k (int sz) e idx s (i + 1) (int (p + c), int (n - c), out @ map f [p..<p + c]) =
      Inr (int (p + c + m), int (n - c - m), (out @ map f [p..<p + c]) @ map f [p + c..<p + c + m])"
      unfolding m_def
    proof (rule less.IH)
      show "n - c < n" using c by simp
      show "256 * B \<le> p + c" using less(2) by simp
      show "i + 1 = int ((p + c) div 256 - B)" if "p + c < min sz ?e" "0 < n - c"
        using chunk_next [of p sz n] that True i B by (auto simp: c_def Suc_diff_le)
      show "f q = disk s (unat (idx ! (q div 256 - B)) + q mod 256)" if "p + c \<le> q" "q < min sz ?e" for q
        using less(4) that by simp
    qed
    moreover have "map f [p..<p + c] @ map f [p + c..<p + c + m] = map f [p..<p + (c + m)]"
      by (simp flip: map_append upt_add_eq_append add.assoc)
    moreover have "int p < min (int sz) e \<and> 0 < int n" using True by (auto simp: e)
    ultimately show ?thesis
      unfolding m using read_step_eq [OF a, of p sz n k s out] True
      by (simp add: read_indexed.simps [of k "int sz" e idx s i "int p" "int n" out] idx bs flip: c_def)
  qed
qed

text \<open>The loop over the direct blocks is the same loop, over \<open>inode->index\<close>.\<close>

lemma read_direct_indexed:
  assumes "isize ino = int sz" and "p < min sz 3072 \<Longrightarrow> 0 < n \<Longrightarrow> i = int (p div 256)"
  shows "read_direct k ino s (int p, int n, out) =
    read_indexed k (int sz) level_end0 (blk ino) s i (int p, int n, out)"
  using assms(2)
proof (induction n arbitrary: p i out rule: less_induct)
  case (less n)
  let ?c = "int p < min (int sz) level_end0 \<and> 0 < int n"
  show ?case
  proof (cases ?c)
    case False
    then show ?thesis
      by (subst read_indexed.simps, subst read_direct.simps) (simp only: assms(1) if_False)
  next
    case True
    then have p: "p < sz" "p < 3072" "0 < n" by auto
    then have i: "cdiv (int p) 256 = i" using less(2) by (simp add: zdiv_int)
    have "read_direct k ino s r = read_indexed k (int sz) level_end0 (blk ino) s (i + 1) r"
      if r: "read_step k (int sz) a s (int p, int n, out) = Inr r" for a r
    proof -
      obtain fo m out' where R: "r = (fo, m, out')" by (cases r)
      let ?c = "chunk p n sz"
      have c: "0 < ?c" "?c \<le> n" using chunk_bounds [OF p(1,3)] by auto
      have fm: "fo = int (p + ?c)" "m = int (n - ?c)"
        using read_step_InrD [OF r [unfolded R]] c by (auto simp: cur_read_len_chunk [OF p(1)] of_nat_diff)
      show ?thesis unfolding R fm
      proof (rule less.IH)
        show "n - ?c < n" using c p by simp
        show "i + 1 = int ((p + ?c) div 256)" if "p + ?c < min sz 3072" "0 < n - ?c"
          using chunk_next [OF p(1,3)] that less(2) p by auto
      qed
    qed
    then show ?thesis
      by (subst read_indexed.simps, subst read_direct.simps)
        (auto simp: assms(1) i True intro!: bindE_cong)
  qed
qed


lemma cdiv_int: "cdiv (int a) (numeral m) = int (a div numeral m)"
  by (simp add: zdiv_int)

lemma span_le [simp]: "span p n sz e \<le> n"
  by (simp add: span_def)

lemma span_pos: "p < sz \<Longrightarrow> p < e \<Longrightarrow> 0 < n \<Longrightarrow> 0 < span p n sz e"
  by (simp add: span_def)

lemma span_0 [simp]: "\<not> (p < min sz e \<and> 0 < n) \<Longrightarrow> span p n sz e = 0"
  by (auto simp: span_def)

text \<open>A loop that leaves room in the request and in the file has reached the end of its level.\<close>

lemma span_end: "n - span p n sz e \<noteq> 0 \<Longrightarrow> p + span p n sz e < sz \<Longrightarrow> p \<le> e \<Longrightarrow> p + span p n sz e = e"
  by (simp add: span_def min_def split: if_splits)

lemma span_end_le: "n - span p n sz e \<noteq> 0 \<Longrightarrow> p + span p n sz e < sz \<Longrightarrow> e \<le> p + span p n sz e"
  using span_end [of n p sz e] by (cases "p \<le> e") auto

lemma span_split:
  "p \<le> e \<Longrightarrow> e \<le> E \<Longrightarrow>
     span p n sz E = span p n sz e + span (p + span p n sz e) (n - span p n sz e) sz E"
  unfolding span_def by (cases "n \<le> min sz e - p"; cases "sz \<le> e") simp_all

lemma map_span:
  "map f [p..<p + a] @ map f [p + a..<p + (a + b)] = map f [p..<p + (a + b)]"
  using upt_add_eq_append [of p "p + a" b] by (simp flip: map_append add: add.assoc)

lemma read_outer2_spec:
  assumes ib: "length ib = 64" and b1: "\<And>i. i < 64 \<Longrightarrow> 256 * (76 + 64 * i) < sz \<Longrightarrow> addr_ok (ib ! i)"
    and b2: "\<And>i j. i < 64 \<Longrightarrow> j < 64 \<Longrightarrow> 256 * (76 + 64 * i + j) < sz \<Longrightarrow> addr_ok (index_on d (ib ! i) ! j)"
    and p: "19456 \<le> p" and i: "p < min sz 1068032 \<Longrightarrow> 0 < n \<Longrightarrow> i = int ((p div 256 - 76) div 64)"
    and s: "index_block1 s = ib" "disk s = d"
    and f: "\<And>q. p \<le> q \<Longrightarrow> q < min sz 1068032 \<Longrightarrow>
      f q = d (unat (index_on d (ib ! ((q div 256 - 76) div 64)) ! ((q div 256 - 76) mod 64)) + q mod 256)"
  shows "\<exists>ib2. read_outer2 k (int sz) i ((int p, int n, out), s) =
    Inr ((int (p + span p n sz 1068032), int (n - span p n sz 1068032),
          out @ map f [p..<p + span p n sz 1068032]), s\<lparr>index_block2 := ib2\<rparr>)"
  using p i s f
proof (induction n arbitrary: p i out s rule: less_induct)
  case (less n)
  let ?E = "1068032 :: nat"
  show ?case
  proof (cases "p < min sz ?E \<and> 0 < n")
    case False
    then have "\<not> (int p < min (int sz) level_end2 \<and> 0 < int n)" by auto
    then have "read_outer2 k (int sz) i ((int p, int n, out), s) = Inr ((int p, int n, out), s)"
      by (subst read_outer2.simps) (rule if_not_P)
    then show ?thesis using span_0 [OF False] by (intro exI [of _ "index_block2 s"]) simp
  next
    case True
    define i0 where "i0 = (p div 256 - 76) div 64"
    define B where "B = 76 + 64 * i0"
    define a where "a = span p n sz (256 * (B + 64))"
    define s1 where "s1 = s\<lparr>index_block2 := index_on d (ib ! i0)\<rparr>"
    have i0: "i = int i0" using less(3) True by (simp add: i0_def)
    have P: "76 \<le> p div 256" "p div 256 < 4172" using less(2) True by linarith+
    then have lt: "i0 < 64" unfolding i0_def by linarith
    have Bp: "B \<le> p div 256" "p div 256 < B + 64" using P unfolding B_def i0_def by linarith+
    then have pB: "256 * B \<le> p" "p < 256 * (B + 64)"
      by (simp_all add: div_less_iff_less_mult less_eq_div_iff_mult_less_eq mult.commute)
    have E: "256 * (B + 64) \<le> ?E" using lt by (simp add: B_def)
    have q: "(q div 256 - 76) div 64 = i0 \<and> (q div 256 - 76) mod 64 = q div 256 - B"
      if "p \<le> q" "q < 256 * (B + 64)" for q
    proof -
      have "B \<le> q div 256" "q div 256 < B + 64"
        using that pB by (simp_all add: div_less_iff_less_mult less_eq_div_iff_mult_less_eq mult.commute)
      then have "q div 256 - 76 = 64 * i0 + (q div 256 - B)" "q div 256 - B < 64"
        unfolding B_def by linarith+
      then show ?thesis by (metis div_mult_self4 div_less add_0_right mod_mult_self4 mod_less zero_neq_numeral)
    qed
    have load: "load2 (ib ! i0) s = Inr s1"
      using b1 [OF lt] pB True less(5) by (simp add: s1_def B_def)
    have te: "level_end1 + (i + 1) * index_one_size = int (256 * (B + 64))" by (simp add: i0 B_def)
    have j: "cdiv (int p - (int (256 * (B + 64)) - index_one_size)) index_zero_size = int (p div 256 - B)"
    proof -
      have "int p - (int (256 * (B + 64)) - index_one_size) = int (p - 256 * B)" using pB by simp
      moreover have "(p - 256 * B) div 256 = p div 256 - B" by simp
      ultimately show ?thesis by (simp only: cdiv_int)
    qed
    have inner: "read_indexed k (int sz) (int (256 * (B + 64))) (index_on d (ib ! i0)) s1
        (int (p div 256 - B)) (int p, int n, out) =
      Inr (int (p + a), int (n - a), out @ map f [p..<p + a])"
      unfolding a_def
    proof (rule read_indexed_spec)
      show "addr_ok (index_on d (ib ! i0) ! j)" if "j < 64" "256 * (B + j) < sz" for j
        using b2 [OF lt that(1)] that by (simp add: B_def)
      show "f r = disk s1 (unat (index_on d (ib ! i0) ! (r div 256 - B)) + r mod 256)"
        if "p \<le> r" "r < min sz (256 * (B + 64))" for r
        using less(6) [of r] q [of r] that E less(5) by (simp add: s1_def)
    qed (use pB in auto)
    have a: "0 < a" unfolding a_def by (rule span_pos) (use pB True in auto)
    have "\<exists>ib2. read_outer2 k (int sz) (i + 1) ((int (p + a), int (n - a), out @ map f [p..<p + a]), s1) =
      Inr ((int (p + a + span (p + a) (n - a) sz ?E), int (n - a - span (p + a) (n - a) sz ?E),
        (out @ map f [p..<p + a]) @ map f [p + a..<p + a + span (p + a) (n - a) sz ?E]), s1\<lparr>index_block2 := ib2\<rparr>)"
    proof (rule less.IH)
      show "n - a < n" using a True by simp
      show "i + 1 = int (((p + a) div 256 - 76) div 64)" if "p + a < min sz ?E" "0 < n - a"
      proof -
        have "p + a = 256 * (B + 64)" unfolding a_def by (rule span_end) (use that pB in \<open>auto simp: a_def\<close>)
        then have "(p + a) div 256 - 76 = 64 * Suc i0" by (simp add: B_def)
        then show ?thesis by (simp only: i0) simp
      qed
      show "f q = d (unat (index_on d (ib ! ((q div 256 - 76) div 64)) ! ((q div 256 - 76) mod 64)) + q mod 256)"
        if "p + a \<le> q" "q < min sz ?E" for q using less(6) that by simp
    qed (use less in \<open>auto simp: s1_def\<close>)
    moreover have "span p n sz ?E = a + span (p + a) (n - a) sz ?E"
      unfolding a_def by (rule span_split) (use pB E in auto)
    moreover have "read_outer2 k (int sz) i ((int p, int n, out), s) =
      read_outer2 k (int sz) (i + 1) ((int (p + a), int (n - a), out @ map f [p..<p + a]), s1)"
    proof -
      have "int p < min (int sz) level_end2 \<and> 0 < int n" using True by auto
      moreover have "idx_at (index_block1 s) i = Inr (ib ! i0)" using less(4) ib lt by (simp add: idx_at_def i0)
      moreover have "index_block2 s1 = index_on d (ib ! i0)" by (simp add: s1_def)
      ultimately show ?thesis
        by (subst read_outer2.simps) (simp only: if_True simp_thms bindE_Inr load Let_def te j inner)
    qed
    ultimately show ?thesis by (simp add: s1_def map_span add.assoc)
  qed
qed


section \<open>The whole function\<close>

lemma span_join:
  assumes "e \<le> E"
  shows "span p n sz e + span (p + span p n sz e) (n - span p n sz e) sz E = span p n sz E"
proof (cases "p \<le> e")
  case True
  from span_split [OF this assms] show ?thesis by (rule sym)
next
  case False
  then have "span p n sz e = 0" by (simp add: span_def)
  then show ?thesis by simp
qed

text \<open>When the loop stops at the end of the file, the request has been served.\<close>

lemma span_served:
  assumes "sz \<le> p + span p n sz e \<or> sz \<le> e"
  shows "[p..<p + span p n sz e] = [p..<min sz (p + n)]"
proof (cases "p < sz")
  case True
  with assms have "p + span p n sz e = min sz (p + n)" by (auto simp: span_def min_def)
  then show ?thesis by simp
qed (auto simp: span_def)

lemma div_sub_blocks: "(p - 256 * m) div 256 = p div 256 - m" for p m :: nat
  by simp

lemma file_okD:
  assumes "file_ok d ino" and "isize ino = int sz"
  shows "length (blk ino) = 15" and "sz \<le> 1068032"
    and "\<And>b. 256 * b < sz \<Longrightarrow> addr_ok (block_addr d ino b)"
    and "3072 < sz \<Longrightarrow> addr_ok (blk ino ! 12)"
    and "19456 < sz \<Longrightarrow> addr_ok (blk ino ! 13)"
    and "256 * (76 + 64 * i) < sz \<Longrightarrow> addr_ok (index_on d (blk ino ! 13) ! i)"
proof -
  show "addr_ok (block_addr d ino b)" if "256 * b < sz" for b
    using assms that unfolding file_ok_def by (metis mult.commute of_nat_less_iff of_nat_mult of_nat_numeral)
  show "addr_ok (index_on d (blk ino ! 13) ! i)" if "256 * (76 + 64 * i) < sz"
  proof -
    have "19456 < sz \<or> i = 0 \<and> 19456 < sz" "19456 + int i * 16384 < int sz" using that by auto
    then show ?thesis using assms by (auto simp: file_ok_def)
  qed
qed (use assms in \<open>auto simp: file_ok_def\<close>)

lemma block_addr_simps:
  "b < 12 \<Longrightarrow> block_addr d ino b = blk ino ! b"
  "12 \<le> b \<Longrightarrow> b < 76 \<Longrightarrow> block_addr d ino b = index_on d (blk ino ! 12) ! (b - 12)"
  "76 \<le> b \<Longrightarrow> block_addr d ino b =
     index_on d (index_on d (blk ino ! 13) ! ((b - 76) div 64)) ! ((b - 76) mod 64)"
  by (simp_all add: block_addr_def)

lemma direct_stage:
  assumes ok: "file_ok d ino" and sz: "isize ino = int sz" and "disk s = d"
  shows "read_direct k ino s (int p, int n, out) =
    Inr (int (p + span p n sz 3072), int (n - span p n sz 3072),
         out @ map (file_byte d ino) [p..<p + span p n sz 3072])"
proof -
  have "read_indexed k (int sz) level_end0 (blk ino) s (int (p div 256)) (int p, int n, out) =
    Inr (int (p + span p n sz (256 * (0 + 12))), int (n - span p n sz (256 * (0 + 12))),
         out @ map (file_byte d ino) [p..<p + span p n sz (256 * (0 + 12))])"
  proof (rule read_indexed_spec)
    show "12 \<le> length (blk ino)" using file_okD(1) [OF ok sz] by simp
    show "addr_ok (blk ino ! j)" if "j < 12" "256 * (0 + j) < sz" for j
      using file_okD(3) [OF ok sz, of j] that by (simp add: block_addr_simps)
    show "file_byte d ino q = disk s (unat (blk ino ! (q div 256 - 0)) + q mod 256)"
      if "p \<le> q" "q < min sz (256 * (0 + 12))" for q
      using that assms by (simp add: file_byte_def block_addr_simps div_less_iff_less_mult)
  qed auto
  then show ?thesis using read_direct_indexed [OF sz, of p n "int (p div 256)"] by simp
qed

lemma level1_stage:
  assumes ok: "file_ok d ino" and sz: "isize ino = int sz" and "disk s = d" and "p < sz" and "0 < n \<Longrightarrow> 3072 \<le> p"
  shows "\<exists>ib. read_level1 k ino ((int p, int n, out), s) =
    Inr ((int (p + span p n sz 19456), int (n - span p n sz 19456),
          out @ map (file_byte d ino) [p..<p + span p n sz 19456]), s\<lparr>index_block1 := ib\<rparr>)"
proof (cases "p < 19456 \<and> 0 < n")
  case False
  moreover have "span p n sz 19456 = 0" using False by (auto simp: span_def)
  ultimately show ?thesis by (intro exI [of _ "index_block1 s"]) (auto simp: read_level1_def)
next
  case True
  with assms have p: "3072 \<le> p" "p < 19456" by auto
  let ?ib = "index_on d (blk ino ! 12)"
  have "read_indexed k (int sz) level_end1 ?ib (s\<lparr>index_block1 := ?ib\<rparr>) (int (p div 256 - 12)) (int p, int n, out) =
    Inr (int (p + span p n sz (256 * (12 + 64))), int (n - span p n sz (256 * (12 + 64))),
         out @ map (file_byte d ino) [p..<p + span p n sz (256 * (12 + 64))])"
  proof (rule read_indexed_spec)
    show "addr_ok (?ib ! j)" if "j < 64" "256 * (12 + j) < sz" for j
      using file_okD(3) [OF ok sz that(2)] that by (simp add: block_addr_simps)
    show "file_byte d ino q = disk (s\<lparr>index_block1 := ?ib\<rparr>) (unat (?ib ! (q div 256 - 12)) + q mod 256)"
      if "p \<le> q" "q < min sz (256 * (12 + 64))" for q
    proof -
      have "12 \<le> q div 256" "q div 256 < 76"
        using that p by (simp_all add: div_less_iff_less_mult less_eq_div_iff_mult_less_eq)
      then show ?thesis using assms(3) by (simp add: file_byte_def block_addr_simps)
    qed
  qed (use p in auto)
  moreover have "cdiv (int p - level_end0) index_zero_size = int (p div 256 - 12)"
  proof -
    have "int p - level_end0 = int (p - 3072)" "(p - 3072) div 256 = p div 256 - 12" using p by simp_all
    then show ?thesis by (simp only: cdiv_int)
  qed
  moreover have "addr_ok (blk ino ! 12)" using file_okD(4) [OF ok sz] p assms(4) by simp
  moreover have "idx_at (blk ino) 12 = Inr (blk ino ! 12)" using file_okD(1) [OF ok sz] by (simp add: idx_at_def)
  moreover have "isize ino = int sz" by (rule sz)
  ultimately show ?thesis using True assms(3) by (intro exI [of _ ?ib]) (simp add: read_level1_def)
qed

lemma level2_stage:
  assumes ok: "file_ok d ino" and sz: "isize ino = int sz" and "disk s = d" and "p < sz" and "0 < n \<Longrightarrow> 19456 \<le> p"
  shows "\<exists>ib1 ib2. read_level2 k ino ((int p, int n, out), s) =
    Inr ((int (p + span p n sz 1068032), int (n - span p n sz 1068032),
          out @ map (file_byte d ino) [p..<p + span p n sz 1068032]), s\<lparr>index_block1 := ib1, index_block2 := ib2\<rparr>)"
proof (cases "p < 1068032 \<and> 0 < n")
  case False
  moreover have "span p n sz 1068032 = 0" using False by (auto simp: span_def)
  ultimately show ?thesis
    by (intro exI [of _ "index_block1 s"] exI [of _ "index_block2 s"]) (auto simp: read_level2_def)
next
  case True
  with assms have p: "19456 \<le> p" "p < 1068032" by auto
  let ?ib = "index_on d (blk ino ! 13)"
  have "\<exists>ib2. read_outer2 k (int sz) (int ((p div 256 - 76) div 64)) ((int p, int n, out), s\<lparr>index_block1 := ?ib\<rparr>) =
    Inr ((int (p + span p n sz 1068032), int (n - span p n sz 1068032),
         out @ map (file_byte d ino) [p..<p + span p n sz 1068032]), s\<lparr>index_block1 := ?ib, index_block2 := ib2\<rparr>)"
  proof (rule read_outer2_spec)
    show "addr_ok (?ib ! i)" if "i < 64" "256 * (76 + 64 * i) < sz" for i
      using file_okD(6) [OF ok sz that(2)] .
    show "addr_ok (index_on d (?ib ! i) ! j)" if "i < 64" "j < 64" "256 * (76 + 64 * i + j) < sz" for i j
      using file_okD(3) [OF ok sz that(3)] that by (simp add: block_addr_simps add.assoc)
    show "file_byte d ino q =
        d (unat (index_on d (?ib ! ((q div 256 - 76) div 64)) ! ((q div 256 - 76) mod 64)) + q mod 256)"
      if "p \<le> q" "q < min sz 1068032" for q
    proof -
      have "76 \<le> q div 256" using that p by linarith
      then show ?thesis by (simp add: file_byte_def block_addr_simps)
    qed
  qed (use p assms in auto)
  moreover have "cdiv (int p - level_end1) index_one_size = int ((p div 256 - 76) div 64)"
  proof -
    have "int p - level_end1 = int (p - 19456)" using p by simp
    moreover have "(p - 19456) div 16384 = (p div 256 - 76) div 64"
      using div_mult2_eq [of "p - 19456" 256 64] div_sub_blocks [of p 76] by simp
    ultimately show ?thesis by (simp only: cdiv_int)
  qed
  moreover have "addr_ok (blk ino ! 13)" using file_okD(5) [OF ok sz] p assms(4) by simp
  moreover have "idx_at (blk ino) 13 = Inr (blk ino ! 13)" using file_okD(1) [OF ok sz] by (simp add: idx_at_def)
  moreover have "isize ino = int sz" by (rule sz)
  ultimately show ?thesis using True assms(3) by - (rule exI [of _ ?ib], simp add: read_level2_def)
qed

lemma level3_stage:
  assumes ok: "file_ok d ino" and sz: "isize ino = int sz" and "n = 0 \<or> sz \<le> p" and "0 < n \<Longrightarrow> addr_ok (blk ino ! 14)"
  shows "\<exists>ib. read_level3 k ino ((int p, int n, out), s) = Inr ((int p, int n, out), s\<lparr>index_block1 := ib\<rparr>)"
proof (cases "0 < n")
  case False
  then show ?thesis by (intro exI [of _ "index_block1 s"]) (simp add: read_level3_def)
next
  case True
  with assms have "addr_ok (blk ino ! 14)" "sz \<le> p" by auto
  moreover have "idx_at (blk ino) 14 = Inr (blk ino ! 14)" using file_okD(1) [OF ok sz] by (simp add: idx_at_def)
  ultimately show ?thesis using True sz
    by (intro exI [of _ "index_on (disk s) (blk ino ! 14)"]) (simp add: read_level3_def read_outer3.simps)
qed

lemma map_join: "p \<le> a \<Longrightarrow> a \<le> b \<Longrightarrow> map f [p..<a] @ map f [a..<b] = map f [p..<b]"
  by (metis map_append upt_add_eq_append le_add_diff_inverse)

text \<open>The request ends in the direct blocks, or goes on.\<close>

lemma read_data_direct:
  assumes ok: "file_ok (disk s) ino" and sz: "isize ino = int sz" and le: "sz \<le> p + span p n sz 3072"
  shows "read_data k (int p) ino (int n) s = Inr (map (file_byte (disk s) ino) [p..<min sz (p + n)], s)"
proof -
  have "[p..<p + span p n sz 3072] = [p..<min sz (p + n)]" using le by (intro span_served) simp
  then show ?thesis using le direct_stage [OF ok sz refl, of k p n "[]"] by (simp add: read_data_def sz)
qed

lemma read_data_step1:
  assumes ok: "file_ok (disk s) ino" and sz: "isize ino = int sz" and lt: "p + span p n sz 3072 < sz"
  defines "p1 \<equiv> p + span p n sz 19456" and "n1 \<equiv> n - span p n sz 19456"
  obtains ib where "read_data k (int p) ino (int n) s =
    (let r = ((int p1, int n1, map (file_byte (disk s) ino) [p..<p1]), s\<lparr>index_block1 := ib\<rparr>) in
     if sz \<le> p1 then Inr (map (file_byte (disk s) ino) [p..<p1], snd r)
     else bindE (read_level2 k ino r) (\<lambda>((fo, n, out), s).
       if isize ino < fo then Inr (out, s)
       else bindE (read_level3 k ino ((fo, n, out), s)) (\<lambda>((fo, n, out), s). Inr (out, s))))"
proof -
  define f where "f = file_byte (disk s) ino"
  define p0 where "p0 = p + span p n sz 3072"
  define n0 where "n0 = n - span p n sz 3072"
  have p1: "p1 = p0 + span p0 n0 sz 19456" "n1 = n0 - span p0 n0 sz 19456"
    using span_join [of 3072 19456 p n sz] by (simp_all add: p1_def n1_def p0_def n0_def)
  have d: "read_direct k ino s (int p, int n, []) = Inr (int p0, int n0, map f [p..<p0])"
    using direct_stage [OF ok sz refl, of k p n "[]"] by (simp add: p0_def n0_def f_def)
  have "3072 \<le> p0" if "0 < n0" using span_end_le [of n p sz 3072] lt that by (auto simp: p0_def n0_def)
  then obtain ib where "read_level1 k ino ((int p0, int n0, map f [p..<p0]), s) =
      Inr ((int p1, int n1, map f [p..<p1]), s\<lparr>index_block1 := ib\<rparr>)"
    using level1_stage [OF ok sz refl, of p0 n0 k "map f [p..<p0]"] lt
    by (auto simp: map_join p1 p0_def [symmetric] simp flip: f_def) (simp add: map_join p0_def)
  with d lt show thesis
    by (intro that [of ib]) (simp add: read_data_def sz p0_def [symmetric] Let_def flip: f_def)
qed

lemma read_data_step2:
  assumes ok: "file_ok (disk s) ino" and sz: "isize ino = int sz" and lt: "p + span p n sz 19456 < sz"
  defines "p2 \<equiv> p + span p n sz 1068032" and "n2 \<equiv> n - span p n sz 1068032"
  obtains ib1 ib2 where "read_data k (int p) ino (int n) s =
    bindE (read_level3 k ino ((int p2, int n2, map (file_byte (disk s) ino) [p..<p2]),
             s\<lparr>index_block1 := ib1, index_block2 := ib2\<rparr>)) (\<lambda>((fo, n, out), s). Inr (out, s))"
proof -
  define f where "f = file_byte (disk s) ino"
  define p1 where "p1 = p + span p n sz 19456"
  define n1 where "n1 = n - span p n sz 19456"
  have p2: "p2 = p1 + span p1 n1 sz 1068032" "n2 = n1 - span p1 n1 sz 1068032"
    using span_join [of 19456 1068032 p n sz] by (simp_all add: p2_def n2_def p1_def n1_def)
  have "span p n sz 3072 \<le> span p n sz 19456" by (auto simp: span_def)
  then have lt0: "p + span p n sz 3072 < sz" using lt by linarith
  obtain ib where run: "read_data k (int p) ino (int n) s =
    bindE (read_level2 k ino ((int p1, int n1, map f [p..<p1]), s\<lparr>index_block1 := ib\<rparr>)) (\<lambda>((fo, n, out), s).
       if isize ino < fo then Inr (out, s)
       else bindE (read_level3 k ino ((fo, n, out), s)) (\<lambda>((fo, n, out), s). Inr (out, s)))"
    unfolding p1_def n1_def f_def
    by (rule read_data_step1 [OF ok sz lt0, unfolded Let_def if_not_P [OF lt [folded not_le]]])
  have "19456 \<le> p1" if "0 < n1" using span_end_le [of n p sz 19456] lt that by (auto simp: p1_def n1_def)
  then obtain ib1 ib2 where "read_level2 k ino ((int p1, int n1, map f [p..<p1]), s\<lparr>index_block1 := ib\<rparr>) =
      Inr ((int p2, int n2, map f [p..<p1] @ map f [p1..<p2]), s\<lparr>index_block1 := ib1, index_block2 := ib2\<rparr>)"
    using level2_stage [of "disk s" ino sz "s\<lparr>index_block1 := ib\<rparr>" p1 n1 k "map f [p..<p1]"] ok sz lt
    by (auto simp: p2 p1_def [symmetric] simp flip: f_def)
  moreover have "map f [p..<p1] @ map f [p1..<p2] = map f [p..<p2]" by (rule map_join) (simp_all add: p1_def p2)
  moreover have "p2 \<le> sz" using lt unfolding p2_def span_def by linarith
  ultimately show thesis by (intro that [of ib2 ib1]) (simp add: run sz flip: f_def)
qed

lemma read_data_spec:
  assumes ok: "file_ok (disk s) ino"
    and stray: "level_end1 < isize ino \<Longrightarrow> isize ino < int (p + n) \<Longrightarrow> addr_ok (blk ino ! 14)"
  shows "\<exists>ib1 ib2. read_data k (int p) ino (int n) s =
    Inr (map (file_byte (disk s) ino) [p..<min (nat (isize ino)) (p + n)],
         s\<lparr>index_block1 := ib1, index_block2 := ib2\<rparr>)"
proof -
  define sz where "sz = nat (isize ino)"
  have sz: "isize ino = int sz" using ok by (simp add: sz_def file_ok_def)
  have L: "sz \<le> 1068032" by (rule file_okD(2) [OF ok sz])
  consider "sz \<le> p + span p n sz 3072" | "p + span p n sz 3072 < sz" "sz \<le> p + span p n sz 19456"
    | "p + span p n sz 19456 < sz" by linarith
  then show ?thesis
  proof cases
    case 1
    then show ?thesis using read_data_direct [OF ok sz 1, of k] sz
      by (intro exI [of _ "index_block1 s"] exI [of _ "index_block2 s"]) simp
  next
    case 2
    have "[p..<p + span p n sz 19456] = [p..<min sz (p + n)]" using 2 by (intro span_served) simp
    moreover obtain ib where "read_data k (int p) ino (int n) s =
        Inr (map (file_byte (disk s) ino) [p..<p + span p n sz 19456], s\<lparr>index_block1 := ib\<rparr>)"
      by (rule read_data_step1 [OF ok sz 2(1), unfolded Let_def if_P [OF 2(2)] snd_conv])
    ultimately show ?thesis using sz
      by (intro exI [of _ ib] exI [of _ "index_block2 s"]) simp
  next
    case 3
    define p2 where "p2 = p + span p n sz 1068032"
    define n2 where "n2 = n - span p n sz 1068032"
    obtain ib1 ib2 where run: "read_data k (int p) ino (int n) s =
        bindE (read_level3 k ino ((int p2, int n2, map (file_byte (disk s) ino) [p..<p2]),
          s\<lparr>index_block1 := ib1, index_block2 := ib2\<rparr>)) (\<lambda>((fo, n, out), s). Inr (out, s))"
      using read_data_step2 [OF ok sz 3, of k] unfolding p2_def n2_def .
    have served: "[p..<p2] = [p..<min sz (p + n)]" unfolding p2_def using L by (intro span_served) simp
    have end2: "n2 = 0 \<or> sz \<le> p2"
      using span_end_le [of n p sz 1068032] L unfolding p2_def n2_def by linarith
    have "addr_ok (blk ino ! 14)" if "0 < n2"
    proof (rule stray)
      have "span p n sz 19456 \<le> span p n sz 1068032" by (auto simp: span_def)
      then have "n - span p n sz 19456 \<noteq> 0" using that by (simp add: n2_def)
      then have "19456 \<le> p + span p n sz 19456" using span_end_le 3 by blast
      with 3 show "level_end1 < isize ino" using sz by simp
      show "isize ino < int (p + n)" using end2 that sz by (auto simp: p2_def n2_def)
    qed
    then obtain ib3 where "read_level3 k ino ((int p2, int n2, map (file_byte (disk s) ino) [p..<p2]),
          s\<lparr>index_block1 := ib1, index_block2 := ib2\<rparr>) =
        Inr ((int p2, int n2, map (file_byte (disk s) ino) [p..<p2]),
          s\<lparr>index_block1 := ib1, index_block2 := ib2\<rparr>\<lparr>index_block1 := ib3\<rparr>)"
      using level3_stage [OF ok sz end2, of k "map (file_byte (disk s) ino) [p..<p2]" "s\<lparr>index_block1 := ib1, index_block2 := ib2\<rparr>"]
      by blast
    then show ?thesis using run served sz
      by (intro exI [of _ ib3] exI [of _ ib2]) simp
  qed
qed

section \<open>Properties\<close>

text \<open>
  C6. \<open>read_data\<close> delivers exactly the bytes of the file in the requested range, cut off at the
  end of the file, through direct, single- and double-indirect blocks; it changes nothing but
  the index buffers. For a file in the double-indirect range a request that goes beyond the
  end also needs a valid \<open>index[14]\<close>.
\<close>

theorem read_data_correct:
  assumes "file_ok (disk s) ino" and "0 \<le> fo" and "0 \<le> n"
    and "level_end1 < isize ino \<and> isize ino < fo + n \<longrightarrow> addr_ok (blk ino ! 14)"
  shows "\<exists>ib1 ib2. read_data k fo ino n s =
    Inr (map (file_byte (disk s) ino) [nat fo..<min (nat (isize ino)) (nat (fo + n))],
         s\<lparr>index_block1 := ib1, index_block2 := ib2\<rparr>)"
  using read_data_spec [OF assms(1), of "nat fo" "nat n" k] assms(2-4) by (simp add: nat_add_distrib)

definition sample_inode :: inode where
  "sample_inode = \<lparr>isize = 300, itype = PLAIN, idev = 0, ilink = 1, blk = map block_of [0..<15]\<rparr>"

lemma sample_file_ok: "file_ok d sample_inode"
proof -
  have "b = 0 \<or> b = 1" if "int b * 256 < 300" for b using that by linarith
  then show ?thesis
    by (auto simp: file_ok_def sample_inode_def block_addr_def addr_ok_def unat_block_of nth_append)
qed

theorem read_data_correct_witness:
  "\<exists>ib1 ib2. read_data False 250 sample_inode 100 fs0 =
    Inr (map (file_byte (disk fs0) sample_inode) [250..<300], fs0\<lparr>index_block1 := ib1, index_block2 := ib2\<rparr>)"
  using read_data_correct [of fs0 sample_inode 250 100 False] sample_file_ok
  by (simp add: sample_inode_def)

text \<open>
  The end-of-file test before the triple-indirect level is off by one: reading up to and
  beyond the end of a file in the double-indirect range looks up the unused \<open>index[14]\<close>, and an
  address there that the RAM disk rejects stops the kernel.
\<close>

theorem read_eof_stray:
  assumes "file_ok (disk s) ino" and "level_end1 < isize ino" and "0 \<le> fo" and "fo < isize ino"
    and "isize ino < fo + n" and "sint (blk ino ! 14) < 0"
  shows "read_data k fo ino n s = Inl AssertFail"
proof -
  define sz where "sz = nat (isize ino)"
  have sz: "isize ino = int sz" using assms(2) by (simp add: sz_def)
  let ?p = "nat fo" and ?n = "nat n"
  have L: "sz \<le> 1068032" by (rule file_okD(2) [OF assms(1) sz])
  have "?p + span ?p ?n sz 19456 < sz" and s2: "span ?p ?n sz 1068032 = sz - ?p"
    using assms(2-5) sz L by (auto simp: span_def)
  then obtain ib1 ib2 where "read_data k (int ?p) ino (int ?n) s =
      bindE (read_level3 k ino ((int (?p + (sz - ?p)), int (?n - (sz - ?p)), map (file_byte (disk s) ino) [?p..<?p + (sz - ?p)]),
        s\<lparr>index_block1 := ib1, index_block2 := ib2\<rparr>)) (\<lambda>((fo, n, out), s). Inr (out, s))"
    using read_data_step2 [OF assms(1) sz, of ?p ?n k] by metis
  moreover have "idx_at (blk ino) 14 = Inr (blk ino ! 14)"
    using file_okD(1) [OF assms(1) sz] by (simp add: idx_at_def)
  moreover have "load1 (blk ino ! 14) t = Inl AssertFail" for t
    using assms(6) by (simp add: load1_def load_index_def ram_read_def dev_read_ram_def ram_bounds_def)
  ultimately show ?thesis using assms(3-5) sz by (simp add: read_level3_def)
qed

text \<open>A file of 20000 bytes whose index blocks and data blocks all are the first block of the disk.\<close>

definition loop_disk :: disk where
  "loop_disk x = (if x mod 4 = 1 then 0x44 else if x mod 4 = 2 then 1 else 0)"

lemma index_loop_disk: "index_on loop_disk (block_of 0) = replicate 64 (block_of 0)"
proof -
  have m: "(82944 + 4 * i + k) mod 4 = k mod 4" for i k :: nat by presburger
  have w: "cells loop_disk (82944 + 4 * i) 4 = [0, 0x44, 1, 0]" for i
    by (simp add: cells_def upt_rec loop_disk_def m [of i 0, simplified] m del: add.assoc)
  have "u32_list (cells loop_disk (82944 + 4 * i) (4 * n)) = replicate n (block_of 0)" for i n
  proof (induction n arbitrary: i)
    case (Suc n)
    have "cells loop_disk (82944 + 4 * i) (4 * Suc n) = [0, 0x44, 1, 0] @ cells loop_disk (82944 + 4 * Suc i) (4 * n)"
      using cells_add [of loop_disk "82944 + 4 * i" 4 "4 * n"] w by (simp add: algebra_simps)
    then show ?case using Suc [of "Suc i"] by (simp add: bytes_u32_def block_of_def u32_of_def)
  qed simp
  from this [of 0 64] show ?thesis by (simp add: index_on_def unat_block_of)
qed

definition big_inode :: inode where
  "big_inode = \<lparr>isize = 20000, itype = PLAIN, idev = 0, ilink = 1, blk = replicate 14 (block_of 0) @ [- 1]\<rparr>"

lemma big_file_ok: "file_ok loop_disk big_inode"
proof -
  have ok: "addr_ok (block_of 0)" by (simp add: addr_ok_def unat_block_of)
  have "block_addr loop_disk big_inode b = block_of 0" if "int b * 256 < 20000" for b
  proof -
    have "b < 79" using that by linarith
    then show ?thesis by (auto simp: block_addr_def big_inode_def nth_append index_loop_disk)
  qed
  then show ?thesis using ok
    by (auto simp: file_ok_def big_inode_def nth_append index_loop_disk)
qed

theorem read_eof_stray_witness:
  "read_data True 0 big_inode 20001 (fs0\<lparr>disk := loop_disk\<rparr>) = Inl AssertFail"
  by (rule read_eof_stray) (use big_file_ok in \<open>simp_all add: big_inode_def nth_append\<close>)

end
