(* ===== verification/Fs_Write.thy ===== *)
theory Fs_Write
  imports Fs_Read
begin

text \<open>
  \<open>write_data\<close> of src/kernel/file_system/fm_syscall.c: appending to a file, with the blocks it
  allocates. The loop variables are \<open>file_offset\<close>, \<open>len\<close>, \<open>writed_len\<close>, the inode and the
  state; \<open>mem k\<close> is the byte at \<open>buf + k\<close> in the requester's memory. In the loops over an
  index block that block is a variable of its own; the caller stores it back.
\<close>

section \<open>The loops\<close>

type_synonym wr = "int \<times> int \<times> int \<times> inode \<times> fs"

definition idx_set :: "u32 list \<Rightarrow> int \<Rightarrow> u32 \<Rightarrow> u32 list exec" where
  "idx_set idx i a = guardE OutOfRange (0 \<le> i \<and> i < int (length idx)) (Inr (idx[nat i := a]))"

definition cur_write_len :: "int \<Rightarrow> int \<Rightarrow> int" where
  "cur_write_len n file_offset =
     (let cur_len = BLOCK_SIZE - cmod file_offset BLOCK_SIZE in if cur_len < n then cur_len else n)"

definition write_step :: "bool \<Rightarrow> (nat \<Rightarrow> u8) \<Rightarrow> u32 \<Rightarrow> wr \<Rightarrow> wr exec" where
  "write_step k mem a = (\<lambda>(file_offset, n, writed_len, ino, s).
     let ramdisk_offset = a + u32_of (cmod file_offset BLOCK_SIZE);
         cur_len = cur_write_len n file_offset in
     bindE (ram_write k (sint ramdisk_offset) (cells mem (nat writed_len) (nat cur_len)) s)
       (\<lambda>s. Inr (file_offset + cur_len, n - cur_len, writed_len + cur_len,
                 ino\<lparr>isize := isize ino + cur_len\<rparr>, s)))"

lemma cur_write_len_pos: "0 < n \<Longrightarrow> 0 < cur_write_len n fo"
proof -
  have "cmod fo 256 < 256" by (auto simp: cmod_def sgn_if)
  moreover assume "0 < n"
  ultimately show ?thesis by (simp add: cur_write_len_def Let_def)
qed

lemma write_step_InrD:
  "write_step k mem a (fo, n, w, ino, s) = Inr (fo', n', w', ino', s') \<Longrightarrow>
     n' = n - cur_write_len n fo \<and> index_block1 s' = index_block1 s \<and> index_block2 s' = index_block2 s"
  by (auto simp: write_step_def ram_write_def Let_def bindE_eq_Inr_iff)

text \<open>Lines 367-380; at the start of a block \<open>direct_entry\<close> allocates it (lines 368-370).\<close>

definition direct_entry :: "int \<Rightarrow> inode \<Rightarrow> fs \<Rightarrow> (inode \<times> fs) exec" where
  "direct_entry fo ino s =
     (if cmod fo BLOCK_SIZE = 0
      then bindE (get_free_block s) (\<lambda>(a, s).
             bindE (idx_set (blk ino) (cdiv fo BLOCK_SIZE) a) (\<lambda>b. Inr (ino\<lparr>blk := b\<rparr>, s)))
      else Inr (ino, s))"

function write_direct :: "bool \<Rightarrow> (nat \<Rightarrow> u8) \<Rightarrow> wr \<Rightarrow> wr exec" where
  "write_direct k mem (fo, n, w, ino, s) =
     (if fo < level_end0 \<and> 0 < n then
        bindE (direct_entry fo ino s)
          (\<lambda>(ino, s). bindE (idx_at (blk ino) (cdiv fo BLOCK_SIZE))
            (\<lambda>a. bindE (write_step k mem a (fo, n, w, ino, s)) (write_direct k mem)))
      else Inr (fo, n, w, ino, s))"
  by pat_completeness auto
termination
  by (relation "measure (\<lambda>(k, mem, fo, n, w, ino, s). nat n)")
    (auto dest!: write_step_InrD simp: cur_write_len_pos)

text \<open>
  The innermost loop of the three indexed levels (lines 393-411, 441-459 and 508-526);
  \<open>flag\<close> says whether the index block has a new entry (lines 394-402).
\<close>

definition data_entry :: "int \<Rightarrow> u32 list \<Rightarrow> int \<Rightarrow> bool \<Rightarrow> fs \<Rightarrow> (u32 \<times> u32 list \<times> bool \<times> fs) exec" where
  "data_entry fo idx i flag s =
     (if cmod fo BLOCK_SIZE = 0
      then bindE (get_free_block s) (\<lambda>(a, s). bindE (idx_set idx i a) (\<lambda>idx. Inr (a, idx, True, s)))
      else bindE (idx_at idx i) (\<lambda>a. Inr (a, idx, flag, s)))"

function write_indexed ::
  "bool \<Rightarrow> (nat \<Rightarrow> u8) \<Rightarrow> int \<Rightarrow> u32 list \<Rightarrow> int \<Rightarrow> bool \<Rightarrow> wr \<Rightarrow> (u32 list \<times> bool \<times> wr) exec" where
  "write_indexed k mem end idx i flag (fo, n, w, ino, s) =
     (if fo < end \<and> 0 < n then
        bindE (data_entry fo idx i flag s)
          (\<lambda>(a, idx, flag, s). bindE (write_step k mem a (fo, n, w, ino, s))
            (write_indexed k mem end idx (i + 1) flag))
      else Inr (idx, flag, fo, n, w, ino, s))"
  by pat_completeness auto
termination
  by (relation "measure (\<lambda>(k, mem, end, idx, i, flag, fo, n, w, ino, s). nat n)")
    (auto dest!: write_step_InrD simp: cur_write_len_pos)

declare write_direct.simps [simp del] write_indexed.simps [simp del]

text \<open>\<open>dev_write("ram", current->pid, index_block, addr, BLOCK_SIZE)\<close>.\<close>

definition store_index :: "u32 \<Rightarrow> u32 list \<Rightarrow> fs \<Rightarrow> fs exec" where
  "store_index a ib s = ram_write True (sint a) (bytes_list ib) s"

text \<open>Lines 382-415; \<open>enter_level1\<close> finds or allocates the index block (lines 383-390).\<close>

definition enter_level1 :: "int \<Rightarrow> inode \<Rightarrow> fs \<Rightarrow> (u32 \<times> inode \<times> fs) exec" where
  "enter_level1 fo ino s =
     (if fo = level_end0
      then bindE (get_free_block s) (\<lambda>(a, s).
             bindE (idx_set (blk ino) 12 a) (\<lambda>b. Inr (a, ino\<lparr>blk := b\<rparr>, s)))
      else bindE (idx_at (blk ino) 12) (\<lambda>a. bindE (load1 a s) (\<lambda>s. Inr (a, ino, s))))"

definition write_level1 :: "bool \<Rightarrow> (nat \<Rightarrow> u8) \<Rightarrow> wr \<Rightarrow> wr exec" where
  "write_level1 k mem = (\<lambda>(fo, n, w, ino, s).
     if fo < level_end1 \<and> 0 < n then
       bindE (enter_level1 fo ino s)
         (\<lambda>(index_offset1, ino, s).
            bindE (write_indexed k mem level_end1 (index_block1 s) (cdiv (fo - level_end0) index_zero_size)
                     False (fo, n, w, ino, s))
              (\<lambda>(idx, flag, fo, n, w, ino, s).
                 let s = s\<lparr>index_block1 := idx\<rparr> in
                 bindE (if flag then store_index index_offset1 idx s else Inr s)
                   (\<lambda>s. Inr (fo, n, w, ino, s))))
     else Inr (fo, n, w, ino, s))"

lemma get_free_block_frame [frame_simps]:
  "get_free_block s = Inr (a, s') \<Longrightarrow> index_block1 s' = index_block1 s"
  "get_free_block s = Inr (a, s') \<Longrightarrow> index_block2 s' = index_block2 s"
  "get_free_block s = Inr (a, s') \<Longrightarrow> disk s' = disk s"
  by (auto simp: get_free_block_def split: option.splits)

lemma store_index_frame [frame_simps]:
  "store_index a ib s = Inr s' \<Longrightarrow> index_block1 s' = index_block1 s"
  "store_index a ib s = Inr s' \<Longrightarrow> index_block2 s' = index_block2 s"
  by (auto simp: store_index_def ram_write_def bindE_eq_Inr_iff)

lemma data_entry_frame:
  "data_entry fo idx i flag s = Inr (a, idx', flag', s') \<Longrightarrow>
     index_block1 s' = index_block1 s \<and> index_block2 s' = index_block2 s"
  by (auto simp: data_entry_def bindE_eq_Inr_iff frame_simps split: if_splits)

lemma write_indexed_frame:
  "write_indexed k mem end idx i flag (fo, n, w, ino, s) = Inr (idx', flag', fo', n', w', ino', s') \<Longrightarrow>
     index_block1 s' = index_block1 s \<and> index_block2 s' = index_block2 s"
proof (induction "nat n" arbitrary: idx i flag fo n w ino s rule: less_induct)
  case less
  show ?case
  proof (cases "fo < end \<and> 0 < n")
    case False
    then show ?thesis using less.prems [unfolded write_indexed.simps [of k mem "end"] if_not_P [OF False]] by simp
  next
    case True
    from less.prems [unfolded write_indexed.simps [of k mem "end" idx] if_P [OF True]]
    obtain a idx1 flag1 s1 where 1: "data_entry fo idx i flag s = Inr (a, idx1, flag1, s1)"
      and "bindE (write_step k mem a (fo, n, w, ino, s1)) (write_indexed k mem end idx1 (i + 1) flag1) =
        Inr (idx', flag', fo', n', w', ino', s')"
      by (auto simp: bindE_eq_Inr_iff)
    then obtain fo2 n2 w2 ino2 s2 where 2: "write_step k mem a (fo, n, w, ino, s1) = Inr (fo2, n2, w2, ino2, s2)"
      and 3: "write_indexed k mem end idx1 (i + 1) flag1 (fo2, n2, w2, ino2, s2) =
        Inr (idx', flag', fo', n', w', ino', s')"
      by (auto simp: bindE_eq_Inr_iff)
    have "nat n2 < nat n" using write_step_InrD [OF 2] cur_write_len_pos True by auto
    from less.hyps [OF this 3] write_step_InrD [OF 2] data_entry_frame [OF 1] show ?thesis by simp
  qed
qed

text \<open>
  Lines 427-464. \<open>enter_index\<close> finds or allocates the index block that entry \<open>i\<close> of \<open>ib\<close>
  points to (lines 431-438).
\<close>

definition enter_index2 :: "int \<Rightarrow> int \<Rightarrow> int \<Rightarrow> bool \<Rightarrow> fs \<Rightarrow> (u32 \<times> bool \<times> fs) exec" where
  "enter_index2 fo pre_end i flag1 s =
     (if fo = pre_end
      then bindE (get_free_block s) (\<lambda>(a, s). bindE (idx_set (index_block1 s) i a)
             (\<lambda>ib. Inr (a, True, s\<lparr>index_block1 := ib\<rparr>)))
      else bindE (idx_at (index_block1 s) i) (\<lambda>a. bindE (load2 a s) (\<lambda>s. Inr (a, flag1, s))))"

lemma enter_index2_frame:
  "enter_index2 fo pre_end i flag1 s = Inr (a, flag1', s') \<Longrightarrow>
     length (index_block1 s') = length (index_block1 s) \<and> 0 \<le> i \<and> i < int (length (index_block1 s))"
  by (auto simp: enter_index2_def idx_set_def bindE_eq_Inr_iff frame_simps dest!: idx_at_InrD split: if_splits)

function write_outer2 :: "bool \<Rightarrow> (nat \<Rightarrow> u8) \<Rightarrow> int \<Rightarrow> bool \<Rightarrow> wr \<Rightarrow> (bool \<times> wr) exec" where
  "write_outer2 k mem i flag1 (fo, n, w, ino, s) =
     (if fo < level_end2 \<and> 0 < n then
        let min_end = level_end1 + (i + 1) * index_one_size; pre_end = min_end - index_one_size in
        bindE (enter_index2 fo pre_end i flag1 s)
          (\<lambda>(index_offset2, flag1, s).
             bindE (write_indexed k mem min_end (index_block2 s) (cdiv (fo - pre_end) BLOCK_SIZE) False
                      (fo, n, w, ino, s))
               (\<lambda>(idx, flag2, fo, n, w, ino, s).
                  bindE (if flag2 then store_index index_offset2 idx (s\<lparr>index_block2 := idx\<rparr>)
                         else Inr (s\<lparr>index_block2 := idx\<rparr>))
                    (\<lambda>s. write_outer2 k mem (i + 1) flag1 (fo, n, w, ino, s))))
      else Inr (flag1, fo, n, w, ino, s))"
  by pat_completeness auto
termination
  by (relation "measure (\<lambda>(k, mem, i, flag1, fo, n, w, ino, s). nat (int (length (index_block1 s)) - i))")
    (auto dest!: enter_index2_frame write_indexed_frame simp: frame_simps split: if_splits)

declare write_outer2.simps [simp del]


text \<open>Lines 416-468.\<close>

definition enter_level2 :: "int \<Rightarrow> inode \<Rightarrow> fs \<Rightarrow> (u32 \<times> inode \<times> fs) exec" where
  "enter_level2 fo ino s =
     (if fo = level_end1
      then bindE (get_free_block s) (\<lambda>(a, s).
             bindE (idx_set (blk ino) 13 a) (\<lambda>b. Inr (a, ino\<lparr>blk := b\<rparr>, s)))
      else bindE (idx_at (blk ino) 13) (\<lambda>a. bindE (load1 a s) (\<lambda>s. Inr (a, ino, s))))"

definition write_level2 :: "bool \<Rightarrow> (nat \<Rightarrow> u8) \<Rightarrow> wr \<Rightarrow> wr exec" where
  "write_level2 k mem = (\<lambda>(fo, n, w, ino, s).
     if fo < level_end2 \<and> 0 < n then
       bindE (enter_level2 fo ino s)
         (\<lambda>(index_offset1, ino, s).
            bindE (write_outer2 k mem (cdiv (fo - level_end1) index_one_size) False (fo, n, w, ino, s))
              (\<lambda>(flag1, fo, n, w, ino, s).
                 bindE (if flag1 then store_index index_offset1 (index_block1 s) s else Inr s)
                   (\<lambda>s. Inr (fo, n, w, ino, s))))
     else Inr (fo, n, w, ino, s))"

text \<open>
  The triple-indirect level, lines 469-540: \<open>write_middle3\<close> is the loop of lines 494-531,
  \<open>write_outer3\<close> that of lines 480-536. An append in the middle of the level looks its index
  block up in \<open>inode->index[13]\<close> (line 475).
\<close>

definition enter_index3 :: "int \<Rightarrow> int \<Rightarrow> int \<Rightarrow> bool \<Rightarrow> fs \<Rightarrow> (u32 \<times> bool \<times> fs) exec" where
  "enter_index3 fo pre_end j flag2 s =
     (if fo = pre_end
      then bindE (get_free_block s) (\<lambda>(a, s). bindE (idx_set (index_block2 s) j a)
             (\<lambda>ib. Inr (a, True, s\<lparr>index_block2 := ib\<rparr>)))
      else bindE (idx_at (index_block2 s) j) (\<lambda>a. bindE (load3 a s) (\<lambda>s. Inr (a, flag2, s))))"

lemma enter_index3_frame:
  "enter_index3 fo pre_end i flag1 s = Inr (a, flag1', s') \<Longrightarrow>
     length (index_block2 s') = length (index_block2 s) \<and> index_block1 s' = index_block1 s \<and>
     0 \<le> i \<and> i < int (length (index_block2 s))"
  by (auto simp: enter_index3_def idx_set_def bindE_eq_Inr_iff load3_def get_free_block_frame dest!: idx_at_InrD
      split: if_splits)

function write_middle3 :: "bool \<Rightarrow> (nat \<Rightarrow> u8) \<Rightarrow> int \<Rightarrow> int \<Rightarrow> bool \<Rightarrow> wr \<Rightarrow> (bool \<times> wr) exec" where
  "write_middle3 k mem i j flag2 (fo, n, w, ino, s) =
     (if fo < level_end2 + (i + 1) * index_two_size \<and> 0 < n then
        let min_end2 = level_end2 + i * index_two_size + (j + 1) * index_one_size;
            pre_end2 = min_end2 - index_one_size in
        bindE (enter_index3 fo pre_end2 j flag2 s)
          (\<lambda>(index_offset3, flag2, s).
             bindE (write_indexed k mem min_end2 (index_block3 s) (cdiv (fo - pre_end2) BLOCK_SIZE) False
                      (fo, n, w, ino, s))
               (\<lambda>(idx, flag3, fo, n, w, ino, s).
                  bindE (if flag3 then store_index index_offset3 idx (s\<lparr>index_block3 := idx\<rparr>)
                         else Inr (s\<lparr>index_block3 := idx\<rparr>))
                    (\<lambda>s. write_middle3 k mem i (j + 1) flag2 (fo, n, w, ino, s))))
      else Inr (flag2, fo, n, w, ino, s))"
  by pat_completeness auto
termination
  by (relation "measure (\<lambda>(k, mem, i, j, flag2, fo, n, w, ino, s). nat (int (length (index_block2 s)) - j))")
    (auto dest!: enter_index3_frame write_indexed_frame simp: frame_simps split: if_splits)

declare write_middle3.simps [simp del]

lemma write_middle3_frame:
  "write_middle3 k mem i j flag2 (fo, n, w, ino, s) = Inr (flag2', fo', n', w', ino', s') \<Longrightarrow>
     index_block1 s' = index_block1 s"
proof (induction "nat (int (length (index_block2 s)) - j)" arbitrary: j flag2 fo n w ino s rule: less_induct)
  case less
  show ?case
  proof (cases "fo < level_end2 + (i + 1) * index_two_size \<and> 0 < n")
    case False
    then show ?thesis using less.prems [unfolded write_middle3.simps [of k mem i j flag2 fo n w ino s] if_not_P [OF False]] by simp
  next
    case True
    note step = less.prems [unfolded write_middle3.simps [of k mem i j flag2 fo n w ino s] if_P [OF True] Let_def]
    from step obtain a f1 s1 where 1: "enter_index3 fo (level_end2 + i * index_two_size + (j + 1) * index_one_size - index_one_size) j flag2 s = Inr (a, f1, s1)"
      by (rule bindE_InrE) auto
    from step [unfolded 1 bindE_Inr prod.case] obtain idx f3 fo2 n2 w2 ino2 s2 where
      2: "write_indexed k mem (level_end2 + i * index_two_size + (j + 1) * index_one_size) (index_block3 s1)
         (cdiv (fo - (level_end2 + i * index_two_size + (j + 1) * index_one_size - index_one_size)) BLOCK_SIZE)
         False (fo, n, w, ino, s1) = Inr (idx, f3, fo2, n2, w2, ino2, s2)"
      by (rule bindE_InrE) auto
    from step [unfolded 1 bindE_Inr prod.case 2] obtain s3 where
      3: "(if f3 then store_index a idx (s2\<lparr>index_block3 := idx\<rparr>) else Inr (s2\<lparr>index_block3 := idx\<rparr>)) = Inr s3"
      and 4: "write_middle3 k mem i (j + 1) f1 (fo2, n2, w2, ino2, s3) = Inr (flag2', fo', n', w', ino', s')"
      by (rule bindE_InrE) auto
    have f: "index_block1 s3 = index_block1 s" "length (index_block2 s3) = length (index_block2 s)"
      using 3 enter_index3_frame [OF 1] write_indexed_frame [OF 2] by (auto simp: frame_simps split: if_splits)
    show ?thesis using less.hyps [OF _ 4] f enter_index3_frame [OF 1] by auto
  qed
qed

function write_outer3 :: "bool \<Rightarrow> (nat \<Rightarrow> u8) \<Rightarrow> int \<Rightarrow> bool \<Rightarrow> wr \<Rightarrow> (bool \<times> wr) exec" where
  "write_outer3 k mem i flag1 (fo, n, w, ino, s) =
     (if fo < level_end3 \<and> 0 < n then
        let min_end1 = level_end2 + (i + 1) * index_two_size; pre_end1 = min_end1 - index_two_size in
        bindE (enter_index2 fo pre_end1 i flag1 s)
          (\<lambda>(index_offset2, flag1, s).
             bindE (write_middle3 k mem i (cdiv (fo - pre_end1) index_one_size) False (fo, n, w, ino, s))
               (\<lambda>(flag2, fo, n, w, ino, s).
                  bindE (if flag2 then store_index index_offset2 (index_block2 s) s else Inr s)
                    (\<lambda>s. write_outer3 k mem (i + 1) flag1 (fo, n, w, ino, s))))
      else Inr (flag1, fo, n, w, ino, s))"
  by pat_completeness auto
termination
  by (relation "measure (\<lambda>(k, mem, i, flag1, fo, n, w, ino, s). nat (int (length (index_block1 s)) - i))")
    (auto dest!: enter_index2_frame write_middle3_frame simp: frame_simps split: if_splits)

declare write_outer3.simps [simp del]

definition enter_level3 :: "int \<Rightarrow> inode \<Rightarrow> fs \<Rightarrow> (u32 \<times> inode \<times> fs) exec" where
  "enter_level3 fo ino s =
     (if fo = level_end2
      then bindE (get_free_block s) (\<lambda>(a, s).
             bindE (idx_set (blk ino) 14 a) (\<lambda>b. Inr (a, ino\<lparr>blk := b\<rparr>, s)))
      else bindE (idx_at (blk ino) 13) (\<lambda>a. bindE (load1 a s) (\<lambda>s. Inr (a, ino, s))))"

definition write_level3 :: "bool \<Rightarrow> (nat \<Rightarrow> u8) \<Rightarrow> wr \<Rightarrow> wr exec" where
  "write_level3 k mem = (\<lambda>(fo, n, w, ino, s).
     if fo < level_end3 \<and> 0 < n then
       bindE (enter_level3 fo ino s)
         (\<lambda>(index_offset1, ino, s).
            bindE (write_outer3 k mem (cdiv (fo - level_end2) index_two_size) False (fo, n, w, ino, s))
              (\<lambda>(flag1, fo, n, w, ino, s).
                 bindE (if flag1 then store_index index_offset1 (index_block1 s) s else Inr s)
                   (\<lambda>s. Inr (fo, n, w, ino, s))))
     else Inr (fo, n, w, ino, s))"

text \<open>The result is \<open>writed_len\<close>; the inode is the caller's, changed in place.\<close>

definition write_data :: "bool \<Rightarrow> (nat \<Rightarrow> u8) \<Rightarrow> int \<Rightarrow> inode \<Rightarrow> int \<Rightarrow> fs \<Rightarrow> (int \<times> inode \<times> fs) exec" where
  "write_data k mem file_offset ino n s =
     bindE (write_direct k mem (file_offset, n, 0, ino, s)) (\<lambda>r.
     bindE (write_level1 k mem r) (\<lambda>r.
     bindE (write_level2 k mem r) (\<lambda>r.
     bindE (write_level3 k mem r) (\<lambda>(fo, n, w, ino, s). Inr (w, ino, s)))))"

end
