(* ===== verification/Fs_Append.thy ===== *)
theory Fs_Append
  imports Fs_Write
begin

text \<open>
  What \<open>write_data\<close> does to a file and to the rest of the disk: the blocks a file owns, the
  steps that extend that set, and the induction over the loops of Fs_Write. The main lemma
  covers files up to the end of the single-indirect level (19456 bytes).
\<close>

section \<open>Owned blocks\<close>

definition bytes_of :: "u32 \<Rightarrow> nat set" where
  "bytes_of a = {unat a..<unat a + 256}"

definition own_ok :: "fs \<Rightarrow> u32 set \<Rightarrow> bool" where
  "own_ok s Q \<longleftrightarrow> indices_ok s \<and> Q \<subseteq> block_slots \<and> (\<forall>a \<in> Q. block_used s a)"

text \<open>
  \<open>grow s Q s' Q'\<close>: from \<open>s\<close> to \<open>s'\<close> the owner of \<open>Q\<close> took idle blocks to own \<open>Q'\<close>, wrote only
  to blocks of \<open>Q'\<close>, and changed nothing but the block bitmap and the index buffers.
\<close>

definition fs_rest :: "fs \<Rightarrow> fs" where
  "fs_rest s = s\<lparr>disk := (\<lambda>_. 0), block_bitmap := (\<lambda>_. 0), block_bit_index := 0,
                  index_block1 := [], index_block2 := [], index_block3 := []\<rparr>"

definition grow :: "fs \<Rightarrow> u32 set \<Rightarrow> fs \<Rightarrow> u32 set \<Rightarrow> bool" where
  "grow s Q s' Q' \<longleftrightarrow>
     own_ok s' Q' \<and> Q \<subseteq> Q' \<and> (\<forall>a \<in> Q' - Q. \<not> block_used s a) \<and>
     (\<forall>a \<in> block_slots. block_used s' a \<longleftrightarrow> block_used s a \<or> a \<in> Q') \<and>
     blocks.idle s' + card Q' = blocks.idle s + card Q \<and>
     (\<forall>x. (\<forall>a \<in> Q'. x \<notin> bytes_of a) \<longrightarrow> disk s' x = disk s x) \<and>
     fs_rest s' = fs_rest s"

lemma own_finite: "own_ok s Q \<Longrightarrow> finite Q"
  unfolding own_ok_def block_slots_def by (meson finite_imageI finite_lessThan finite_subset)

lemma grow_refl: "own_ok s Q \<Longrightarrow> grow s Q s Q"
  by (auto simp: grow_def own_ok_def)

lemma grow_trans:
  assumes 1: "grow s Q s1 Q1" and 2: "grow s1 Q1 s2 Q2"
  shows "grow s Q s2 Q2"
  unfolding grow_def
proof (intro conjI)
  show "\<forall>a \<in> Q2 - Q. \<not> block_used s a"
  proof
    fix a assume a: "a \<in> Q2 - Q"
    show "\<not> block_used s a"
    proof (cases "a \<in> Q1")
      case True
      with 1 a show ?thesis by (auto simp: grow_def)
    next
      case False
      with 2 a have "\<not> block_used s1 a" "a \<in> block_slots" by (auto simp: grow_def own_ok_def)
      with 1 show ?thesis by (auto simp: grow_def)
    qed
  qed
  show "\<forall>a \<in> block_slots. block_used s2 a \<longleftrightarrow> block_used s a \<or> a \<in> Q2"
    using 1 2 by (auto simp: grow_def)
  show "\<forall>x. (\<forall>a \<in> Q2. x \<notin> bytes_of a) \<longrightarrow> disk s2 x = disk s x"
  proof (intro allI impI)
    fix x assume x: "\<forall>a \<in> Q2. x \<notin> bytes_of a"
    then have "\<forall>a \<in> Q1. x \<notin> bytes_of a" using 2 by (auto simp: grow_def)
    with x 1 2 show "disk s2 x = disk s x" by (simp add: grow_def)
  qed
qed (use 1 2 in \<open>auto simp: grow_def\<close>)

lemma grow_own_ok: "grow s Q s' Q' \<Longrightarrow> own_ok s' Q'"
  by (simp add: grow_def)

text \<open>Blocks do not overlap each other, nor the inodes in front of them.\<close>

lemma slots_disjoint:
  assumes "a \<in> block_slots" and "b \<in> block_slots" and "a \<noteq> b"
  shows "bytes_of a \<inter> bytes_of b = {}"
proof -
  obtain i j where ij: "a = block_of i" "b = block_of j" "i < 4096" "j < 4096"
    using assms by (auto simp: block_slots_def)
  with assms(3) have "i \<noteq> j" by blast
  then have "i < j \<or> j < i" by linarith
  with ij show ?thesis by (auto simp: bytes_of_def unat_block_of)
qed

lemma slot_bounds:
  assumes "a \<in> block_slots"
  shows "82944 \<le> unat a" and "unat a + 256 \<le> 1131520" and "addr_ok a"
  using assms by (auto simp: block_slots_def unat_block_of addr_ok_def)

text \<open>What an owner keeps while another one grows.\<close>

lemma grow_other:
  assumes g: "grow s Q s' Q'" and own: "own_ok s M" and M: "M \<inter> Q = {}"
  shows "own_ok s' M" and "M \<inter> Q' = {}" and "a \<in> M \<Longrightarrow> x \<in> bytes_of a \<Longrightarrow> disk s' x = disk s x"
proof -
  show "own_ok s' M" using g own by (auto simp: grow_def own_ok_def)
  show Q': "M \<inter> Q' = {}" using g own M by (auto simp: grow_def own_ok_def)
  show "disk s' x = disk s x" if "a \<in> M" "x \<in> bytes_of a"
  proof -
    have "x \<notin> bytes_of b" if "b \<in> Q'" for b
      using slots_disjoint [of a b] \<open>a \<in> M\<close> \<open>x \<in> bytes_of a\<close> that Q' g own
      by (auto simp: grow_def own_ok_def)
    with g show ?thesis by (simp add: grow_def)
  qed
qed

lemma grow_low:
  assumes "grow s Q s' Q'" and "x < 82944"
  shows "disk s' x = disk s x"
proof -
  have "x \<notin> bytes_of a" if "a \<in> Q'" for a
    using slot_bounds(1) [of a] assms that by (auto simp: grow_def own_ok_def bytes_of_def)
  with assms show ?thesis by (simp add: grow_def)
qed

section \<open>The two kinds of steps\<close>

lemma get_free_block_grow:
  assumes own: "own_ok s Q" and room: "0 < blocks.idle s"
  obtains a s' where "get_free_block s = Inr (a, s')" and "a \<notin> Q" and "a \<in> block_slots"
    and "grow s Q s' (insert a Q)" and "disk s' = disk s"
    and "index_block1 s' = index_block1 s" and "index_block2 s' = index_block2 s"
proof -
  have ind: "indices_ok s" using own by (simp add: own_ok_def)
  obtain a s' where a: "get_free_block s = Inr (a, s')" using blocks.alloc_defined [OF ind room] .
  note al = blocks.alloc_SomeD [OF ind a] blocks.idle_alloc [OF ind a]
  have new: "a \<notin> Q" using own al(2) by (auto simp: own_ok_def)
  have rest: "fs_rest s' = fs_rest s"
    using a by (auto simp: get_free_block_def fs_rest_def split: option.splits)
  have "card (insert a Q) = Suc (card Q)" using new own_finite [OF own] by simp
  then have "grow s Q s' (insert a Q)"
    using al own rest get_free_block_frame(3) [OF a] by (auto simp: grow_def own_ok_def)
  with a new al(1) that get_free_block_frame [OF a] show ?thesis by blast
qed

lemma ram_write_ok:
  "\<lbrakk>0 \<le> off; off + int (length bs) < 4194304\<rbrakk> \<Longrightarrow>
     ram_write k off bs s = Inr (s\<lparr>disk := patch (disk s) (nat off) bs\<rparr>)"
  by (simp add: ram_write_def dev_write_ram_ok RAMDISK_SIZE_def)

lemma idle_disk [simp]: "blocks.idle (s\<lparr>disk := d\<rparr>) = blocks.idle s"
  by (simp add: blocks.idle_def block_used_def)

lemma patch_grow:
  assumes own: "own_ok s Q" and a: "a \<in> Q" and n: "v + length bs \<le> 256"
  shows "grow s Q (s\<lparr>disk := patch (disk s) (unat a + v) bs\<rparr>) Q"
proof -
  have "patch (disk s) (unat a + v) bs x = disk s x" if "x \<notin> bytes_of a" for x
    using that n by (intro patch_other) (auto simp: bytes_of_def)
  with a own show ?thesis by (auto simp: grow_def own_ok_def indices_ok_def block_used_def fs_rest_def)
qed

section \<open>The data of a block list\<close>

definition nblocks :: "nat \<Rightarrow> nat" where
  "nblocks p = (p + 255) div 256"

definition content :: "disk \<Rightarrow> u32 list \<Rightarrow> nat \<Rightarrow> u8 list" where
  "content d bs p = map (\<lambda>q. d (unat (bs ! (q div 256)) + q mod 256)) [0..<p]"

text \<open>
  \<open>file_rep s X bs p\<close>: the data blocks \<open>bs\<close> of \<open>p\<close> bytes and the index blocks \<open>X\<close> are different
  blocks of one owner.
\<close>

definition file_rep :: "fs \<Rightarrow> u32 set \<Rightarrow> u32 list \<Rightarrow> nat \<Rightarrow> bool" where
  "file_rep s X bs p \<longleftrightarrow>
     own_ok s (X \<union> set bs) \<and> distinct bs \<and> X \<inter> set bs = {} \<and> length bs = nblocks p"

text \<open>\<open>appends\<close>: data from \<open>mem + w\<close> has been appended to go from \<open>p\<close> to \<open>p'\<close> bytes, in data blocks only.\<close>

definition appends :: "(nat \<Rightarrow> u8) \<Rightarrow> nat \<Rightarrow> u32 set \<Rightarrow> fs \<Rightarrow> u32 list \<Rightarrow> nat \<Rightarrow> fs \<Rightarrow> u32 list \<Rightarrow> nat \<Rightarrow> bool" where
  "appends mem w X s bs p s' bs' p' \<longleftrightarrow>
     grow s (X \<union> set bs) s' (X \<union> set bs') \<and> file_rep s' X bs' p' \<and> p \<le> p' \<and>
     take (length bs) bs' = bs \<and>
     content (disk s') bs' p' = content (disk s) bs p @ cells mem w (p' - p) \<and>
     (\<forall>x. (\<forall>a \<in> set bs'. x \<notin> bytes_of a) \<longrightarrow> disk s' x = disk s x) \<and>
     index_block1 s' = index_block1 s \<and> index_block2 s' = index_block2 s"

lemma length_content [simp]: "length (content d bs p) = p"
  by (simp add: content_def)

lemma nblocks_eq: "nblocks p = p div 256 + (if p mod 256 = 0 then 0 else 1)"
proof -
  have e: "p + 255 = (p mod 256 + 255) + 256 * (p div 256)" by simp
  have "nblocks p = p div 256 + (p mod 256 + 255) div 256"
    unfolding nblocks_def by (subst e, subst div_mult_self2) auto
  moreover have "(r + 255) div 256 = 1" if "r \<noteq> 0" "r < 256" for r :: nat
    using that by (intro div_nat_eqI) auto
  ultimately show ?thesis by simp
qed

lemma nblocks_less: "q < p \<Longrightarrow> q div 256 < nblocks p"
  using div_le_mono [of "q + 256" "p + 255" 256] by (simp add: nblocks_def)

lemma nblocks_mono: "p \<le> q \<Longrightarrow> nblocks p \<le> nblocks q"
  unfolding nblocks_def by (rule div_le_mono) simp

lemma appends_refl: "file_rep s X bs p \<Longrightarrow> appends mem w X s bs p s bs p"
  by (auto simp: appends_def file_rep_def intro: grow_refl)

lemma appends_trans:
  assumes 1: "appends mem w X s bs p s1 bs1 p1" and 2: "appends mem w1 X s1 bs1 p1 s2 bs2 p2"
    and w: "w1 = w + (p1 - p)"
  shows "appends mem w X s bs p s2 bs2 p2"
proof -
  have le: "p \<le> p1" "p1 \<le> p2" using 1 2 by (auto simp: appends_def)
  then have "cells mem w (p1 - p) @ cells mem w1 (p2 - p1) = cells mem w (p2 - p)"
    using cells_add [of mem w "p1 - p" "p2 - p1"] by (simp add: w)
  moreover have "length bs \<le> length bs1" "take (length bs) bs1 = bs" "take (length bs1) bs2 = bs1"
    using 1 2 by (auto simp: appends_def) (metis length_take min.cobounded1)
  then have "take (length bs) bs2 = bs" by (metis min.absorb1 take_take)
  moreover have "set bs1 \<subseteq> set bs2" using \<open>take (length bs1) bs2 = bs1\<close> by (metis set_take_subset)
  moreover have "disk s2 x = disk s x" if x: "\<forall>a \<in> set bs2. x \<notin> bytes_of a" for x
  proof -
    have "\<forall>a \<in> set bs1. x \<notin> bytes_of a" using x \<open>set bs1 \<subseteq> set bs2\<close> by blast
    with 1 2 x show ?thesis unfolding appends_def by metis
  qed
  moreover have "grow s (X \<union> set bs) s2 (X \<union> set bs2)"
    using 1 2 unfolding appends_def by (meson grow_trans)
  ultimately show ?thesis using 1 2 le
    unfolding appends_def by simp
qed

section \<open>One round of a loop\<close>

definition room :: "nat \<Rightarrow> nat \<Rightarrow> nat" where
  "room p n = min (256 - p mod 256) n"

lemma room_bounds:
  assumes "0 < n"
  shows "0 < room p n" and "room p n \<le> n" and "p mod 256 + room p n \<le> 256"
proof -
  have "p mod 256 < 256" by simp
  with assms show "0 < room p n" "room p n \<le> n" "p mod 256 + room p n \<le> 256"
    by (auto simp: room_def)
qed

lemma cur_write_len_room: "cur_write_len (int n) (int p) = int (room p n)"
proof -
  define r where "r = p mod 256"
  have "cmod (int p) 256 = int r" by (simp add: r_def zmod_int)
  moreover have "r < 256" by (simp add: r_def)
  ultimately show ?thesis
    by (simp add: cur_write_len_def room_def Let_def min_def of_nat_diff flip: r_def) linarith
qed

lemma room_same_block:
  assumes "0 < n" and "q < room p n"
  shows "(p + q) div 256 = p div 256" and "(p + q) mod 256 = p mod 256 + q"
  using same_block [OF room_bounds(3) [OF assms(1)] assms(2)] by simp_all

lemma room_next:
  assumes "0 < n" and "n - room p n \<noteq> 0"
  shows "(p + room p n) div 256 = Suc (p div 256)" and "(p + room p n) mod 256 = 0"
proof -
  have r: "room p n = 256 - p mod 256" using assms by (auto simp: room_def min_def split: if_splits)
  have "p = 256 * (p div 256) + p mod 256" "p mod 256 < 256" by simp_all
  then have "p + room p n = 256 * (p div 256) + 256" unfolding r by linarith
  then show "(p + room p n) div 256 = Suc (p div 256)" "(p + room p n) mod 256 = 0" by simp_all
qed

lemma nblocks_room: "0 < n \<Longrightarrow> nblocks (p + room p n) = Suc (p div 256)"
proof -
  assume n: "0 < n"
  have "p = 256 * (p div 256) + p mod 256" by simp
  then have "256 * (p div 256) < p + room p n" "p + room p n \<le> 256 * (p div 256) + 256"
    using room_bounds [OF n, of p] by linarith+
  then show ?thesis unfolding nblocks_def by (intro div_nat_eqI) auto
qed

text \<open>Storing a chunk in a block that is already in the list.\<close>

lemma write_step_eq:
  assumes a: "addr_ok a" and n: "0 < n"
  shows "write_step k mem a (int p, int n, int w, ino, s) =
    Inr (int (p + room p n), int (n - room p n), int (w + room p n),
         ino\<lparr>isize := isize ino + int (room p n)\<rparr>,
         s\<lparr>disk := patch (disk s) (unat a + p mod 256) (cells mem w (room p n))\<rparr>)"
proof -
  note c = room_bounds [OF n, of p]
  have off: "sint (a + u32_of (int p mod 256)) = int (unat a + p mod 256)"
    using sint_addr [OF a, of "p mod 256"] by (simp only: zmod_int of_nat_numeral)
  have "ram_write k (int (unat a + p mod 256)) (cells mem w (room p n)) s =
      Inr (s\<lparr>disk := patch (disk s) (unat a + p mod 256) (cells mem w (room p n))\<rparr>)"
    using c a by (subst ram_write_ok) (auto simp: addr_ok_def simp flip: of_nat_add)
  then show ?thesis
    using c by (simp add: write_step_def cur_write_len_room off of_nat_diff Let_def del: of_nat_add)
qed

lemma content_patch:
  assumes own: "own_ok s (X \<union> set bs)" and d: "distinct bs" and n: "0 < n"
    and lt: "p div 256 < length bs"
  shows "content (patch (disk s) (unat (bs ! (p div 256)) + p mod 256) (cells mem w (room p n))) bs (p + room p n) =
    content (disk s) bs p @ cells mem w (room p n)"
    (is "content ?d bs _ = _")
proof (rule nth_equalityI)
  fix q assume "q < length (content ?d bs (p + room p n))"
  then have q: "q < p + room p n" by simp
  let ?a = "bs ! (p div 256)"
  have slots: "bs ! i \<in> block_slots" if "i < length bs" for i
    using own that by (auto simp: own_ok_def)
  show "content ?d bs (p + room p n) ! q = (content (disk s) bs p @ cells mem w (room p n)) ! q"
  proof (cases "q < p")
    case True
    let ?x = "unat (bs ! (q div 256)) + q mod 256"
    have "?x < unat ?a + p mod 256 \<or> unat ?a + p mod 256 + room p n \<le> ?x"
    proof (cases "q div 256 = p div 256")
      case same: True
      have "q = 256 * (q div 256) + q mod 256" "p = 256 * (p div 256) + p mod 256" by simp_all
      with True same have "q mod 256 < p mod 256" by linarith
      then show ?thesis by (simp add: same)
    next
      case False
      have ql: "q div 256 < length bs" using True lt div_le_mono [of q p 256] by linarith
      have "bs ! (q div 256) \<noteq> ?a" using False d ql lt by (simp add: nth_eq_iff_index_eq)
      then have "bytes_of (bs ! (q div 256)) \<inter> bytes_of ?a = {}"
        using slots ql lt by (intro slots_disjoint) auto
      moreover have "?x \<in> bytes_of (bs ! (q div 256))" by (simp add: bytes_of_def)
      ultimately have "?x \<notin> bytes_of ?a" by blast
      then show ?thesis using room_bounds(3) [OF n, of p] by (auto simp: bytes_of_def)
    qed
    then have "?d ?x = disk s ?x" by (intro patch_other) simp
    with True q show ?thesis by (simp add: content_def nth_append)
  next
    case False
    then obtain j where j: "q = p + j" "j < room p n" using q by (metis add_less_cancel_left le_iff_add not_le)
    then show ?thesis
      by (simp add: content_def nth_append room_same_block [OF n j(2)] patch_def)
  qed
qed simp

text \<open>A round in the middle of a block, and one that starts a block.\<close>

lemma round_inside:
  assumes rep: "file_rep s X bs p" and n: "0 < n" and mid: "p mod 256 \<noteq> 0"
  shows "\<exists>s'. write_step k mem (bs ! (p div 256)) (int p, int n, int w, ino, s) =
    Inr (int (p + room p n), int (n - room p n), int (w + room p n),
         ino\<lparr>isize := isize ino + int (room p n)\<rparr>, s') \<and>
    appends mem w X s bs p s' bs (p + room p n)"
proof -
  let ?a = "bs ! (p div 256)" and ?bytes = "cells mem w (room p n)"
  let ?s = "s\<lparr>disk := patch (disk s) (unat ?a + p mod 256) ?bytes\<rparr>"
  have own: "own_ok s (X \<union> set bs)" using rep by (simp add: file_rep_def)
  have lt: "p div 256 < length bs" using rep mid by (simp add: file_rep_def nblocks_eq)
  then have a: "?a \<in> set bs" by simp
  then have "addr_ok ?a" using own slot_bounds(3) by (auto simp: own_ok_def)
  moreover have "grow s (X \<union> set bs) ?s (X \<union> set bs)"
    using a room_bounds(3) [OF n, of p] by (intro patch_grow [OF own]) auto
  moreover have "length bs = nblocks (p + room p n)"
    using rep mid nblocks_room [OF n, of p] by (simp add: file_rep_def nblocks_eq)
  moreover have "patch (disk s) (unat ?a + p mod 256) ?bytes x = disk s x" if "\<forall>b \<in> set bs. x \<notin> bytes_of b" for x
    using that a room_bounds(3) [OF n, of p] by (intro patch_other) (auto simp: bytes_of_def)
  moreover have "content (disk ?s) bs (p + room p n) = content (disk s) bs p @ ?bytes"
    using content_patch [OF own _ n lt] rep by (simp add: file_rep_def)
  ultimately show ?thesis
    using write_step_eq [of ?a n k mem p w ino s] n rep
    by (intro exI [of _ ?s]) (auto simp: appends_def file_rep_def dest: grow_own_ok)
qed

lemma content_snoc: "length bs = nblocks p \<Longrightarrow> content d (bs @ [a]) p = content d bs p"
  by (auto simp: content_def nth_append dest: nblocks_less)

lemma round_start:
  assumes rep: "file_rep s X bs p" and n: "0 < n" and start: "p mod 256 = 0" and idle: "0 < blocks.idle s"
  shows "\<exists>a s1 s'. get_free_block s = Inr (a, s1) \<and>
    (\<forall>ino. write_step k mem a (int p, int n, int w, ino, s1) =
      Inr (int (p + room p n), int (n - room p n), int (w + room p n),
           ino\<lparr>isize := isize ino + int (room p n)\<rparr>, s')) \<and>
    appends mem w X s bs p s' (bs @ [a]) (p + room p n)"
proof -
  have own: "own_ok s (X \<union> set bs)" using rep by (simp add: file_rep_def)
  obtain a s1 where a: "get_free_block s = Inr (a, s1)" "a \<notin> X \<union> set bs" "a \<in> block_slots"
    and g: "grow s (X \<union> set bs) s1 (insert a (X \<union> set bs))" and d: "disk s1 = disk s"
    and ib: "index_block1 s1 = index_block1 s" "index_block2 s1 = index_block2 s"
    using get_free_block_grow [OF own idle] .
  let ?bytes = "cells mem w (room p n)"
  let ?s = "s1\<lparr>disk := patch (disk s1) (unat a) ?bytes\<rparr>"
  have len: "length bs = p div 256" using rep start by (simp add: file_rep_def nblocks_eq)
  then have nth: "(bs @ [a]) ! (p div 256) = a" by (simp flip: len)
  have own1: "own_ok s1 (X \<union> set (bs @ [a]))" using grow_own_ok [OF g] by simp
  have "grow s1 (X \<union> set (bs @ [a])) ?s (X \<union> set (bs @ [a]))"
    using patch_grow [OF own1, of a 0 ?bytes] room_bounds(3) [OF n, of p] by simp
  then have "grow s (X \<union> set bs) ?s (X \<union> set (bs @ [a]))" using g by (auto intro: grow_trans)
  moreover have "content (disk ?s) (bs @ [a]) (p + room p n) = content (disk s) bs p @ ?bytes"
    using content_patch [OF own1, of n p] a rep n start len nth
    by (auto simp: file_rep_def d content_snoc nblocks_eq)
  moreover have "length (bs @ [a]) = nblocks (p + room p n)" using len nblocks_room [OF n, of p] by simp
  moreover have "patch (disk s1) (unat a) ?bytes x = disk s x" if "\<forall>b \<in> set (bs @ [a]). x \<notin> bytes_of b" for x
    unfolding d using that room_bounds(3) [OF n, of p] by (intro patch_other) (auto simp: bytes_of_def)
  ultimately have "appends mem w X s bs p ?s (bs @ [a]) (p + room p n)"
    using a rep ib unfolding appends_def by (auto simp: file_rep_def dest: grow_own_ok)
  moreover have "write_step k mem a (int p, int n, int w, ino, s1) =
    Inr (int (p + room p n), int (n - room p n), int (w + room p n),
         ino\<lparr>isize := isize ino + int (room p n)\<rparr>, ?s)" for ino
    using write_step_eq [OF slot_bounds(3) [OF a(3)] n, of k mem p w ino s1] start by simp
  ultimately show ?thesis using a(1) by blast
qed

section \<open>The loops\<close>

lemma appends_idle:
  assumes "appends mem w X s bs p s' bs' p'" and "file_rep s X bs p"
  shows "blocks.idle s' + nblocks p' = blocks.idle s + nblocks p"
proof -
  have card: "card (X \<union> set cs) = card X + nblocks q" if r: "file_rep t X cs q" for t cs q
  proof -
    have "finite X" using r own_finite [of t "X \<union> set cs"] by (simp add: file_rep_def)
    with r show ?thesis by (simp add: file_rep_def card_Un_disjoint distinct_card)
  qed
  have "file_rep s' X bs' p'" and g: "blocks.idle s' + card (X \<union> set bs') = blocks.idle s + card (X \<union> set bs)"
    using assms(1) by (auto simp: appends_def grow_def)
  then show ?thesis using card [OF assms(2)] card [of s' bs' p'] by simp
qed

lemma appends_rep: "appends mem w X s bs p s' bs' p' \<Longrightarrow> file_rep s' X bs' p'"
  by (simp add: appends_def)

text \<open>A level ends at a multiple of the block size, so a round stays inside it.\<close>

lemma room_level:
  assumes "p < 256 * E" and "0 < n"
  shows "p + room p n \<le> 256 * E"
    and "min n (256 * E - p) = room p n + min (n - room p n) (256 * E - (p + room p n))"
proof -
  have "p div 256 < E" using assms by (simp add: div_less_iff_less_mult mult.commute)
  moreover have "p = 256 * (p div 256) + p mod 256" "p mod 256 < 256" by simp_all
  ultimately have "p + (256 - p mod 256) \<le> 256 * E" by linarith
  then show le: "p + room p n \<le> 256 * E" by (auto simp: room_def)
  have "min a b = c + min (a - c) (b - c)" if "c \<le> a" "c \<le> b" for a b c :: nat using that by linarith
  moreover have "room p n \<le> n" "room p n \<le> 256 * E - p" using room_bounds [OF assms(2), of p] le by linarith+
  ultimately show "min n (256 * E - p) = room p n + min (n - room p n) (256 * E - (p + room p n))"
    by (simp add: diff_diff_left)
qed

lemma idle_start:
  assumes "nblocks (min (p + n) (256 * E)) \<le> nblocks p + i" and "p < 256 * E" and "0 < n" and "p mod 256 = 0"
  shows "0 < i"
proof -
  have "nblocks (p + 1) \<le> nblocks (min (p + n) (256 * E))" using assms by (intro nblocks_mono) auto
  moreover have "nblocks (p + 1) = Suc (nblocks p)" using nblocks_room [of 1 p] assms(4) by (simp add: room_def nblocks_eq)
  ultimately show ?thesis using assms(1) by simp
qed

lemma cdiv256: "cdiv (int p) 256 = int (p div 256)"
  by (rule cdiv_int)

lemma cmod256: "cmod (int p) 256 = 0 \<longleftrightarrow> p mod 256 = 0"
proof -
  have "cmod (int p) 256 = int (p mod 256)" by (simp add: zmod_int)
  then show ?thesis by (simp only: of_nat_eq_0_iff)
qed

text \<open>The direct blocks: \<open>bs\<close> is the beginning of \<open>inode->index\<close>.\<close>

definition direct_blocks :: "inode \<Rightarrow> u32 list \<Rightarrow> nat \<Rightarrow> bool" where
  "direct_blocks ino bs p \<longleftrightarrow>
     length (blk ino) = 15 \<and> isize ino = int p \<and> bs = take (nblocks p) (blk ino) \<and> p \<le> 3072"

lemma write_direct_spec:
  assumes "file_rep s X bs p" and "direct_blocks ino bs p"
    and "nblocks (min (p + n) (256 * 12)) \<le> nblocks p + blocks.idle s"
  shows "\<exists>bs' b' s'. let m = min n (256 * 12 - p); ino' = ino\<lparr>isize := int (p + m), blk := b'\<rparr> in
    write_direct k mem (int p, int n, int w, ino, s) = Inr (int (p + m), int (n - m), int (w + m), ino', s') \<and>
    direct_blocks ino' bs' (p + m) \<and> drop 12 b' = drop 12 (blk ino) \<and>
    appends mem w X s bs p s' bs' (p + m)"
  using assms
proof (induction n arbitrary: p w ino s bs rule: less_induct)
  case (less n)
  note rep = less.prems(1) and dir = less.prems(2) and idle = less.prems(3)
  show ?case
  proof (cases "p < 256 * 12 \<and> 0 < n")
    case False
    then have m: "min n (256 * 12 - p) = 0" using dir by (auto simp: direct_blocks_def)
    have "\<not> (int p < level_end0 \<and> 0 < int n)" using False by simp
    then have "write_direct k mem (int p, int n, int w, ino, s) = Inr (int p, int n, int w, ino, s)"
      by (subst write_direct.simps) (rule if_not_P)
    then show ?thesis unfolding m using appends_refl [OF rep] dir
      by (intro exI [of _ bs] exI [of _ "blk ino"] exI [of _ s]) (simp add: direct_blocks_def)
  next
    case True
    then have n: "0 < n" and p: "p < 256 * 12" by auto
    define c where "c = room p n"
    have len: "length (blk ino) = 15" "isize ino = int p" "bs = take (nblocks p) (blk ino)"
      using dir by (auto simp: direct_blocks_def)
    have lt: "p div 256 < 12" using p by (simp add: div_less_iff_less_mult)
    have nb: "nblocks (p + c) = Suc (p div 256)" using nblocks_room [OF n, of p] by (simp add: c_def)
    obtain b1 s1 s2 bs1 where
      entry: "direct_entry (int p) ino s = Inr (ino\<lparr>blk := b1\<rparr>, s1)"
      and step: "write_step k mem (b1 ! (p div 256)) (int p, int n, int w, ino\<lparr>blk := b1\<rparr>, s1) =
        Inr (int (p + c), int (n - c), int (w + c), ino\<lparr>isize := int (p + c), blk := b1\<rparr>, s2)"
      and app: "appends mem w X s bs p s2 bs1 (p + c)"
      and b1: "length b1 = 15" "bs1 = take (nblocks (p + c)) b1" "drop 12 b1 = drop 12 (blk ino)"
    proof (cases "p mod 256 = 0")
      case False
      then have nth: "bs ! (p div 256) = blk ino ! (p div 256)" using len(3) by (simp add: nblocks_eq)
      obtain s2 where "write_step k mem (bs ! (p div 256)) (int p, int n, int w, ino, s) =
          Inr (int (p + c), int (n - c), int (w + c), ino\<lparr>isize := int (p + c)\<rparr>, s2)"
        and "appends mem w X s bs p s2 bs (p + c)"
        using round_inside [OF rep n False, of k mem w ino] len(2) by (auto simp: c_def)
      then show thesis using that [of "blk ino" s s2 bs] len False nb
        by (simp add: nth direct_entry_def cmod256 nblocks_eq [of p] del: cmod_nonneg)
    next
      case start: True
      then have nbp: "nblocks p = p div 256" by (simp add: nblocks_eq)
      obtain a s1 s2 where a: "get_free_block s = Inr (a, s1)"
        and st: "\<And>ino. write_step k mem a (int p, int n, int w, ino, s1) =
          Inr (int (p + c), int (n - c), int (w + c), ino\<lparr>isize := isize ino + int c\<rparr>, s2)"
        and app: "appends mem w X s bs p s2 (bs @ [a]) (p + c)"
        using round_start [OF rep n start idle_start [OF idle p n start], of k mem w]
        unfolding c_def by blast
      have "take (Suc (p div 256)) ((blk ino)[p div 256 := a]) = bs @ [a]"
        using len lt nbp by (simp add: take_Suc_conv_app_nth)
      then show thesis using that [of "(blk ino)[p div 256 := a]" s1 s2 "bs @ [a]"] len lt start a st app nb
        by (simp add: direct_entry_def cmod256 idx_set_def cdiv256 del: cmod_nonneg cdiv_nonneg)
    qed
    define ino1 where "ino1 = ino\<lparr>isize := int (p + c), blk := b1\<rparr>"
    define m where "m = min (n - c) (256 * 12 - (p + c))"
    have c: "0 < c" "c \<le> n" "p + c \<le> 3072" and m: "min n (256 * 12 - p) = c + m"
      using room_bounds(1,2) [OF n, of p] room_level [OF p n] by (auto simp: c_def m_def)
    have "blocks.idle s2 + nblocks (p + c) = blocks.idle s + nblocks p" by (rule appends_idle [OF app rep])
    then have idle2: "nblocks (min (p + c + (n - c)) (256 * 12)) \<le> nblocks (p + c) + blocks.idle s2"
      using idle c by simp
    have dir1: "direct_blocks ino1 bs1 (p + c)" using b1 c by (simp add: direct_blocks_def ino1_def)
    have "\<exists>bs' b' s'. let m = min (n - c) (256 * 12 - (p + c)); ino' = ino1\<lparr>isize := int (p + c + m), blk := b'\<rparr> in
      write_direct k mem (int (p + c), int (n - c), int (w + c), ino1, s2) =
        Inr (int (p + c + m), int (n - c - m), int (w + c + m), ino', s') \<and>
      direct_blocks ino' bs' (p + c + m) \<and> drop 12 b' = drop 12 (blk ino1) \<and>
      appends mem (w + c) X s2 bs1 (p + c) s' bs' (p + c + m)"
      by (rule less.IH [OF _ appends_rep [OF app] dir1 idle2]) (use c n in simp)
    then obtain bs' b' s' where run: "write_direct k mem (int (p + c), int (n - c), int (w + c), ino1, s2) =
          Inr (int (p + c + m), int (n - c - m), int (w + c + m), ino1\<lparr>isize := int (p + c + m), blk := b'\<rparr>, s')"
      and dir': "direct_blocks (ino1\<lparr>isize := int (p + c + m), blk := b'\<rparr>) bs' (p + c + m)"
      and drop': "drop 12 b' = drop 12 (blk ino1)"
      and app': "appends mem (w + c) X s2 bs1 (p + c) s' bs' (p + c + m)"
      unfolding Let_def m_def by blast
    have cond: "int p < level_end0 \<and> 0 < int n" using p n by simp
    have at: "idx_at (blk (ino\<lparr>blk := b1\<rparr>)) (cdiv (int p) BLOCK_SIZE) = Inr (b1 ! (p div 256))"
      using b1 lt by (simp add: idx_at_def cdiv256 del: cdiv_nonneg)
    have "write_direct k mem (int p, int n, int w, ino, s) =
        write_direct k mem (int (p + c), int (n - c), int (w + c), ino1, s2)"
      by (subst write_direct.simps) (simp only: if_P [OF cond] entry bindE_Inr prod.case at step ino1_def)
    moreover have "appends mem w X s bs p s' bs' (p + c + m)" by (rule appends_trans [OF app app']) simp
    ultimately show ?thesis unfolding m Let_def using run dir' drop' b1
      by (intro exI [of _ bs'] exI [of _ b'] exI [of _ s']) (simp add: ino1_def add.assoc)
  qed
qed

text \<open>
  The blocks of one index block: \<open>Q\<close> are the data blocks before it, \<open>B\<close> their number, and
  the rest of the list is the beginning of the index block.
\<close>

definition indexed_blocks :: "u32 list \<Rightarrow> u32 list \<Rightarrow> nat \<Rightarrow> u32 list" where
  "indexed_blocks Q idx p = Q @ take (nblocks p - length Q) idx"

lemma indexed_nth:
  "length Q \<le> i \<Longrightarrow> i < nblocks p \<Longrightarrow> i - length Q < length idx \<Longrightarrow>
     indexed_blocks Q idx p ! i = idx ! (i - length Q)"
  by (simp add: indexed_blocks_def nth_append)

lemma indexed_snoc:
  assumes "length Q \<le> nblocks p" and "nblocks p - length Q < length idx" and "nblocks p' = Suc (nblocks p)"
  shows "indexed_blocks Q (idx[nblocks p - length Q := a]) p' = indexed_blocks Q idx p @ [a]"
  using assms by (simp add: indexed_blocks_def Suc_diff_le take_Suc_conv_app_nth)

lemma write_indexed_spec:
  assumes "file_rep s X (indexed_blocks Q idx p) p" and "length idx = 64" and "256 * length Q \<le> p"
    and "isize ino = int p" and "p < 256 * (length Q + 64) \<Longrightarrow> 0 < n \<Longrightarrow> i = int (p div 256 - length Q)"
    and "nblocks (min (p + n) (256 * (length Q + 64))) \<le> nblocks p + blocks.idle s"
  shows "\<exists>idx' flag' s'. let m = min n (256 * (length Q + 64) - p) in
    write_indexed k mem (int (256 * (length Q + 64))) idx i flag (int p, int n, int w, ino, s) =
      Inr (idx', flag', int (p + m), int (n - m), int (w + m), ino\<lparr>isize := int (p + m)\<rparr>, s') \<and>
    length idx' = 64 \<and> (flag \<or> p mod 256 = 0 \<and> 0 < m \<longrightarrow> flag') \<and> (\<not> flag' \<longrightarrow> idx' = idx) \<and>
    appends mem w X s (indexed_blocks Q idx p) p s' (indexed_blocks Q idx' (p + m)) (p + m)"
  using assms
proof (induction n arbitrary: p w ino s idx i flag rule: less_induct)
  case (less n)
  note rep = less.prems(1) and len = less.prems(2,3,4) and idle = less.prems(6)
  let ?B = "length Q" and ?E = "length Q + 64"
  show ?case
  proof (cases "p < 256 * ?E \<and> 0 < n")
    case False
    then have m: "min n (256 * ?E - p) = 0" by auto
    have "\<not> (int p < int (256 * ?E) \<and> 0 < int n)" using False by simp
    then have "write_indexed k mem (int (256 * ?E)) idx i flag (int p, int n, int w, ino, s) =
        Inr (idx, flag, int p, int n, int w, ino, s)"
      by (subst write_indexed.simps) (rule if_not_P)
    then show ?thesis unfolding m using appends_refl [OF rep] len
      by (intro exI [of _ idx] exI [of _ flag] exI [of _ s]) simp
  next
    case True
    then have n: "0 < n" and p: "p < 256 * ?E" by auto
    then have i: "i = int (p div 256 - ?B)" by (rule less.prems(5) [rotated])
    define c where "c = room p n"
    have B: "?B \<le> p div 256" using len(2) by (simp add: less_eq_div_iff_mult_less_eq mult.commute)
    have "p div 256 < ?E" using p by (simp add: div_less_iff_less_mult mult.commute)
    then have lt: "p div 256 - ?B < 64" using B by linarith
    have nb: "nblocks (p + c) = Suc (p div 256)" using nblocks_room [OF n, of p] by (simp add: c_def)
    obtain a idx1 flag1 s1 s2 where
      entry: "data_entry (int p) idx i flag s = Inr (a, idx1, flag1, s1)"
      and step: "write_step k mem a (int p, int n, int w, ino, s1) =
        Inr (int (p + c), int (n - c), int (w + c), ino\<lparr>isize := int (p + c)\<rparr>, s2)"
      and app: "appends mem w X s (indexed_blocks Q idx p) p s2 (indexed_blocks Q idx1 (p + c)) (p + c)"
      and idx1: "length idx1 = 64" "flag \<or> p mod 256 = 0 \<longrightarrow> flag1" "\<not> flag1 \<longrightarrow> idx1 = idx"
    proof (cases "p mod 256 = 0")
      case False
      have same: "nblocks (p + c) = nblocks p" using nb False by (simp add: nblocks_eq [of p])
      have "indexed_blocks Q idx p ! (p div 256) = idx ! (p div 256 - ?B)"
        using B lt len(1) nb same by (intro indexed_nth) auto
      moreover obtain s2 where "write_step k mem (indexed_blocks Q idx p ! (p div 256)) (int p, int n, int w, ino, s) =
          Inr (int (p + c), int (n - c), int (w + c), ino\<lparr>isize := int (p + c)\<rparr>, s2)"
        and "appends mem w X s (indexed_blocks Q idx p) p s2 (indexed_blocks Q idx p) (p + c)"
        using round_inside [OF rep n False, of k mem w ino] len(3) by (auto simp: c_def)
      moreover have "data_entry (int p) idx i flag s = Inr (idx ! (p div 256 - ?B), idx, flag, s)"
        unfolding i using False lt len(1)
        by (simp add: data_entry_def cmod256 idx_at_def del: cmod_nonneg of_nat_diff)
      moreover have "indexed_blocks Q idx (p + c) = indexed_blocks Q idx p"
        by (simp add: indexed_blocks_def same)
      ultimately show thesis using that [of "idx ! (p div 256 - ?B)" idx flag s s2] len(1) False by simp
    next
      case start: True
      then have nbp: "nblocks p = p div 256" by (simp add: nblocks_eq)
      obtain a s1 s2 where a: "get_free_block s = Inr (a, s1)"
        and st: "\<And>ino. write_step k mem a (int p, int n, int w, ino, s1) =
          Inr (int (p + c), int (n - c), int (w + c), ino\<lparr>isize := isize ino + int c\<rparr>, s2)"
        and app: "appends mem w X s (indexed_blocks Q idx p) p s2 (indexed_blocks Q idx p @ [a]) (p + c)"
        using round_start [OF rep n start idle_start [OF idle p n start], of k mem w]
        unfolding c_def by blast
      have "indexed_blocks Q idx p @ [a] = indexed_blocks Q (idx[p div 256 - ?B := a]) (p + c)"
        using indexed_snoc [of Q p idx "p + c" a] B lt len nbp nb by simp
      moreover have "data_entry (int p) idx i flag s = Inr (a, idx[p div 256 - ?B := a], True, s1)"
        unfolding i using start lt len(1) a
        by (simp add: data_entry_def cmod256 idx_set_def del: cmod_nonneg of_nat_diff)
      ultimately show thesis using that [of a "idx[p div 256 - ?B := a]" True s1 s2] len(1,3) st app
        by simp
    qed
    define m where "m = min (n - c) (256 * ?E - (p + c))"
    have c: "0 < c" "c \<le> n" "p + c \<le> 256 * ?E" and m: "min n (256 * ?E - p) = c + m"
      using room_bounds(1,2) [OF n, of p] room_level [OF p n] by (auto simp: c_def m_def)
    have "blocks.idle s2 + nblocks (p + c) = blocks.idle s + nblocks p" by (rule appends_idle [OF app rep])
    then have idle2: "nblocks (min (p + c + (n - c)) (256 * ?E)) \<le> nblocks (p + c) + blocks.idle s2"
      using idle c by simp
    have i1: "i + 1 = int ((p + c) div 256 - ?B)" if "p + c < 256 * ?E" "0 < n - c"
      using room_next(1) [OF n, of p] that B by (simp add: i c_def Suc_diff_le)
    have "\<exists>idx' flag' s'. let m = min (n - c) (256 * ?E - (p + c)) in
      write_indexed k mem (int (256 * ?E)) idx1 (i + 1) flag1
        (int (p + c), int (n - c), int (w + c), ino\<lparr>isize := int (p + c)\<rparr>, s2) =
        Inr (idx', flag', int (p + c + m), int (n - c - m), int (w + c + m),
          ino\<lparr>isize := int (p + c)\<rparr>\<lparr>isize := int (p + c + m)\<rparr>, s') \<and>
      length idx' = 64 \<and> (flag1 \<or> (p + c) mod 256 = 0 \<and> 0 < m \<longrightarrow> flag') \<and> (\<not> flag' \<longrightarrow> idx' = idx1) \<and>
      appends mem (w + c) X s2 (indexed_blocks Q idx1 (p + c)) (p + c) s' (indexed_blocks Q idx' (p + c + m)) (p + c + m)"
      by (rule less.IH) (use c n appends_rep [OF app] idx1 len i1 idle2 in auto)
    then obtain idx' flag' s' where run: "write_indexed k mem (int (256 * ?E)) idx1 (i + 1) flag1
        (int (p + c), int (n - c), int (w + c), ino\<lparr>isize := int (p + c)\<rparr>, s2) =
        Inr (idx', flag', int (p + c + m), int (n - c - m), int (w + c + m), ino\<lparr>isize := int (p + c + m)\<rparr>, s')"
      and idx': "length idx' = 64" "flag1 \<longrightarrow> flag'" "\<not> flag' \<longrightarrow> idx' = idx1"
      and app': "appends mem (w + c) X s2 (indexed_blocks Q idx1 (p + c)) (p + c) s' (indexed_blocks Q idx' (p + c + m)) (p + c + m)"
      unfolding Let_def m_def by auto
    have cond: "int p < int (256 * ?E) \<and> 0 < int n" using p n by simp
    have "write_indexed k mem (int (256 * ?E)) idx i flag (int p, int n, int w, ino, s) =
        write_indexed k mem (int (256 * ?E)) idx1 (i + 1) flag1
          (int (p + c), int (n - c), int (w + c), ino\<lparr>isize := int (p + c)\<rparr>, s2)"
      by (subst write_indexed.simps) (simp only: if_P [OF cond] entry bindE_Inr prod.case step)
    moreover have "appends mem w X s (indexed_blocks Q idx p) p s' (indexed_blocks Q idx' (p + c + m)) (p + c + m)"
      by (rule appends_trans [OF app app']) simp
    ultimately show ?thesis unfolding m Let_def using run idx' idx1
      by (intro exI [of _ idx'] exI [of _ flag'] exI [of _ s']) (auto simp: add.assoc)
  qed
qed

section \<open>Index blocks\<close>

text \<open>Like \<open>appends\<close>, but the index blocks may grow and be written too.\<close>

definition extends ::
  "(nat \<Rightarrow> u8) \<Rightarrow> nat \<Rightarrow> fs \<Rightarrow> u32 set \<Rightarrow> u32 list \<Rightarrow> nat \<Rightarrow> fs \<Rightarrow> u32 set \<Rightarrow> u32 list \<Rightarrow> nat \<Rightarrow> bool" where
  "extends mem w s X bs p s' X' bs' p' \<longleftrightarrow>
     grow s (X \<union> set bs) s' (X' \<union> set bs') \<and> file_rep s' X' bs' p' \<and> p \<le> p' \<and>
     content (disk s') bs' p' = content (disk s) bs p @ cells mem w (p' - p)"

lemma appends_extends: "appends mem w X s bs p s' bs' p' \<Longrightarrow> extends mem w s X bs p s' X bs' p'"
  by (simp add: appends_def extends_def)

lemma extends_rep: "extends mem w s X bs p s' X' bs' p' \<Longrightarrow> file_rep s' X' bs' p'"
  by (simp add: extends_def)

lemma extends_refl: "file_rep s X bs p \<Longrightarrow> extends mem w s X bs p s X bs p"
  by (simp add: appends_extends appends_refl)

lemma extends_trans:
  assumes 1: "extends mem w s X bs p s1 X1 bs1 p1" and 2: "extends mem w1 s1 X1 bs1 p1 s2 X2 bs2 p2"
    and w: "w1 = w + (p1 - p)"
  shows "extends mem w s X bs p s2 X2 bs2 p2"
proof -
  have le: "p \<le> p1" "p1 \<le> p2" using 1 2 by (auto simp: extends_def)
  then have "cells mem w (p1 - p) @ cells mem w1 (p2 - p1) = cells mem w (p2 - p)"
    using cells_add [of mem w "p1 - p" "p2 - p1"] by (simp add: w)
  moreover have "grow s (X \<union> set bs) s2 (X2 \<union> set bs2)"
    using 1 2 unfolding extends_def by (meson grow_trans)
  ultimately show ?thesis using 1 2 le by (simp add: extends_def)
qed

lemma grow_buffer:
  "own_ok s Q \<Longrightarrow> grow s Q (s\<lparr>index_block1 := ib\<rparr>) Q"
  "own_ok s Q \<Longrightarrow> grow s Q (s\<lparr>index_block2 := ib\<rparr>) Q"
  by (auto simp: grow_def own_ok_def indices_ok_def block_used_def fs_rest_def blocks.idle_def)

lemma extends_buffer:
  assumes "file_rep s X bs p"
  shows "extends mem w s X bs p (s\<lparr>index_block1 := ib\<rparr>) X bs p"
    and "extends mem w s X bs p (s\<lparr>index_block2 := ib\<rparr>) X bs p"
  using assms grow_buffer [of s "X \<union> set bs" ib] by (auto simp: extends_def file_rep_def dest: grow_own_ok)

lemma extends_alloc:
  assumes rep: "file_rep s X bs p" and idle: "0 < blocks.idle s"
  obtains a s' where "get_free_block s = Inr (a, s')" and "extends mem w s X bs p s' (insert a X) bs p"
    and "a \<notin> X \<union> set bs" and "a \<in> block_slots" and "disk s' = disk s"
    and "index_block1 s' = index_block1 s" and "index_block2 s' = index_block2 s"
    and "blocks.idle s = Suc (blocks.idle s')"
proof -
  have own: "own_ok s (X \<union> set bs)" using rep by (simp add: file_rep_def)
  obtain a s' where a: "get_free_block s = Inr (a, s')" "a \<notin> X \<union> set bs" "a \<in> block_slots"
    "grow s (X \<union> set bs) s' (insert a (X \<union> set bs))" "disk s' = disk s"
    "index_block1 s' = index_block1 s" "index_block2 s' = index_block2 s"
    using get_free_block_grow [OF own idle] .
  moreover have "blocks.idle s = Suc (blocks.idle s')"
    using own blocks.idle_alloc [OF _ a(1)] by (simp add: own_ok_def)
  moreover have "extends mem w s X bs p s' (insert a X) bs p"
    using a rep by (auto simp: extends_def file_rep_def dest: grow_own_ok)
  ultimately show ?thesis using that by blast
qed

lemma content_other:
  assumes "length bs = nblocks p" and "\<And>a x. a \<in> set bs \<Longrightarrow> x \<in> bytes_of a \<Longrightarrow> d' x = d x"
  shows "content d' bs p = content d bs p"
  unfolding content_def
proof (rule map_cong [OF refl])
  fix q assume "q \<in> set [0..<p]"
  then have "bs ! (q div 256) \<in> set bs" using assms(1) nblocks_less by simp
  then show "d' (unat (bs ! (q div 256)) + q mod 256) = d (unat (bs ! (q div 256)) + q mod 256)"
    by (rule assms(2)) (simp add: bytes_of_def)
qed

lemma index_on_other: "(\<And>x. x \<in> bytes_of a \<Longrightarrow> d' x = d x) \<Longrightarrow> index_on d' a = index_on d a"
  unfolding index_on_def by (rule arg_cong [of _ _ u32_list], rule cells_cong) (simp add: bytes_of_def)

lemma extends_store:
  assumes rep: "file_rep s X bs p" and a: "a \<in> X" and ib: "length ib = 64"
  obtains d' where "store_index a ib s = Inr (s\<lparr>disk := d'\<rparr>)"
    and "extends mem w s X bs p (s\<lparr>disk := d'\<rparr>) X bs p" and "index_on d' a = ib"
    and "\<And>b. b \<in> block_slots \<Longrightarrow> b \<noteq> a \<Longrightarrow> index_on d' b = index_on (disk s) b"
proof -
  let ?d = "patch (disk s) (unat a) (bytes_list ib)"
  have own: "own_ok s (X \<union> set bs)" using rep by (simp add: file_rep_def)
  then have slot: "a \<in> block_slots" using a by (auto simp: own_ok_def)
  have "int (unat a) + 256 < 4194304" using slot_bounds(3) [OF slot] by (simp only: addr_ok_def)
  then have "ram_write True (int (unat a)) (bytes_list ib) s = Inr (s\<lparr>disk := ?d\<rparr>)"
    using ib by (subst ram_write_ok) auto
  then have 1: "store_index a ib s = Inr (s\<lparr>disk := ?d\<rparr>)"
    using slot_bounds(3) [OF slot] by (simp add: store_index_def del: of_nat_unat)
  have out: "?d x = disk s x" if "x \<notin> bytes_of a" for x
    using that ib by (intro patch_other) (auto simp: bytes_of_def)
  have other: "?d x = disk s x" if "b \<in> block_slots" "b \<noteq> a" "x \<in> bytes_of b" for b x
    using slots_disjoint [OF slot that(1)] that by (intro out) auto
  have "bs ! i \<noteq> a \<and> bs ! i \<in> block_slots" if "i < length bs" for i
    using that rep a own by (auto simp: file_rep_def own_ok_def)
  then have "content ?d bs p = content (disk s) bs p"
    using rep other by (intro content_other) (auto simp: file_rep_def in_set_conv_nth)
  moreover have "grow s (X \<union> set bs) (s\<lparr>disk := ?d\<rparr>) (X \<union> set bs)"
    using patch_grow [OF own, of a 0 "bytes_list ib"] a ib by simp
  ultimately have 2: "extends mem w s X bs p (s\<lparr>disk := ?d\<rparr>) X bs p"
    using rep by (auto simp: extends_def file_rep_def dest: grow_own_ok)
  have 3: "index_on ?d a = ib"
    using cells_patch_same [of "disk s" "unat a" "bytes_list ib"] ib by (simp add: index_on_def)
  show ?thesis using that [OF 1 2 3] index_on_other other by blast
qed

lemma nblocks_3072 [simp]: "nblocks 3072 = 12"
  by (simp add: nblocks_def)

lemma indexed_empty: "nblocks p \<le> length Q \<Longrightarrow> indexed_blocks Q idx p = Q"
  by (simp add: indexed_blocks_def)

lemma take12: "bs = indexed_blocks Q idx p \<Longrightarrow> length Q = 12 \<Longrightarrow> take 12 bs = Q"
  by (simp add: indexed_blocks_def)

text \<open>
  \<open>single_blocks\<close>: a file that ends in the single-indirect level, with its index block \<open>ia\<close> and
  the contents \<open>idx\<close> of that block.
\<close>

definition single_blocks :: "u32 list \<Rightarrow> u32 list \<Rightarrow> nat \<Rightarrow> bool" where
  "single_blocks bs idx p \<longleftrightarrow> bs = indexed_blocks (take 12 bs) idx p \<and> length (take 12 bs) = 12"

lemma enter_level1_spec:
  assumes rep: "file_rep s X bs p" and ino: "length (blk ino) = 15" "isize ino = int p"
    and buf: "length (index_block1 s) = 64"
    and idle: "p = 3072 \<Longrightarrow> 0 < blocks.idle s"
    and pos: "p = 3072 \<and> X = {} \<or>
      3072 < p \<and> X = {blk ino ! 12} \<and> single_blocks bs (index_on (disk s) (blk ino ! 12)) p"
  obtains ia s1 where
    "enter_level1 (int p) ino s = Inr (ia, ino\<lparr>blk := (blk ino)[12 := ia]\<rparr>, s1)"
    and "extends mem w s X bs p s1 {ia} bs p" and "length (index_block1 s1) = 64"
    and "single_blocks bs (index_block1 s1) p"
    and "p \<noteq> 3072 \<Longrightarrow> index_on (disk s1) ia = index_block1 s1"
    and "blocks.idle s = blocks.idle s1 + (if p = 3072 then 1 else 0)"
    and "index_block2 s1 = index_block2 s"
proof (cases "p = 3072")
  case True
  with pos have X: "X = {}" by auto
  obtain a s1 where a: "get_free_block s = Inr (a, s1)" "extends mem w s X bs p s1 (insert a X) bs p"
    "index_block1 s1 = index_block1 s" "blocks.idle s = Suc (blocks.idle s1)" "index_block2 s1 = index_block2 s"
    using extends_alloc [OF rep idle [OF True]] by metis
  have "length bs = 12" using rep True by (simp add: file_rep_def)
  then have "single_blocks bs (index_block1 s1) p" by (simp add: single_blocks_def indexed_empty True)
  with that [of a s1] show ?thesis using a X True ino buf
    by (simp add: enter_level1_def idx_set_def)
next
  case False
  with pos have X: "X = {blk ino ! 12}" "single_blocks bs (index_on (disk s) (blk ino ! 12)) p" by auto
  let ?ib = "index_on (disk s) (blk ino ! 12)"
  have own: "own_ok s (X \<union> set bs)" using rep by (simp add: file_rep_def)
  then have "addr_ok (blk ino ! 12)" using X(1) slot_bounds(3) by (auto simp: own_ok_def)
  then have "enter_level1 (int p) ino s = Inr (blk ino ! 12, ino\<lparr>blk := (blk ino)[12 := blk ino ! 12]\<rparr>, s\<lparr>index_block1 := ?ib\<rparr>)"
    using False ino by (simp add: enter_level1_def idx_at_def)
  moreover have "blocks.idle (s\<lparr>index_block1 := ?ib\<rparr>) = blocks.idle s"
    by (simp add: blocks.idle_def block_used_def)
  ultimately show ?thesis
    using that [of "blk ino ! 12" "s\<lparr>index_block1 := ?ib\<rparr>"] extends_buffer(1) [OF rep, of mem w ?ib] X False
    by simp
qed

lemma level1_spec:
  assumes rep: "file_rep s X bs p" and ino: "length (blk ino) = 15" "isize ino = int p"
    and buf: "length (index_block1 s) = 64" and n: "0 < n" and p: "p < 19456"
    and idle: "nblocks (min (p + n) 19456) + (if p = 3072 then 1 else 0) \<le> nblocks p + blocks.idle s"
    and pos: "p = 3072 \<and> X = {} \<or>
      3072 < p \<and> X = {blk ino ! 12} \<and> single_blocks bs (index_on (disk s) (blk ino ! 12)) p"
  shows "\<exists>ia bs' s'. let m = min n (19456 - p) in
    write_level1 k mem (int p, int n, int w, ino, s) =
      Inr (int (p + m), int (n - m), int (w + m), ino\<lparr>isize := int (p + m), blk := (blk ino)[12 := ia]\<rparr>, s') \<and>
    extends mem w s X bs p s' {ia} bs' (p + m) \<and> single_blocks bs' (index_on (disk s') ia) (p + m) \<and>
    take 12 bs' = take 12 bs \<and> length (index_block1 s') = 64 \<and> index_block2 s' = index_block2 s"
proof -
  define m where "m = min n (19456 - p)"
  have "0 < blocks.idle s" if "p = 3072"
  proof -
    have "nblocks p \<le> nblocks (min (p + n) 19456)" using p by (intro nblocks_mono) auto
    with idle that show ?thesis by simp
  qed
  then obtain ia s1 where
    enter: "enter_level1 (int p) ino s = Inr (ia, ino\<lparr>blk := (blk ino)[12 := ia]\<rparr>, s1)"
    and e1: "extends mem w s X bs p s1 {ia} bs p" and l1: "length (index_block1 s1) = 64"
    and single: "single_blocks bs (index_block1 s1) p"
    and on: "p \<noteq> 3072 \<Longrightarrow> index_on (disk s1) ia = index_block1 s1"
    and idle1: "blocks.idle s = blocks.idle s1 + (if p = 3072 then 1 else 0)"
    and ib2: "index_block2 s1 = index_block2 s"
    using enter_level1_spec [OF rep ino buf _ pos] by blast
  let ?Q = "take 12 bs" and ?idx = "index_block1 s1" and ?ino = "ino\<lparr>blk := (blk ino)[12 := ia]\<rparr>"
  have Q: "length ?Q = 12" and bs: "bs = indexed_blocks ?Q ?idx p" using single by (auto simp: single_blocks_def)
  have E: "256 * (length ?Q + 64) = 19456" "256 * length ?Q = 3072" using Q by simp_all
  have rep1: "file_rep s1 {ia} (indexed_blocks ?Q ?idx p) p" using extends_rep [OF e1] bs by simp
  have "\<exists>idx' flag' s'. let m = min n (256 * (length ?Q + 64) - p) in
    write_indexed k mem (int (256 * (length ?Q + 64))) ?idx (int (p div 256 - length ?Q)) False
        (int p, int n, int w, ?ino, s1) =
      Inr (idx', flag', int (p + m), int (n - m), int (w + m), ?ino\<lparr>isize := int (p + m)\<rparr>, s') \<and>
    length idx' = 64 \<and> (False \<or> p mod 256 = 0 \<and> 0 < m \<longrightarrow> flag') \<and> (\<not> flag' \<longrightarrow> idx' = ?idx) \<and>
    appends mem w {ia} s1 (indexed_blocks ?Q ?idx p) p s' (indexed_blocks ?Q idx' (p + m)) (p + m)"
    by (rule write_indexed_spec [OF rep1 l1]) (use E ino pos idle idle1 in auto)
  then obtain idx' flag' s2 where
    run: "write_indexed k mem level_end1 ?idx (int (p div 256 - 12)) False (int p, int n, int w, ?ino, s1) =
      Inr (idx', flag', int (p + m), int (n - m), int (w + m), ?ino\<lparr>isize := int (p + m)\<rparr>, s2)"
    and idx': "length idx' = 64" "p mod 256 = 0 \<and> 0 < m \<longrightarrow> flag'" "\<not> flag' \<longrightarrow> idx' = ?idx"
    and app: "appends mem w {ia} s1 bs p s2 (indexed_blocks ?Q idx' (p + m)) (p + m)"
    unfolding Let_def E Q m_def by (auto simp flip: bs)
  let ?bs' = "indexed_blocks ?Q idx' (p + m)" and ?s3 = "s2\<lparr>index_block1 := idx'\<rparr>"
  have e2: "extends mem w s X bs p ?s3 {ia} ?bs' (p + m)"
    using extends_trans [OF e1 extends_trans [OF appends_extends [OF app]
      extends_buffer(1) [OF appends_rep [OF app], of mem "w + m" idx']]] by simp
  have rep3: "file_rep ?s3 {ia} ?bs' (p + m)" using extends_rep [OF e2] .
  have sb: "single_blocks ?bs' idx' (p + m)" "take 12 ?bs' = ?Q"
    using Q take12 [of ?bs' ?Q idx' "p + m"] by (simp_all add: single_blocks_def)
  have ib2': "index_block2 s2 = index_block2 s" using app ib2 by (simp add: appends_def)
  obtain s4 where st: "(if flag' then store_index ia idx' ?s3 else Inr ?s3) = Inr s4"
    and e3: "extends mem (w + m) ?s3 {ia} ?bs' (p + m) s4 {ia} ?bs' (p + m)"
    and on4: "index_on (disk s4) ia = idx'" and b4: "index_block1 s4 = idx'" "index_block2 s4 = index_block2 s"
  proof (cases flag')
    case True
    obtain d' where "store_index ia idx' ?s3 = Inr (?s3\<lparr>disk := d'\<rparr>)"
      "extends mem (w + m) ?s3 {ia} ?bs' (p + m) (?s3\<lparr>disk := d'\<rparr>) {ia} ?bs' (p + m)" "index_on d' ia = idx'"
      using extends_store [OF rep3 _ idx'(1), of ia mem "w + m"] by auto
    with that [of "?s3\<lparr>disk := d'\<rparr>"] True ib2' show thesis by simp
  next
    case False
    have "0 < m" using n p by (simp add: m_def)
    with False idx' have "p \<noteq> 3072" by auto
    moreover have "index_on (disk s2) ia = index_on (disk s1) ia"
    proof (rule index_on_other)
      fix x assume x: "x \<in> bytes_of ia"
      have "x \<notin> bytes_of a" if "a \<in> set ?bs'" for a
        using slots_disjoint [of ia a] rep3 that x by (auto simp: file_rep_def own_ok_def)
      with app show "disk s2 x = disk s1 x" by (simp add: appends_def)
    qed
    ultimately have "index_on (disk ?s3) ia = idx'" using on idx' False by simp
    with that [of ?s3] False extends_refl [OF rep3] ib2' show thesis by simp
  qed
  have cond: "int p < level_end1 \<and> 0 < int n" using p n by simp
  have div: "cdiv (int p - level_end0) index_zero_size = int (p div 256 - 12)"
  proof -
    have "int p - level_end0 = int (p - 3072)" using pos by auto
    then show ?thesis using div_sub_blocks [of p 12] by (simp only: cdiv_int)
  qed
  have "write_level1 k mem (int p, int n, int w, ino, s) =
    Inr (int (p + m), int (n - m), int (w + m), ?ino\<lparr>isize := int (p + m)\<rparr>, s4)"
    by (simp only: write_level1_def prod.case if_P [OF cond] enter bindE_Inr div run Let_def st)
  moreover have "extends mem w s X bs p s4 {ia} ?bs' (p + m)"
    by (rule extends_trans [OF e2 e3]) simp
  ultimately show ?thesis
    using sb on4 b4 idx'(1) unfolding Let_def m_def [symmetric]
    by (intro exI [of _ ia] exI [of _ ?bs'] exI [of _ s4]) simp
qed

section \<open>Files\<close>

text \<open>The blocks of a file as the reading functions find them.\<close>

definition fsize :: "inode \<Rightarrow> nat" where
  "fsize ino = nat (isize ino)"

definition file_blocks :: "disk \<Rightarrow> inode \<Rightarrow> u32 list" where
  "file_blocks d ino = map (block_addr d ino) [0..<nblocks (fsize ino)]"

definition index_blocks :: "disk \<Rightarrow> inode \<Rightarrow> u32 list" where
  "index_blocks d ino =
     (if isize ino \<le> level_end0 then [] else [blk ino ! 12]) @
     (if isize ino \<le> level_end1 then []
      else blk ino ! 13 # take (nat ((isize ino - level_end1 + 16383) div 16384)) (index_on d (blk ino ! 13)))"

definition file_own :: "disk \<Rightarrow> inode \<Rightarrow> u32 set" where
  "file_own d ino = set (index_blocks d ino) \<union> set (file_blocks d ino)"

definition wf_file :: "fs \<Rightarrow> inode \<Rightarrow> bool" where
  "wf_file s ino \<longleftrightarrow>
     length (blk ino) = 15 \<and> 0 \<le> isize ino \<and> isize ino \<le> level_end2 \<and>
     distinct (index_blocks (disk s) ino) \<and>
     file_rep s (set (index_blocks (disk s) ino)) (file_blocks (disk s) ino) (fsize ino)"

definition file_data :: "disk \<Rightarrow> inode \<Rightarrow> u8 list" where
  "file_data d ino = map (file_byte d ino) [0..<fsize ino]"

lemma length_file_data [simp]: "length (file_data d ino) = fsize ino"
  by (simp add: file_data_def)

lemma content_file_data: "content d (file_blocks d ino) (fsize ino) = file_data d ino"
  unfolding content_def file_data_def
  by (rule map_cong [OF refl]) (simp add: file_blocks_def file_byte_def nblocks_less)

lemma fsize_eq [simp]: "isize ino = int p \<Longrightarrow> fsize ino = p"
  by (simp add: fsize_def)

lemma nblocks_le: "p \<le> 256 * b \<Longrightarrow> nblocks p \<le> b"
  using div_le_mono [of "p + 255" "256 * b + 255" 256] by (simp add: nblocks_def)

lemma nblocks_ge: "256 * b < p \<Longrightarrow> b < nblocks p"
  using nblocks_less [of "256 * b" p] by simp

lemma file_blocks_direct:
  assumes "length (blk ino) = 15" and "isize ino = int p" and "p \<le> 3072"
  shows "file_blocks d ino = take (nblocks p) (blk ino)"
proof -
  have "nblocks p \<le> 12" using assms(3) by (intro nblocks_le) simp
  then show ?thesis using assms
    by (intro nth_equalityI) (auto simp: file_blocks_def block_addr_simps)
qed

lemma file_blocks_single:
  assumes "length (blk ino) = 15" and "isize ino = int p" and "3072 < p" and "p \<le> 19456"
  shows "file_blocks d ino = indexed_blocks (take 12 (blk ino)) (index_on d (blk ino ! 12)) p"
proof -
  have nb: "nblocks p \<le> 76" "12 < nblocks p"
    using assms(3,4) nblocks_le [of p 76] nblocks_ge [of 12 p] by simp_all
  show ?thesis
  proof (rule nth_equalityI)
    show "length (file_blocks d ino) = length (indexed_blocks (take 12 (blk ino)) (index_on d (blk ino ! 12)) p)"
      using assms nb by (simp add: file_blocks_def indexed_blocks_def)
    fix i assume "i < length (file_blocks d ino)"
    then have "i < nblocks p" "i < 76" using assms(2) nb by (simp_all add: file_blocks_def)
    then show "file_blocks d ino ! i = indexed_blocks (take 12 (blk ino)) (index_on d (blk ino ! 12)) p ! i"
      using assms by (cases "i < 12") (simp_all add: file_blocks_def indexed_blocks_def nth_append block_addr_simps)
  qed
qed

lemma wf_file_direct:
  assumes "length (blk ino) = 15" and "isize ino = int p" and "p \<le> 3072"
  shows "wf_file s ino \<longleftrightarrow> file_rep s {} (take (nblocks p) (blk ino)) p"
    and "file_own d ino = set (take (nblocks p) (blk ino))"
  using assms by (auto simp: wf_file_def file_own_def index_blocks_def file_blocks_direct)

lemma wf_file_single:
  assumes "length (blk ino) = 15" and "isize ino = int p" and "3072 < p" and "p \<le> 19456"
  shows "wf_file s ino \<longleftrightarrow>
      file_rep s {blk ino ! 12} (indexed_blocks (take 12 (blk ino)) (index_on (disk s) (blk ino ! 12)) p) p"
    and "file_own d ino = {blk ino ! 12} \<union> set (indexed_blocks (take 12 (blk ino)) (index_on d (blk ino ! 12)) p)"
  using assms by (auto simp: wf_file_def file_own_def index_blocks_def file_blocks_single)

section \<open>Appending to a file\<close>

lemma write_levels_done:
  "write_level2 k mem (p, 0, w, ino, s) = Inr (p, 0, w, ino, s)"
  "write_level3 k mem (p, 0, w, ino, s) = Inr (p, 0, w, ino, s)"
  "write_level1 k mem (p, 0, w, ino, s) = Inr (p, 0, w, ino, s)"
  by (simp_all add: write_level1_def write_level2_def write_level3_def)

text \<open>
  \<open>appended\<close>: the file \<open>ino\<close> of state \<open>s\<close> has become \<open>ino'\<close> of state \<open>s'\<close> by the bytes \<open>bs\<close> at its end.
\<close>

definition appended :: "fs \<Rightarrow> inode \<Rightarrow> u8 list \<Rightarrow> fs \<Rightarrow> inode \<Rightarrow> bool" where
  "appended s ino bs s' ino' \<longleftrightarrow>
     wf_file s' ino' \<and> ino' = ino\<lparr>isize := isize ino + int (length bs), blk := blk ino'\<rparr> \<and>
     file_data (disk s') ino' = file_data (disk s) ino @ bs \<and>
     grow s (file_own (disk s) ino) s' (file_own (disk s') ino')"

lemma appendedI:
  assumes e: "extends mem 0 s (set (index_blocks (disk s) ino)) (file_blocks (disk s) ino) p s' X' bs' (p + n)"
    and "file_blocks (disk s') ino' = bs'" and "set (index_blocks (disk s') ino') = X'" and "wf_file s' ino'"
    and "isize ino = int p" and "isize ino' = int (p + n)" and "ino' = ino\<lparr>isize := int p + int n, blk := blk ino'\<rparr>"
  shows "appended s ino (cells mem 0 n) s' ino'"
proof -
  have "fsize ino = p" "fsize ino' = p + n" using assms(5,6) by (simp_all add: fsize_def)
  then have "file_data (disk s') ino' = file_data (disk s) ino @ cells mem 0 n"
    using e content_file_data [of "disk s" ino] content_file_data [of "disk s'" ino'] assms(2)
    by (simp add: extends_def)
  with assms show ?thesis by (simp add: appended_def extends_def file_own_def)
qed

lemma appendedD:
  assumes "appended s ino bs s' ino'"
  shows "wf_file s' ino'" and "file_data (disk s') ino' = file_data (disk s) ino @ bs"
    and "grow s (file_own (disk s) ino) s' (file_own (disk s') ino')"
    and "isize ino' = isize ino + int (length bs)"
proof -
  have "ino' = ino\<lparr>isize := isize ino + int (length bs), blk := blk ino'\<rparr>"
    using assms unfolding appended_def by (elim conjE)
  from arg_cong [OF this, of isize] show "isize ino' = isize ino + int (length bs)" by simp
  show "wf_file s' ino'" using assms unfolding appended_def by (elim conjE)
  show "file_data (disk s') ino' = file_data (disk s) ino @ bs" using assms unfolding appended_def by (elim conjE)
  show "grow s (file_own (disk s) ino) s' (file_own (disk s') ino')" using assms unfolding appended_def by (elim conjE)
qed

lemma write_single:
  assumes rep: "file_rep s X bs p" and ino: "length (blk ino) = 15" "isize ino = int p"
    and buf: "length (index_block1 s) = 64" and n: "0 < n" and p: "p + n \<le> 19456"
    and idle: "nblocks (p + n) + (if p = 3072 then 1 else 0) \<le> nblocks p + blocks.idle s"
    and pos: "p = 3072 \<and> X = {} \<or>
      3072 < p \<and> X = {blk ino ! 12} \<and> single_blocks bs (index_on (disk s) (blk ino ! 12)) p"
    and bs: "take 12 bs = take 12 (blk ino)"
  shows "\<exists>ino' s'. write_level1 k mem (int p, int n, int w, ino, s) = Inr (int (p + n), 0, int (w + n), ino', s') \<and>
    extends mem w s X bs p s' (set (index_blocks (disk s') ino')) (file_blocks (disk s') ino') (p + n) \<and>
    wf_file s' ino' \<and> ino' = ino\<lparr>isize := int (p + n), blk := blk ino'\<rparr> \<and> length (index_block1 s') = 64"
proof -
  have m: "min n (19456 - p) = n" "min (p + n) 19456 = p + n" "p < 19456" using p n by auto
  obtain ia bs' s' where run: "write_level1 k mem (int p, int n, int w, ino, s) =
        Inr (int (p + n), int (n - n), int (w + n), ino\<lparr>isize := int (p + n), blk := (blk ino)[12 := ia]\<rparr>, s')"
    and e: "extends mem w s X bs p s' {ia} bs' (p + n)" and sb: "single_blocks bs' (index_on (disk s') ia) (p + n)"
    and t: "take 12 bs' = take 12 bs" and b: "length (index_block1 s') = 64"
    using level1_spec [OF rep ino buf n m(3), of k mem w] idle pos unfolding m Let_def by blast
  define ino' where "ino' = ino\<lparr>isize := int (p + n), blk := (blk ino)[12 := ia]\<rparr>"
  have i': "length (blk ino') = 15" "isize ino' = int (p + n)" "blk ino' ! 12 = ia" "take 12 (blk ino') = take 12 (blk ino)"
    using ino by (simp_all add: ino'_def)
  have p': "3072 < p + n" "p + n \<le> 19456" using pos n p by auto
  have bs': "bs' = indexed_blocks (take 12 (blk ino')) (index_on (disk s') (blk ino' ! 12)) (p + n)"
    using sb t bs i'(3,4) by (simp add: single_blocks_def)
  have "wf_file s' ino'" "set (index_blocks (disk s') ino') = {ia}" "file_blocks (disk s') ino' = bs'"
    using extends_rep [OF e] i' p' bs' wf_file_single(1) [OF i'(1,2) p'] file_blocks_single [OF i'(1,2) p']
    by (simp_all add: index_blocks_def)
  then show ?thesis using run e b by (intro exI [of _ ino'] exI [of _ s']) (simp add: ino'_def)
qed

lemma write_data_levels:
  assumes "write_direct k mem (int p, int n, 0, ino, s) = Inr r"
    and "write_level1 k mem r = Inr (p', 0, w', ino', s')"
  shows "write_data k mem (int p) ino (int n) s = Inr (w', ino', s')"
  using assms by (simp add: write_data_def write_levels_done)

lemma write_data_spec:
  assumes wf: "wf_file s ino" and sz: "isize ino = int p" and p: "p + n \<le> 19456"
    and buf: "length (index_block1 s) = 64"
    and idle: "nblocks (p + n) + 1 \<le> nblocks p + blocks.idle s"
  shows "\<exists>ino' s'. write_data k mem (int p) ino (int n) s = Inr (int n, ino', s') \<and>
    appended s ino (cells mem 0 n) s' ino' \<and> length (index_block1 s') = 64"
proof (cases "p \<le> 3072")
  case True
  have len: "length (blk ino) = 15" using wf by (simp add: wf_file_def)
  let ?bs = "take (nblocks p) (blk ino)"
  have rep: "file_rep s {} ?bs p" using wf wf_file_direct(1) [OF len sz True] by simp
  have dir: "direct_blocks ino ?bs p" using len sz True by (simp add: direct_blocks_def)
  have own: "set (index_blocks (disk s) ino) = {}" "file_blocks (disk s) ino = ?bs"
    using file_blocks_direct [OF len sz True] sz True by (simp_all add: index_blocks_def)
  define m where "m = min n (3072 - p)"
  have "nblocks (min (p + n) (256 * 12)) \<le> nblocks p + blocks.idle s"
    using idle nblocks_mono [of "min (p + n) (256 * 12)" "p + n"] by simp
  from write_direct_spec [OF rep dir this, of k mem 0]
  obtain bs1 b1 s1 where run: "write_direct k mem (int p, int n, 0, ino, s) =
        Inr (int (p + m), int (n - m), int m, ino\<lparr>isize := int (p + m), blk := b1\<rparr>, s1)"
    and dir1: "direct_blocks (ino\<lparr>isize := int (p + m), blk := b1\<rparr>) bs1 (p + m)"
    and app: "appends mem 0 {} s ?bs p s1 bs1 (p + m)"
    by (auto simp: Let_def m_def)
  define ino1 where "ino1 = ino\<lparr>isize := int (p + m), blk := b1\<rparr>"
  have i1: "length (blk ino1) = 15" "isize ino1 = int (p + m)" "p + m \<le> 3072" "bs1 = take (nblocks (p + m)) (blk ino1)"
    using dir1 by (simp_all add: direct_blocks_def ino1_def)
  have idle1: "blocks.idle s1 + nblocks (p + m) = blocks.idle s + nblocks p" by (rule appends_idle [OF app rep])
  have buf1: "length (index_block1 s1) = 64" using app buf by (simp add: appends_def)
  show ?thesis
  proof (cases "m = n")
    case True
    have "appended s ino (cells mem 0 n) s1 ino1"
      by (rule appendedI [where p = p and X' = "{}" and bs' = bs1])
        (use appends_extends [OF app] own i1 sz True wf_file_direct(1) [OF i1(1,2,3)] appends_rep [OF app]
          file_blocks_direct [OF i1(1,2,3)] in \<open>simp_all add: index_blocks_def ino1_def\<close>)
    moreover have "write_data k mem (int p) ino (int n) s = Inr (int n, ino1, s1)"
      by (rule write_data_levels [OF run]) (simp add: True write_levels_done ino1_def)
    ultimately show ?thesis using buf1 by blast
  next
    case False
    then have m: "p + m = 3072" "0 < n - m" "p + m + (n - m) = p + n" "m + (n - m) = n"
      using True by (auto simp: m_def)
    have "\<exists>ino' s'. write_level1 k mem (int (p + m), int (n - m), int m, ino1, s1) =
        Inr (int (p + m + (n - m)), 0, int (m + (n - m)), ino', s') \<and>
      extends mem m s1 {} bs1 (p + m) s' (set (index_blocks (disk s') ino')) (file_blocks (disk s') ino') (p + m + (n - m)) \<and>
      wf_file s' ino' \<and> ino' = ino1\<lparr>isize := int (p + m + (n - m)), blk := blk ino'\<rparr> \<and> length (index_block1 s') = 64"
      by (rule write_single [OF appends_rep [OF app] i1(1,2) buf1 m(2)])
        (use m p idle idle1 i1 in auto)
    then obtain ino' s' where run1: "write_level1 k mem (int (p + m), int (n - m), int m, ino1, s1) =
        Inr (int (p + n), 0, int n, ino', s')"
      and e: "extends mem m s1 {} bs1 (p + m) s' (set (index_blocks (disk s') ino')) (file_blocks (disk s') ino') (p + n)"
      and wf': "wf_file s' ino'" and ino': "ino' = ino1\<lparr>isize := int (p + n), blk := blk ino'\<rparr>"
      and buf': "length (index_block1 s') = 64"
      unfolding m(3,4) by blast
    have "extends mem 0 s {} ?bs p s' (set (index_blocks (disk s') ino')) (file_blocks (disk s') ino') (p + n)"
      by (rule extends_trans [OF appends_extends [OF app] e]) simp
    moreover have "isize ino' = int (p + n)" by (subst ino') simp
    ultimately have "appended s ino (cells mem 0 n) s' ino'"
      by (intro appendedI [where p = p]) (use own wf' sz ino' in \<open>simp_all add: ino1_def\<close>)
    moreover have "write_data k mem (int p) ino (int n) s = Inr (int n, ino', s')"
      by (rule write_data_levels [OF run]) (use run1 in \<open>simp add: ino1_def\<close>)
    ultimately show ?thesis using buf' by blast
  qed
next
  case False
  then have p3: "3072 < p" "p \<le> 19456" using p by auto
  have len: "length (blk ino) = 15" using wf by (simp add: wf_file_def)
  let ?bs = "indexed_blocks (take 12 (blk ino)) (index_on (disk s) (blk ino ! 12)) p"
  have rep: "file_rep s {blk ino ! 12} ?bs p" using wf wf_file_single(1) [OF len sz p3] by simp
  have own: "set (index_blocks (disk s) ino) = {blk ino ! 12}" "file_blocks (disk s) ino = ?bs"
    using file_blocks_single [OF len sz p3] sz p3 by (simp_all add: index_blocks_def)
  have skip: "write_direct k mem (int p, int n, 0, ino, s) = Inr (int p, int n, 0, ino, s)"
    using p3 by (subst write_direct.simps) simp
  show ?thesis
  proof (cases "n = 0")
    case True
    have "appended s ino (cells mem 0 n) s ino"
      by (rule appendedI [where p = p and X' = "{blk ino ! 12}" and bs' = ?bs])
        (use own wf sz True extends_refl [OF rep] in simp_all)
    moreover have "write_data k mem (int p) ino (int n) s = Inr (int n, ino, s)"
      by (rule write_data_levels [OF skip]) (simp add: True write_levels_done)
    ultimately show ?thesis using buf by blast
  next
    case False
    have "take 12 ?bs = take 12 (blk ino)" "single_blocks ?bs (index_on (disk s) (blk ino ! 12)) p"
      using take12 [of ?bs "take 12 (blk ino)" "index_on (disk s) (blk ino ! 12)" p] len
      by (simp_all add: single_blocks_def)
    then obtain ino' s' where run: "write_level1 k mem (int p, int n, int 0, ino, s) = Inr (int (p + n), 0, int (0 + n), ino', s')"
      and e: "extends mem 0 s {blk ino ! 12} ?bs p s' (set (index_blocks (disk s') ino')) (file_blocks (disk s') ino') (p + n)"
      and wf': "wf_file s' ino'" and ino': "ino' = ino\<lparr>isize := int (p + n), blk := blk ino'\<rparr>"
      and buf': "length (index_block1 s') = 64"
      using write_single [OF rep len sz buf _ p, of k mem 0] False p3 idle by auto
    have "isize ino' = int (p + n)" by (subst ino') simp
    then have "appended s ino (cells mem 0 n) s' ino'"
      by (intro appendedI [OF e [folded own]]) (use wf' sz ino' in \<open>simp_all\<close>)
    moreover have "write_data k mem (int p) ino (int n) s = Inr (int n, ino', s')"
      by (rule write_data_levels [OF skip]) (use run in simp)
    ultimately show ?thesis using buf' by blast
  qed
qed

lemma wf_file_ok:
  assumes "wf_file s ino"
  shows "file_ok (disk s) ino"
proof -
  have wf: "length (blk ino) = 15" "0 \<le> isize ino" "isize ino \<le> level_end2"
    and rep: "file_rep s (set (index_blocks (disk s) ino)) (file_blocks (disk s) ino) (fsize ino)"
    using assms by (auto simp: wf_file_def)
  have ok: "addr_ok a" if "a \<in> set (index_blocks (disk s) ino) \<union> set (file_blocks (disk s) ino)" for a
    using rep that slot_bounds(3) unfolding file_rep_def own_ok_def by blast
  have 1: "addr_ok (block_addr (disk s) ino b)" if "int b * 256 < isize ino" for b
  proof (rule ok)
    have "b < nblocks (fsize ino)" using that wf(2) by (intro nblocks_ge) (simp add: fsize_def)
    then show "block_addr (disk s) ino b \<in> set (index_blocks (disk s) ino) \<union> set (file_blocks (disk s) ino)"
      by (auto simp: file_blocks_def)
  qed
  have 2: "addr_ok (blk ino ! 12)" if "level_end0 < isize ino" using that by (intro ok) (simp add: index_blocks_def)
  have 3: "addr_ok (blk ino ! 13)" if "level_end1 < isize ino" using that by (intro ok) (simp add: index_blocks_def)
  have 4: "addr_ok (index_on (disk s) (blk ino ! 13) ! i)" if "level_end1 + int i * index_one_size < isize ino" for i
  proof (rule ok)
    let ?N = "nat ((isize ino - level_end1 + 16383) div 16384)"
    have "int i + 1 \<le> (isize ino - level_end1 + 16383) div 16384"
      using zdiv_mono1 [of "(int i + 1) * 16384" "isize ino - level_end1 + 16383" 16384] that by simp
    then have "i < ?N" by linarith
    moreover have "i < 64" using that wf(3) by simp
    ultimately have "index_on (disk s) (blk ino ! 13) ! i \<in> set (take ?N (index_on (disk s) (blk ino ! 13)))"
      by (subst in_set_conv_nth) (auto intro!: exI [of _ i])
    then show "index_on (disk s) (blk ino ! 13) ! i \<in> set (index_blocks (disk s) ino) \<union> set (file_blocks (disk s) ino)"
      using that by (simp add: index_blocks_def)
  qed
  show ?thesis using wf 1 2 3 4 unfolding file_ok_def by auto
qed

text \<open>A file is determined by the bytes of the blocks it owns.\<close>

lemma file_frame:
  assumes wf: "wf_file s ino"
    and same: "\<And>a x. a \<in> file_own (disk s) ino \<Longrightarrow> x \<in> bytes_of a \<Longrightarrow> d' x = disk s x"
  shows "file_blocks d' ino = file_blocks (disk s) ino" and "index_blocks d' ino = index_blocks (disk s) ino"
    and "file_data d' ino = file_data (disk s) ino"
proof -
  let ?d = "disk s"
  have sz: "0 \<le> isize ino" "isize ino \<le> level_end2" using wf by (auto simp: wf_file_def)
  have on: "index_on d' a = index_on ?d a" if "a \<in> set (index_blocks ?d ino)" for a
    using that by (intro index_on_other same) (auto simp: file_own_def)
  have i12: "index_on d' (blk ino ! 12) = index_on ?d (blk ino ! 12)" if "level_end0 < isize ino"
    using that by (intro on) (simp add: index_blocks_def)
  have i13: "index_on d' (blk ino ! 13) = index_on ?d (blk ino ! 13)" if "level_end1 < isize ino"
    using that by (intro on) (simp add: index_blocks_def)
  show "index_blocks d' ino = index_blocks ?d ino" using i13 by (simp add: index_blocks_def)
  have "block_addr d' ino b = block_addr ?d ino b" if b: "b < nblocks (fsize ino)" for b
  proof -
    have bs: "256 * int b < isize ino" using b sz nblocks_le [of "fsize ino" b] by (fastforce simp: fsize_def)
    consider "b < 12" | "12 \<le> b" "b < 76" | "76 \<le> b" by linarith
    then show ?thesis
    proof cases
      case 3
      let ?i = "(b - 76) div 64" and ?N = "nat ((isize ino - level_end1 + 16383) div 16384)"
      have "64 * ?i \<le> b - 76" by simp
      then have "level_end1 + int ?i * 16384 < isize ino" using bs 3 by linarith
      then have "int ?i + 1 \<le> (isize ino - level_end1 + 16383) div 16384"
        using zdiv_mono1 [of "(int ?i + 1) * 16384" "isize ino - level_end1 + 16383" 16384] by simp
      then have "?i < ?N" by linarith
      moreover have "?i < 64" using bs sz(2) by (auto simp: div_less_iff_less_mult)
      ultimately have "index_on ?d (blk ino ! 13) ! ?i \<in> set (take ?N (index_on ?d (blk ino ! 13)))"
        by (subst in_set_conv_nth) (auto intro!: exI [of _ ?i])
      then have "index_on d' (index_on ?d (blk ino ! 13) ! ?i) = index_on ?d (index_on ?d (blk ino ! 13) ! ?i)"
        using bs 3 by (intro on) (simp add: index_blocks_def)
      then show ?thesis using 3 i13 bs by (simp add: block_addr_simps)
    qed (use i12 bs in \<open>auto simp: block_addr_simps\<close>)
  qed
  then show fb: "file_blocks d' ino = file_blocks ?d ino" by (simp add: file_blocks_def)
  have "content d' (file_blocks ?d ino) (fsize ino) = content ?d (file_blocks ?d ino) (fsize ino)"
    using same by (intro content_other) (auto simp: file_own_def file_blocks_def)
  then show "file_data d' ino = file_data ?d ino"
    using content_file_data [of d' ino] content_file_data [of ?d ino] fb by simp
qed

text \<open>Another file, while this one grows.\<close>

lemma wf_other:
  assumes wf: "wf_file s other" and g: "grow s Q s' Q'" and dis: "file_own (disk s) other \<inter> Q = {}"
  shows "wf_file s' other" and "file_data (disk s') other = file_data (disk s) other"
    and "file_own (disk s') other \<inter> Q' = {}"
proof -
  have own: "own_ok s (file_own (disk s) other)"
    using wf by (simp add: wf_file_def file_rep_def file_own_def)
  note keep = grow_other [OF g own dis]
  note frame = file_frame [OF wf keep(3)]
  show "file_data (disk s') other = file_data (disk s) other" by (rule frame(3))
  show "wf_file s' other" using wf keep(1) frame(1,2) by (simp add: wf_file_def file_rep_def file_own_def)
  show "file_own (disk s') other \<inter> Q' = {}" using keep(2) frame(1,2) by (simp add: file_own_def)
qed

lemma read_inode_grow:
  assumes "grow s Q s' Q'" and "0 \<le> i" and "i < 1024"
  shows "read_inode_from_disk i s' = read_inode_from_disk i s"
proof -
  have "cells (disk s') (5120 + nat i * 76) 76 = cells (disk s) (5120 + nat i * 76) 76"
    using assms by (intro cells_cong grow_low [OF assms(1)]) auto
  with assms(2,3) show ?thesis by (simp add: read_inode_eq)
qed

section \<open>Properties\<close>

lemma idle_fs0: "blocks.idle fs0 = 4096"
proof -
  have "{k \<in> block_slots. \<not> block_used fs0 k} = block_of ` {..<4096}"
    by (auto simp: block_slots_def block_used_def fs0_def)
  moreover have "inj_on block_of {..<4096}" by (rule inj_onI) (simp add: block_of_inj)
  ultimately show ?thesis by (simp add: blocks.idle_def card_image)
qed

lemma empty_file [simp]:
  "wf_file fs0 empty_inode" "isize empty_inode = 0" "fsize empty_inode = 0"
  "file_own d empty_inode = {}" "length (index_block1 fs0) = 64" "file_data d empty_inode = []"
  using wf_file_direct(1) [of empty_inode 0 fs0] wf_file_direct(2) [of empty_inode 0 d]
  by (simp_all add: empty_inode_def file_rep_def own_ok_def indices_ok_def fs0_def nblocks_def fsize_def file_data_def)

text \<open>
  C1. Appending: for a well-formed file that stays within the single-indirect level and a disk
  with enough idle blocks, \<open>write_data\<close> at the end of the file stores all the bytes. Afterwards
  the file is well formed and its contents are the old contents followed by the new bytes;
  every other file that shares no block with it is still well formed, has its contents and
  shares no block with it; and the inode table on the disk is untouched.
\<close>

theorem write_data_appends:
  assumes "wf_file s ino" and "0 \<le> n" and "isize ino + n \<le> level_end1" and "length (index_block1 s) = 64"
    and "nblocks (fsize ino + nat n) + 1 \<le> nblocks (fsize ino) + blocks.idle s"
    and "wf_file s other" and "file_own (disk s) other \<inter> file_own (disk s) ino = {}"
  shows "\<exists>ino' s'. write_data k mem (isize ino) ino n s = Inr (n, ino', s') \<and> wf_file s' ino' \<and>
    file_data (disk s') ino' = file_data (disk s) ino @ cells mem 0 (nat n) \<and>
    wf_file s' other \<and> file_data (disk s') other = file_data (disk s) other \<and>
    file_own (disk s') other \<inter> file_own (disk s') ino' = {} \<and>
    (\<forall>i. 0 \<le> i \<and> i < 1024 \<longrightarrow> read_inode_from_disk i s' = read_inode_from_disk i s)"
proof -
  have sz: "isize ino = int (fsize ino)" using assms(1) by (simp add: wf_file_def fsize_def)
  have "fsize ino + nat n \<le> 19456" using assms(2,3) sz by linarith
  from write_data_spec [OF assms(1) sz this assms(4,5), of k mem]
  obtain ino' s' where run: "write_data k mem (isize ino) ino n s = Inr (n, ino', s')"
    and a: "appended s ino (cells mem 0 (nat n)) s' ino'"
    using assms(2) by (auto simp flip: sz)
  then have g: "grow s (file_own (disk s) ino) s' (file_own (disk s') ino')" by (simp add: appended_def)
  show ?thesis
    using run a wf_other [OF assms(6) g assms(7)] read_inode_grow [OF g]
    unfolding appended_def by (intro exI [of _ ino'] exI [of _ s']) blast
qed

theorem write_data_appends_witness:
  "\<exists>ino' s'. write_data True of_nat 0 empty_inode 300 fs0 = Inr (300, ino', s') \<and> wf_file s' ino' \<and>
    file_data (disk s') ino' = cells of_nat 0 300"
  using write_data_appends [of fs0 empty_inode 300 empty_inode True of_nat]
  by (auto simp: idle_fs0 nblocks_def)

text \<open>
  Round trip: what \<open>write_data\<close> appended to a file, a later \<open>read_data\<close> from the old end of
  the file delivers, for any pair of requesters, when no other write came in between.
\<close>

theorem write_read_roundtrip:
  assumes "wf_file s ino" and "0 \<le> n" and "isize ino + n \<le> level_end1" and "length (index_block1 s) = 64"
    and "nblocks (fsize ino + nat n) + 1 \<le> nblocks (fsize ino) + blocks.idle s"
    and "write_data k mem (isize ino) ino n s = Inr (w, ino', s')"
  shows "\<exists>s''. read_data k' (isize ino) ino' n s' = Inr (cells mem 0 (nat n), s'')"
proof -
  have sz: "isize ino = int (fsize ino)" using assms(1) by (simp add: wf_file_def fsize_def)
  have "fsize ino + nat n \<le> 19456" using assms(2,3) sz by linarith
  from write_data_spec [OF assms(1) sz this assms(4,5), of k mem]
  have a: "appended s ino (cells mem 0 (nat n)) s' ino'" using assms(2,6) by (auto simp flip: sz)
  note wf = appendedD(1) [OF a] and d = appendedD(2) [OF a]
  have i: "isize ino' = isize ino + n" using appendedD(4) [OF a] assms(2) by simp
  have "drop (fsize ino) (file_data (disk s') ino') = map (file_byte (disk s') ino') [fsize ino..<fsize ino']"
    by (simp add: file_data_def drop_map)
  then have m: "map (file_byte (disk s') ino') [fsize ino..<fsize ino'] = cells mem 0 (nat n)"
    unfolding d by simp
  have i': "isize ino' = int (fsize ino + nat n)" using i sz assms(2) by linarith
  have e: "min (nat (isize ino')) (fsize ino + nat n) = fsize ino'"
    unfolding fsize_eq [OF i'] unfolding i' nat_int min.idem ..
  obtain s'' where "read_data k' (int (fsize ino)) ino' (int (nat n)) s' =
      Inr (map (file_byte (disk s') ino') [fsize ino..<min (nat (isize ino')) (fsize ino + nat n)], s'')"
  proof -
    have "addr_ok (blk ino' ! 14)" if "level_end1 < isize ino'" using that assms(3) i by linarith
    then show thesis using read_data_spec [OF wf_file_ok [OF wf], of "fsize ino" "nat n" k'] that by blast
  qed
  then show ?thesis using assms(2) unfolding e m sz by auto
qed

theorem write_read_roundtrip_witness:
  "\<exists>ino' s'. write_data True of_nat 0 empty_inode 300 fs0 = Inr (300, ino', s') \<and>
    (\<exists>s''. read_data False 0 ino' 300 s' = Inr (cells of_nat 0 300, s''))"
proof -
  obtain ino' s' where w: "write_data True of_nat 0 empty_inode 300 fs0 = Inr (300, ino', s')"
    using write_data_spec [of fs0 empty_inode 0 300 True of_nat] by (auto simp: idle_fs0 nblocks_def)
  then show ?thesis
    using write_read_roundtrip [of fs0 empty_inode 300 True of_nat 300 ino' s' False]
    by (simp add: idle_fs0 nblocks_def)
qed




end
