(* ===== verification/Fs_Release.thy ===== *)
theory Fs_Release
  imports Fs_Append
begin

text \<open>
  \<open>release_block\<close> of src/kernel/file_system/fm_syscall.c: giving the blocks of a file from
  \<open>file_offset\<close> on back to the bitmap, before the file is cut off there or deleted.
\<close>

section \<open>The loops\<close>

text \<open>
  The innermost loop (lines 561-570, 590-599 and 630-639): an offset inside a block only moves
  on to the next block, whose predecessor stays allocated.
\<close>

function release_indexed :: "int \<Rightarrow> u32 list \<Rightarrow> int \<Rightarrow> int \<Rightarrow> fs \<Rightarrow> (int \<times> fs) exec" where
  "release_indexed min_end idx i fo s =
     (if fo < min_end then
        bindE (idx_at idx i) (\<lambda>ramdisk_offset.
          bindE (if cmod fo BLOCK_SIZE = 0 then set_block_idle ramdisk_offset s else Inr s)
            (release_indexed min_end idx (i + 1) (fo - cmod fo BLOCK_SIZE + BLOCK_SIZE)))
      else Inr (fo, s))"
  by pat_completeness auto
termination
proof (relation "measure (\<lambda>(min_end, idx, i, fo, s). nat (min_end - fo))", goal_cases)
  case (2 min_end idx i fo s x xa)
  have "cmod fo 256 < 256" by (auto simp: cmod_def sgn_if)
  with 2 show ?case by simp
qed simp

declare release_indexed.simps [simp del]

lemma set_block_idle_frame [frame_simps]:
  "set_block_idle a s = Inr s' \<Longrightarrow> index_block1 s' = index_block1 s"
  "set_block_idle a s = Inr s' \<Longrightarrow> index_block2 s' = index_block2 s"
  by (auto simp: set_block_idle_def Let_def)

lemma release_indexed_frame:
  "release_indexed e idx i fo s = Inr (fo', s') \<Longrightarrow>
     index_block1 s' = index_block1 s \<and> index_block2 s' = index_block2 s \<and> disk s' = disk s"
proof (induction e idx i fo s rule: release_indexed.induct)
  case (1 e idx i fo s)
  show ?case
  proof (cases "fo < e")
    case False
    with 1(2) show ?thesis by (simp add: release_indexed.simps)
  next
    case True
    note step = 1(2) [unfolded release_indexed.simps [of e idx i fo s] if_P [OF True]]
    from step obtain a where a: "idx_at idx i = Inr a" by (rule bindE_InrE)
    from step [unfolded a bindE_Inr] obtain s1
      where s1: "(if cmod fo BLOCK_SIZE = 0 then set_block_idle a s else Inr s) = Inr s1"
        and r: "release_indexed e idx (i + 1) (fo - cmod fo BLOCK_SIZE + BLOCK_SIZE) s1 = Inr (fo', s')"
      by (rule bindE_InrE)
    have "index_block1 s1 = index_block1 s \<and> index_block2 s1 = index_block2 s \<and> disk s1 = disk s"
      using s1 by (auto simp: set_block_idle_def Let_def split: if_splits)
    with 1(1) [OF True a s1 r] show ?thesis by simp
  qed
qed

text \<open>Lines 545-552: the direct blocks are left out by an assignment to \<open>file_offset\<close>.\<close>

definition release_direct :: "inode \<Rightarrow> int \<Rightarrow> fs \<Rightarrow> (int \<times> fs) exec" where
  "release_direct ino fo s =
     (if fo < isize ino \<and> fo < level_end0 then
        let fo = level_end0; i = cdiv fo BLOCK_SIZE in
        bindE (if cmod fo BLOCK_SIZE = 0 then bindE (idx_at (blk ino) i) (\<lambda>a. set_block_idle a s) else Inr s)
          (\<lambda>s. Inr (fo - cmod fo BLOCK_SIZE + BLOCK_SIZE, s))
      else Inr (fo, s))"

text \<open>Lines 553-571.\<close>

definition release_level1 :: "inode \<Rightarrow> int \<times> fs \<Rightarrow> (int \<times> fs) exec" where
  "release_level1 ino = (\<lambda>(fo, s).
     if fo < isize ino \<and> fo < level_end1 then
       bindE (idx_at (blk ino) 12) (\<lambda>index_offset1. bindE (load1 index_offset1 s) (\<lambda>s.
         bindE (if fo = level_end0 then set_block_idle index_offset1 s else Inr s) (\<lambda>s.
           release_indexed (min (isize ino) level_end1) (index_block1 s)
             (cdiv (fo - level_end0) BLOCK_SIZE) fo s)))
     else Inr (fo, s))"

text \<open>Lines 572-602.\<close>

function release_outer2 :: "int \<Rightarrow> int \<Rightarrow> int \<Rightarrow> fs \<Rightarrow> (int \<times> fs) exec" where
  "release_outer2 sz i fo s =
     (if fo < min sz level_end2 then
        bindE (idx_at (index_block1 s) i) (\<lambda>index_offset2. bindE (load2 index_offset2 s) (\<lambda>s.
          let temp_end = level_end1 + (i + 1) * index_one_size;
              min_end2 = min sz temp_end;
              start = temp_end - index_one_size in
          bindE (if fo = start then set_block_idle index_offset2 s else Inr s) (\<lambda>s.
            bindE (release_indexed min_end2 (index_block2 s) (cdiv (fo - start) BLOCK_SIZE) fo s)
              (\<lambda>(fo, s). release_outer2 sz (i + 1) fo s))))
      else Inr (fo, s))"
  by pat_completeness auto
termination
  by (relation "measure (\<lambda>(sz, i, fo, s). nat (int (length (index_block1 s)) - i))")
    (auto dest!: idx_at_InrD release_indexed_frame simp: frame_simps split: if_splits)

declare release_outer2.simps [simp del]

definition release_level2 :: "inode \<Rightarrow> int \<times> fs \<Rightarrow> (int \<times> fs) exec" where
  "release_level2 ino = (\<lambda>(fo, s).
     if fo < isize ino \<and> fo < level_end2 then
       bindE (idx_at (blk ino) 13) (\<lambda>index_offset1. bindE (load1 index_offset1 s) (\<lambda>s.
         bindE (if fo = level_end1 then set_block_idle index_offset1 s else Inr s) (\<lambda>s.
           release_outer2 (isize ino) (cdiv (fo - level_end1) index_one_size) fo s)))
     else Inr (fo, s))"

text \<open>
  Lines 620-641 and 603-644. The index \<open>k\<close> is computed from the start of the outer entry
  (\<open>temp_end1\<close>, line 629), not of the middle one.
\<close>

lemma load3_frame: "load3 a s = Inr s' \<Longrightarrow> index_block1 s' = index_block1 s \<and> index_block2 s' = index_block2 s"
  by (auto simp: load3_def bindE_eq_Inr_iff)

function release_middle3 :: "int \<Rightarrow> int \<Rightarrow> int \<Rightarrow> int \<Rightarrow> fs \<Rightarrow> (int \<times> fs) exec" where
  "release_middle3 sz i j fo s =
     (if fo < min sz (level_end2 + (i + 1) * index_two_size) then
        bindE (idx_at (index_block2 s) j) (\<lambda>index_offset3. bindE (load3 index_offset3 s) (\<lambda>s.
          let temp_end2 = level_end2 + i * index_two_size + (j + 1) * index_one_size;
              min_end2 = min sz temp_end2;
              start = temp_end2 - index_one_size;
              temp_end1 = level_end2 + i * index_two_size in
          bindE (if fo = start then set_block_idle index_offset3 s else Inr s) (\<lambda>s.
            bindE (release_indexed min_end2 (index_block3 s) (cdiv (fo - temp_end1) BLOCK_SIZE) fo s)
              (\<lambda>(fo, s). release_middle3 sz i (j + 1) fo s))))
      else Inr (fo, s))"
  by pat_completeness auto
termination
  by (relation "measure (\<lambda>(sz, i, j, fo, s). nat (int (length (index_block2 s)) - j))")
    (auto dest!: idx_at_InrD release_indexed_frame load3_frame simp: frame_simps split: if_splits)

declare release_middle3.simps [simp del]

lemma release_middle3_frame:
  "release_middle3 sz i j fo s = Inr (fo', s') \<Longrightarrow> index_block1 s' = index_block1 s"
proof (induction "nat (int (length (index_block2 s)) - j)" arbitrary: j fo s rule: less_induct)
  case less
  show ?case
  proof (cases "fo < min sz (level_end2 + (i + 1) * index_two_size)")
    case False
    then show ?thesis using less.prems [unfolded release_middle3.simps [of sz i j fo s] if_not_P [OF False]] by simp
  next
    case True
    let ?start = "level_end2 + i * index_two_size + (j + 1) * index_one_size - index_one_size"
    note step = less.prems [unfolded release_middle3.simps [of sz i j fo s] if_P [OF True] Let_def]
    from step obtain a where a: "idx_at (index_block2 s) j = Inr a" by (rule bindE_InrE)
    from step [unfolded a bindE_Inr] obtain s1 where s1: "load3 a s = Inr s1" by (rule bindE_InrE)
    from step [unfolded a bindE_Inr s1] obtain s2
      where s2: "(if fo = ?start then set_block_idle a s1 else Inr s1) = Inr s2" by (rule bindE_InrE)
    from step [unfolded a bindE_Inr s1 s2] obtain fo3 s3 where
      s3: "release_indexed (min sz (level_end2 + i * index_two_size + (j + 1) * index_one_size)) (index_block3 s2)
        (cdiv (fo - (level_end2 + i * index_two_size)) BLOCK_SIZE) fo s2 = Inr (fo3, s3)"
      and r: "release_middle3 sz i (j + 1) fo3 s3 = Inr (fo', s')"
      by (rule bindE_InrE) auto
    have "index_block1 s3 = index_block1 s" "length (index_block2 s3) = length (index_block2 s)"
      using s1 s2 release_indexed_frame [OF s3]
      by (auto simp: load3_def bindE_eq_Inr_iff set_block_idle_def Let_def split: if_splits)
    then show ?thesis using less.hyps [OF _ r] idx_at_InrD [OF a] by auto
  qed
qed

function release_outer3 :: "int \<Rightarrow> int \<Rightarrow> int \<Rightarrow> fs \<Rightarrow> (int \<times> fs) exec" where
  "release_outer3 sz i fo s =
     (if fo < sz then
        bindE (idx_at (index_block1 s) i) (\<lambda>index_offset2. bindE (load2 index_offset2 s) (\<lambda>s.
          let start = level_end2 + i * index_two_size in
          bindE (if fo = start then set_block_idle index_offset2 s else Inr s) (\<lambda>s.
            bindE (release_middle3 sz i (cdiv (fo - start) index_one_size) fo s)
              (\<lambda>(fo, s). release_outer3 sz (i + 1) fo s))))
      else Inr (fo, s))"
  by pat_completeness auto
termination
  by (relation "measure (\<lambda>(sz, i, fo, s). nat (int (length (index_block1 s)) - i))")
    (auto dest!: idx_at_InrD release_middle3_frame simp: frame_simps split: if_splits)

declare release_outer3.simps [simp del]

definition release_level3 :: "inode \<Rightarrow> int \<times> fs \<Rightarrow> (int \<times> fs) exec" where
  "release_level3 ino = (\<lambda>(fo, s).
     if fo < isize ino then
       bindE (idx_at (blk ino) 14) (\<lambda>index_offset1. bindE (load1 index_offset1 s) (\<lambda>s.
         bindE (if fo = level_end2 then set_block_idle index_offset1 s else Inr s) (\<lambda>s.
           release_outer3 (isize ino) (cdiv (fo - level_end2) index_two_size) fo s)))
     else Inr (fo, s))"

definition release_block :: "inode \<Rightarrow> int \<Rightarrow> fs \<Rightarrow> fs exec" where
  "release_block ino file_offset s =
     bindE (release_direct ino file_offset s) (\<lambda>r.
     bindE (release_level1 ino r) (\<lambda>r.
     bindE (release_level2 ino r) (\<lambda>r.
     bindE (release_level3 ino r) (\<lambda>(fo, s). Inr s))))"

section \<open>What is given back\<close>

lemma set_block_idle_ok:
  "a \<in> block_slots \<Longrightarrow> set_block_idle a s = Inr (s\<lparr>block_bitmap := (block_bitmap s)(block_no a := 0)\<rparr>)"
  by (auto simp: set_block_idle_def block_slots_def simp flip: block_no_def)

lemma block_no_inj: "a \<in> block_slots \<Longrightarrow> b \<in> block_slots \<Longrightarrow> block_no a = block_no b \<longleftrightarrow> a = b"
  by (auto simp: block_slots_def)

text \<open>\<open>idle_map m F\<close>: the bitmap \<open>m\<close> with the slots of \<open>F\<close> idle.\<close>

definition idle_map :: "(nat \<Rightarrow> u8) \<Rightarrow> u32 set \<Rightarrow> nat \<Rightarrow> u8" where
  "idle_map m F = (\<lambda>i. if i \<in> block_no ` F then 0 else m i)"

lemma idle_map_empty [simp]: "idle_map m {} = m"
  by (simp add: idle_map_def)

lemma idle_map_insert: "idle_map (m(block_no a := 0)) F = idle_map m (insert a F)"
  by (auto simp: idle_map_def)

lemma block_used_idle_map:
  "a \<in> block_slots \<Longrightarrow> F \<subseteq> block_slots \<Longrightarrow>
     block_used (s\<lparr>block_bitmap := idle_map (block_bitmap s) F\<rparr>) a \<longleftrightarrow> block_used s a \<and> a \<notin> F"
  using block_no_inj by (auto simp: block_used_def idle_map_def image_iff subset_eq)

lemma cmod_int: "cmod (int p) 256 = int (p mod 256)"
  by (simp add: zmod_int)

lemma release_indexed_spec:
  assumes len: "length idx = 64" and B: "256 * B \<le> p" and e: "e \<le> 256 * (B + 64)"
    and i: "p < e \<Longrightarrow> i = int (p div 256 - B)"
    and slots: "\<And>b. B \<le> b \<Longrightarrow> 256 * b < e \<Longrightarrow> idx ! (b - B) \<in> block_slots"
  shows "\<exists>fo'. release_indexed (int e) idx i (int p) s =
    Inr (int fo', s\<lparr>block_bitmap := idle_map (block_bitmap s) ((\<lambda>b. idx ! (b - B)) ` {nblocks p..<nblocks e})\<rparr>) \<and> e \<le> fo'"
  using B i
proof (induction "e - p" arbitrary: p i s rule: less_induct)
  case less
  show ?case
  proof (cases "p < e")
    case False
    then have "{nblocks p..<nblocks e} = {}" using nblocks_mono [of e p] by simp
    with False show ?thesis by (intro exI [of _ p]) (simp add: release_indexed.simps)
  next
    case True
    define b where "b = p div 256"
    have b: "B \<le> b" "256 * b \<le> p" "p < 256 * Suc b"
      using less.prems(1) by (simp_all add: b_def less_eq_div_iff_mult_less_eq mult.commute dividend_less_times_div)
    have "256 * b < 256 * (B + 64)" using b True e by linarith
    then have "b < B + 64" by simp
    then have bB: "b - B < 64" using b(1) by simp
    have at: "idx_at idx i = Inr (idx ! (b - B))"
      using less.prems(2) [OF True] bB len by (simp add: idx_at_def b_def)
    have slot: "idx ! (b - B) \<in> block_slots" using slots b True by simp
    have p': "p - p mod 256 + 256 = 256 * Suc b" by (simp add: b_def minus_mod_eq_mult_div)
    have next': "int p - cmod (int p) 256 + 256 = int (256 * Suc b)"
      unfolding cmod_int using p' by (simp add: of_nat_diff flip: p')
    have nb': "nblocks (256 * Suc b) = Suc b" by (simp add: nblocks_eq)
    have lt: "b < nblocks e" using nblocks_ge [of b e] b True by simp
    define s1 where "s1 = (if p mod 256 = 0 then s\<lparr>block_bitmap := (block_bitmap s)(block_no (idx ! (b - B)) := 0)\<rparr> else s)"
    have s1: "(if cmod (int p) 256 = 0 then set_block_idle (idx ! (b - B)) s else Inr s) = Inr s1"
      by (simp add: s1_def cmod256 set_block_idle_ok [OF slot] del: cmod_nonneg)
    obtain fo' where run: "release_indexed (int e) idx (i + 1) (int (256 * Suc b)) s1 =
        Inr (int fo', s1\<lparr>block_bitmap := idle_map (block_bitmap s1) ((\<lambda>b. idx ! (b - B)) ` {Suc b..<nblocks e})\<rparr>)"
      and fo': "e \<le> fo'"
    proof -
      have "\<exists>fo'. release_indexed (int e) idx (i + 1) (int (256 * Suc b)) s1 =
        Inr (int fo', s1\<lparr>block_bitmap := idle_map (block_bitmap s1) ((\<lambda>b. idx ! (b - B)) ` {nblocks (256 * Suc b)..<nblocks e})\<rparr>) \<and> e \<le> fo'"
      proof (rule less.hyps)
        show "e - 256 * Suc b < e - p" using b True by linarith
        show "256 * B \<le> 256 * Suc b" using b by simp
        show "i + 1 = int (256 * Suc b div 256 - B)" using less.prems(2) [OF True] b by (simp add: b_def Suc_diff_le)
      qed
      then show thesis using that unfolding nb' by blast
    qed
    have "s1\<lparr>block_bitmap := idle_map (block_bitmap s1) ((\<lambda>b. idx ! (b - B)) ` {Suc b..<nblocks e})\<rparr> =
      s\<lparr>block_bitmap := idle_map (block_bitmap s) ((\<lambda>b. idx ! (b - B)) ` {nblocks p..<nblocks e})\<rparr>"
    proof (cases "p mod 256 = 0")
      case z: True
      then have "nblocks p = b" by (simp add: nblocks_eq b_def)
      moreover have "{b..<nblocks e} = insert b {Suc b..<nblocks e}" using lt by auto
      ultimately show ?thesis using z by (simp add: s1_def idle_map_insert)
    next
      case False
      then have "nblocks p = Suc b" by (simp add: nblocks_eq b_def)
      with False show ?thesis by (simp add: s1_def)
    qed
    moreover have "int p < int e" using True by simp
    ultimately show ?thesis using run fo'
      by (subst release_indexed.simps) (simp only: if_True bindE_Inr at s1 next', blast)
  qed
qed

lemma content_take:
  "p \<le> e \<Longrightarrow> content d (take (nblocks p) bs) p = take p (content d bs e)"
  by (rule nth_equalityI) (auto simp: content_def nblocks_less)

section \<open>Cutting the single-indirect level\<close>

text \<open>What becomes idle when a file is cut to \<open>p\<close> bytes, and the state after that.\<close>

definition freed :: "disk \<Rightarrow> inode \<Rightarrow> nat \<Rightarrow> u32 set" where
  "freed d ino p = set (drop (nblocks p) (file_blocks d ino)) \<union> (if p = 3072 then {blk ino ! 12} else {})"

definition cut_state :: "inode \<Rightarrow> nat \<Rightarrow> fs \<Rightarrow> fs" where
  "cut_state ino p s = s\<lparr>index_block1 := index_on (disk s) (blk ino ! 12),
     block_bitmap := idle_map (block_bitmap s) (freed (disk s) ino p)\<rparr>"

lemma cut_state_sel [simp]:
  "disk (cut_state ino p s) = disk s" "length (index_block1 (cut_state ino p s)) = 64" "fs_rest (cut_state ino p s) = fs_rest s"
  by (simp_all add: cut_state_def fs_rest_def)

text \<open>The blocks of a file that ends in its single-indirect level.\<close>

lemma single_file:
  assumes "wf_file s ino" and "isize ino = int e" and "3072 < e" and "e \<le> 19456"
  shows "file_rep s {blk ino ! 12} (file_blocks (disk s) ino) e"
    and "file_blocks (disk s) ino = indexed_blocks (take 12 (blk ino)) (index_on (disk s) (blk ino ! 12)) e"
    and "length (blk ino) = 15" and "nblocks e \<le> 76" and "blk ino ! 12 \<in> block_slots"
proof -
  show len: "length (blk ino) = 15" using assms(1) by (simp add: wf_file_def)
  show fb: "file_blocks (disk s) ino = indexed_blocks (take 12 (blk ino)) (index_on (disk s) (blk ino ! 12)) e"
    using file_blocks_single [OF len assms(2)] assms by simp
  show rep: "file_rep s {blk ino ! 12} (file_blocks (disk s) ino) e"
    using assms(1) wf_file_single(1) [OF len assms(2), of s] assms(3,4) by (simp add: fb)
  show "nblocks e \<le> 76" using nblocks_le [of e 76] assms(4) by simp
  show "blk ino ! 12 \<in> block_slots" using rep by (auto simp: file_rep_def own_ok_def)
qed

lemma single_index:
  assumes "wf_file s ino" and "isize ino = int e" and "3072 < e" and "e \<le> 19456" and "12 \<le> b" and "b < nblocks e"
  shows "index_on (disk s) (blk ino ! 12) ! (b - 12) = file_blocks (disk s) ino ! b" and "file_blocks (disk s) ino ! b \<in> block_slots"
proof -
  note f = single_file [OF assms(1-4)]
  show "index_on (disk s) (blk ino ! 12) ! (b - 12) = file_blocks (disk s) ino ! b"
    using indexed_nth [of "take 12 (blk ino)" b e "index_on (disk s) (blk ino ! 12)"] assms(5,6) f(3,4) by (simp add: f(2))
  show "file_blocks (disk s) ino ! b \<in> block_slots" using f(1) assms(6) by (auto simp: file_rep_def own_ok_def)
qed

lemma tail_blocks:
  assumes "length bs = m" and "\<And>b. n \<le> b \<Longrightarrow> b < m \<Longrightarrow> f b = bs ! b"
  shows "f ` {n..<m} = set (drop n bs)"
proof -
  have "drop n bs = map ((!) bs) [n..<m]" using assms(1) by (intro nth_equalityI) auto
  then show ?thesis using assms(2) by (auto simp: image_iff intro!: bexI)
qed

lemma release_level1_cut:
  assumes "wf_file s ino" and "isize ino = int e" and "3072 \<le> p" and "p < e" and "e \<le> 19456"
  shows "\<exists>fo'. release_level1 ino (int p, s) = Inr (int fo', cut_state ino p s) \<and> e \<le> fo'"
proof -
  have e: "3072 < e" using assms by linarith
  note f = single_file [OF assms(1,2) e assms(5)] and at = single_index [OF assms(1,2) e assms(5)]
  define ib where "ib = index_on (disk s) (blk ino ! 12)"
  define Z where "Z = (if p = 3072 then {blk ino ! 12} else {})"
  define s1 where "s1 = s\<lparr>index_block1 := ib\<rparr>"
  define s2 where "s2 = s1\<lparr>block_bitmap := idle_map (block_bitmap s) Z\<rparr>"
  let ?F = "set (drop (nblocks p) (file_blocks (disk s) ino))"
  have "12 \<le> nblocks p" using nblocks_mono [of 3072 p] assms(3) by simp
  then have F: "(\<lambda>b. ib ! (b - 12)) ` {nblocks p..<nblocks e} = ?F"
    using at f(1) by (intro tail_blocks) (auto simp: file_rep_def ib_def)
  have slot: "ib ! (b - 12) \<in> block_slots" if "12 \<le> b" "256 * b < e" for b
    using at [OF that(1) nblocks_ge [OF that(2)]] by (simp add: ib_def)
  have z: "(if int p = level_end0 then set_block_idle (blk ino ! 12) s1 else Inr s1) = Inr s2"
    by (simp add: set_block_idle_ok [OF f(5)] s2_def s1_def Z_def idle_map_def fun_eq_iff)
  have "s2\<lparr>block_bitmap := idle_map (block_bitmap s2) ?F\<rparr> = cut_state ino p s"
    by (simp add: s2_def s1_def ib_def cut_state_def freed_def Z_def idle_map_def image_Un fun_eq_iff)
  then obtain fo' where loop: "release_indexed (int e) ib (int (p div 256 - 12)) (int p) s2 = Inr (int fo', cut_state ino p s)"
    and fo': "e \<le> fo'"
    using release_indexed_spec [of ib 12 p e "int (p div 256 - 12)" s2, unfolded F, OF _ _ _ refl slot] assms(3,5)
    by (auto simp: ib_def)
  have "int p - level_end0 = int (p - 3072)" using assms(3) by simp
  then have div: "cdiv (int p - level_end0) BLOCK_SIZE = int (p div 256 - 12)"
    using div_sub_blocks [of p 12] by (simp only: cdiv_int)
  have "idx_at (blk ino) 12 = Inr (blk ino ! 12)" using f(3) by (simp add: idx_at_def)
  moreover have "load1 (blk ino ! 12) s = Inr s1" using slot_bounds(3) [OF f(5)] by (simp add: s1_def ib_def)
  moreover have "index_block1 s2 = ib" by (simp add: s2_def s1_def)
  moreover have "min (isize ino) level_end1 = int e" "int p < isize ino \<and> int p < level_end1" using assms by auto
  ultimately have "release_level1 ino (int p, s) = Inr (int fo', cut_state ino p s)"
    using loop by (simp only: release_level1_def prod.case if_True simp_thms bindE_Inr z div)
  then show ?thesis using fo' by blast
qed

lemma release_block_cut:
  assumes "wf_file s ino" and "isize ino = int e" and "3072 \<le> p" and "p < e" and "e \<le> 19456"
  shows "release_block ino (int p) s = Inr (cut_state ino p s)"
proof -
  obtain fo' where l1: "release_level1 ino (int p, s) = Inr (int fo', cut_state ino p s)" and fo': "e \<le> fo'"
    using release_level1_cut [OF assms] by blast
  have "release_direct ino (int p) s = Inr (int p, s)" using assms(3) by (simp add: release_direct_def)
  moreover have "release_level2 ino (int fo', t) = Inr (int fo', t)" "release_level3 ino (int fo', t) = Inr (int fo', t)" for t
    using fo' assms(2) by (simp_all add: release_level2_def release_level3_def)
  ultimately show ?thesis using l1 by (simp add: release_block_def)
qed

text \<open>After the cut the file owns the blocks before it.\<close>

lemma cut_used:
  assumes "wf_file s ino" and "isize ino = int e" and "3072 < e" and "e \<le> 19456" and "a \<in> block_slots"
  shows "block_used (cut_state ino p s) a \<longleftrightarrow> block_used s a \<and> a \<notin> freed (disk s) ino p"
proof -
  note f = single_file [OF assms(1-4)]
  have "freed (disk s) ino p \<subseteq> block_slots"
    using f(1,5) set_drop_subset [of "nblocks p" "file_blocks (disk s) ino"] by (auto simp: freed_def file_rep_def own_ok_def)
  from block_used_idle_map [OF assms(5) this, of "s\<lparr>index_block1 := index_on (disk s) (blk ino ! 12)\<rparr>"]
  show ?thesis by (simp add: cut_state_def block_used_def)
qed

lemma own_less:
  assumes "own_ok s Q" and "Q' \<subseteq> Q" and "Q' \<inter> F = {}" and "indices_ok s'"
    and "\<And>a. a \<in> block_slots \<Longrightarrow> block_used s' a \<longleftrightarrow> block_used s a \<and> a \<notin> F"
  shows "own_ok s' Q'"
  using assms unfolding own_ok_def by blast

lemma cut_rep:
  assumes "wf_file s ino" and "isize ino = int e" and "3072 \<le> p" and "p < e" and "e \<le> 19456"
  shows "file_rep (cut_state ino p s) (if p = 3072 then {} else {blk ino ! 12}) (take (nblocks p) (file_blocks (disk s) ino)) p"
proof -
  have e: "3072 < e" using assms by linarith
  note f = single_file [OF assms(1,2) e assms(5)] and used = cut_used [OF assms(1,2) e assms(5)]
  let ?bs = "file_blocks (disk s) ino" and ?F = "freed (disk s) ino p" and ?X = "if p = 3072 then {} else {blk ino ! 12}"
  have own: "own_ok s ({blk ino ! 12} \<union> set ?bs)" and dist: "distinct ?bs" "blk ino ! 12 \<notin> set ?bs" and len: "length ?bs = nblocks e"
    using f(1) by (auto simp: file_rep_def)
  have "set (take (nblocks p) ?bs) \<inter> set (drop (nblocks p) ?bs) = {}" using dist(1) by (simp add: set_take_disj_set_drop_if_distinct)
  then have "(?X \<union> set (take (nblocks p) ?bs)) \<inter> ?F = {}"
    using dist set_take_subset [of "nblocks p" ?bs] set_drop_subset [of "nblocks p" ?bs] by (auto simp: freed_def split: if_splits)
  moreover have "?X \<union> set (take (nblocks p) ?bs) \<subseteq> {blk ino ! 12} \<union> set ?bs" using set_take_subset [of "nblocks p" ?bs] by auto
  moreover have "indices_ok (cut_state ino p s)" using own by (simp add: own_ok_def indices_ok_def cut_state_def)
  ultimately have "own_ok (cut_state ino p s) (?X \<union> set (take (nblocks p) ?bs))"
    using own_less [OF own _ _ _ used] by blast
  moreover have "nblocks p \<le> nblocks e" using nblocks_mono [of p e] assms(4) by simp
  ultimately show ?thesis using dist len set_take_subset [of "nblocks p" ?bs] by (auto simp: file_rep_def)
qed

lemma cut_wf:
  assumes "wf_file s ino" and "isize ino = int e" and "3072 \<le> p" and "p < e" and "e \<le> 19456"
  shows "wf_file (cut_state ino p s) (ino\<lparr>isize := int p\<rparr>)"
    and "file_data (disk s) (ino\<lparr>isize := int p\<rparr>) = take p (file_data (disk s) ino)"
    and "file_own (disk s) (ino\<lparr>isize := int p\<rparr>) \<subseteq> file_own (disk s) ino"
proof -
  have e: "3072 < e" using assms by linarith
  note f = single_file [OF assms(1,2) e assms(5)] and rep = cut_rep [OF assms]
  let ?ino = "ino\<lparr>isize := int p\<rparr>" and ?keep = "take (nblocks p) (file_blocks (disk s) ino)"
  have i: "length (blk ?ino) = 15" "isize ?ino = int p" using f(3) by simp_all
  have nb: "12 \<le> nblocks p" "nblocks p \<le> nblocks e" using nblocks_mono [of 3072 p] nblocks_mono [of p e] assms(3,4) by simp_all
  have keep: "?keep = (if p = 3072 then take (nblocks p) (blk ino) else indexed_blocks (take 12 (blk ino)) (index_on (disk s) (blk ino ! 12)) p)"
    using nb f(3) by (auto simp: f(2) indexed_blocks_def take_take min_def)
  have w: "wf_file (cut_state ino p s) ?ino \<and> file_blocks (disk s) ?ino = ?keep"
  proof (cases "p = 3072")
    case True
    then show ?thesis using wf_file_direct(1) [OF i, of "cut_state ino p s"] file_blocks_direct [OF i, of "disk s"] rep keep by simp
  next
    case False
    then show ?thesis using wf_file_single(1) [OF i, of "cut_state ino p s"] file_blocks_single [OF i, of "disk s"] rep keep assms
      by simp
  qed
  then show "wf_file (cut_state ino p s) ?ino" by simp
  have "set (index_blocks (disk s) ?ino) \<subseteq> set (index_blocks (disk s) ino)" using assms by (simp add: index_blocks_def)
  then show "file_own (disk s) ?ino \<subseteq> file_own (disk s) ino"
    using w set_take_subset [of "nblocks p" "file_blocks (disk s) ino"] by (auto simp: file_own_def)
  have "fsize ino = e" "fsize ?ino = p" using assms(2) by (simp_all add: fsize_def)
  then show "file_data (disk s) ?ino = take p (file_data (disk s) ino)"
    using content_file_data [of "disk s" ?ino] content_file_data [of "disk s" ino]
      content_take [of p e "disk s" "file_blocks (disk s) ino"] assms(4) w by simp
qed

section \<open>Properties\<close>

text \<open>
  A file of at most twelve blocks: whatever the offset, \<open>release_block\<close> gives back none of
  its direct blocks and instead marks the block in \<open>index[12]\<close> idle, an entry such a file never
  set; with the value 0 there the bitmap is written out of bounds.
\<close>

theorem release_small_file:
  assumes "length (blk ino) = 15" and "fo < isize ino" and "isize ino \<le> level_end0"
  shows "release_block ino fo s = set_block_idle (blk ino ! 12) s \<and>
    (blk ino ! 12 = 0 \<longrightarrow> release_block ino fo s = Inl OutOfRange)"
proof -
  have "release_direct ino fo s = bindE (set_block_idle (blk ino ! 12) s) (\<lambda>s. Inr (3328, s))"
    using assms by (simp add: release_direct_def idx_at_def Let_def)
  moreover have "release_level1 ino (3328, t) = Inr (3328, t)" "release_level2 ino (3328, t) = Inr (3328, t)"
    "release_level3 ino (3328, t) = Inr (3328, t)" for t
    using assms(3) by (simp_all add: release_level1_def release_level2_def release_level3_def)
  ultimately have "release_block ino fo s = set_block_idle (blk ino ! 12) s"
    by (simp add: release_block_def bindE_assoc) (simp add: bindE_def split: sum.splits)
  moreover have "set_block_idle 0 s = Inl OutOfRange"
    by (simp add: set_block_idle_def Let_def u32_of_def unat_div)
  ultimately show ?thesis by simp
qed

theorem release_small_file_witness: "release_block (empty_inode\<lparr>isize := 700\<rparr>) 0 fs0 = Inl OutOfRange"
  by (rule release_small_file [THEN conjunct2, THEN mp]) (simp_all add: empty_inode_def)

text \<open>
  C21. Cutting a file back within its single-indirect level: \<open>release_block\<close> gives back exactly
  the data blocks behind the cut, together with the index block when nothing of the level is
  left, and writes nothing on the disk; the shorter file is well formed and has the first
  \<open>fo\<close> bytes of the old contents.
\<close>

theorem release_tail:
  assumes "wf_file s ino" and "level_end0 \<le> fo" and "fo < isize ino" and "isize ino \<le> level_end1"
  shows "\<exists>s'. release_block ino fo s = Inr s' \<and> disk s' = disk s \<and>
    (\<forall>a \<in> block_slots. block_used s' a \<longleftrightarrow> block_used s a \<and>
       a \<notin> set (drop (nblocks (nat fo)) (file_blocks (disk s) ino)) \<and> \<not> (fo = level_end0 \<and> a = blk ino ! 12)) \<and>
    wf_file s' (ino\<lparr>isize := fo\<rparr>) \<and> file_data (disk s') (ino\<lparr>isize := fo\<rparr>) = take (nat fo) (file_data (disk s) ino)"
proof -
  define p where "p = nat fo"
  define e where "e = fsize ino"
  have fo: "fo = int p" and sz: "isize ino = int e" using assms by (auto simp: p_def e_def fsize_def)
  have pe: "3072 \<le> p" "p < e" "e \<le> 19456" using assms fo sz by auto
  note w = cut_wf [OF assms(1) sz pe] and run = release_block_cut [OF assms(1) sz pe]
  have "block_used (cut_state ino p s) a \<longleftrightarrow> block_used s a \<and>
      a \<notin> set (drop (nblocks (nat fo)) (file_blocks (disk s) ino)) \<and> \<not> (fo = level_end0 \<and> a = blk ino ! 12)"
    if "a \<in> block_slots" for a
    using cut_used [OF assms(1) sz _ pe(3) that, of p] pe by (auto simp: fo freed_def)
  with run w show ?thesis by (intro exI [of _ "cut_state ino p s"]) (simp add: fo)
qed

text \<open>A file whose first block of the single-indirect level is in use.\<close>

definition cut_inode :: inode where
  "cut_inode = \<lparr>isize = 3200, itype = PLAIN, idev = 0, ilink = 1, blk = map block_of [0..<15]\<rparr>"

definition cut_fs :: fs where
  "cut_fs = fs0\<lparr>block_bitmap := (\<lambda>i. if i < 14 then 1 else 0),
     disk := patch (\<lambda>_. 0) (82944 + 12 * 256) (u32_bytes (block_of 13))\<rparr>"

lemma cut_file: "wf_file cut_fs cut_inode"
proof -
  have l: "length (blk cut_inode) = 15" "isize cut_inode = int 3200" by (simp_all add: cut_inode_def)
  have "cells (disk cut_fs) (86016 :: nat) 4 = u32_bytes (block_of 13)"
    using cells_patch_same [of "\<lambda>_. 0" 86016 "u32_bytes (block_of 13)"] by (simp add: cut_fs_def fs0_def)
  then have "cells (disk cut_fs) 86016 256 = u32_bytes (block_of 13) @ cells (disk cut_fs) 86020 252"
    using cells_add [of "disk cut_fs" 86016 4 252] by simp
  then have "index_on (disk cut_fs) (block_of 12) ! 0 = block_of 13"
    by (simp add: index_on_def unat_block_of u32_bytes_def bytes_u32_roundtrip)
  then have b: "take 1 (index_on (disk cut_fs) (block_of 12)) = [block_of 13]"
    using length_index_on [of "disk cut_fs" "block_of 12"] by (cases "index_on (disk cut_fs) (block_of 12)") auto
  have "nblocks 3200 = 13" by (simp add: nblocks_def)
  then have "indexed_blocks (take 12 (blk cut_inode)) (index_on (disk cut_fs) (blk cut_inode ! 12)) 3200 =
      map block_of ([0..<12] @ [13])"
    using b by (simp add: indexed_blocks_def cut_inode_def take_map)
  moreover have "file_rep cut_fs {block_of 12} (map block_of ([0..<12] @ [13])) 3200"
    unfolding file_rep_def own_ok_def
  proof (intro conjI)
    show "distinct (map block_of ([0..<12] @ [13]))"
      by (subst distinct_map) (auto intro!: inj_onI simp: block_of_inj)
    show "{block_of 12} \<inter> set (map block_of ([0..<12] @ [13])) = {}"
      by (auto simp: block_of_inj)
  qed (auto simp: indices_ok_def cut_fs_def fs0_def block_slots_def block_used_def nblocks_def)
  moreover have "blk cut_inode ! 12 = block_of 12" by (simp add: cut_inode_def)
  ultimately show ?thesis using wf_file_single(1) [OF l, of cut_fs] by simp
qed

theorem release_tail_witness:
  "\<exists>s'. release_block cut_inode 3100 cut_fs = Inr s' \<and> wf_file s' (cut_inode\<lparr>isize := 3100\<rparr>)"
  using release_tail [OF cut_file, of 3100] by (auto simp: cut_inode_def)

end
