(* ===== verification/Fs_Dir.thy ===== *)
theory Fs_Dir
  imports Fs_Release
begin

text \<open>
  Directories (src/kernel/file_system/fm_syscall.c): a directory is a file of 36-byte entries,
  each a name of 32 bytes and an inode number, read in chunks of seven entries through one of
  twenty block buffers. A \<open>char *\<close> is the list of bytes from the pointer to the end of its
  object, as in C_String.
\<close>

section \<open>Block buffers\<close>

definition get_free_block_buffer :: "fs \<Rightarrow> nat option \<times> fs" where
  "get_free_block_buffer s =
     (case find (\<lambda>i. \<not> block_buf_flag s ! i) [0..<20] of
        None \<Rightarrow> (None, s)
      | Some i \<Rightarrow> (Some i, s\<lparr>block_buf_flag := (block_buf_flag s)[i := True]\<rparr>))"

text \<open>Freeing \<open>NULL\<close> writes at a wild index.\<close>

definition free_block_buffer :: "nat option \<Rightarrow> fs \<Rightarrow> fs exec" where
  "free_block_buffer b s =
     (case b of None \<Rightarrow> Inl OutOfRange
      | Some i \<Rightarrow> Inr (s\<lparr>block_buf_flag := (block_buf_flag s)[i := False]\<rparr>))"

text \<open>\<open>(BLOCK_SIZE / sizeof(dir_entry)) * sizeof(dir_entry)\<close>\<close>

abbreviation dir_chunk :: int where "dir_chunk \<equiv> 252"
abbreviation dirent_size :: int where "dirent_size \<equiv> 36"

definition the_buf :: "nat option \<Rightarrow> fs \<Rightarrow> u8 list" where
  "the_buf b s = (case b of None \<Rightarrow> [] | Some i \<Rightarrow> block_buf s i)"

text \<open>\<open>read_data(current->pid, offset, &inode, block_buf, len)\<close>\<close>

definition read_buf :: "nat option \<Rightarrow> inode \<Rightarrow> int \<Rightarrow> fs \<Rightarrow> (u8 list \<times> fs) exec" where
  "read_buf b ino off s =
     bindE (read_data True off ino dir_chunk s) (\<lambda>(out, s).
       if out = [] then Inr ([], s)
       else case b of None \<Rightarrow> Inl NullPointer
         | Some i \<Rightarrow>
             Inr (out, s\<lparr>block_buf := (block_buf s)(i := out @ drop (length out) (block_buf s i))\<rparr>))"

section \<open>Looking up a name\<close>

text \<open>The \<open>dir_entry\<close> at byte \<open>p\<close> of a buffer.\<close>

definition entry_index :: "u8 list \<Rightarrow> nat \<Rightarrow> int" where
  "entry_index B p = sint (u32_list (take 4 (drop (p + 32) B)) ! 0)"

function find_entry :: "u8 list \<Rightarrow> u8 list \<Rightarrow> nat \<Rightarrow> int \<Rightarrow> nat option exec" where
  "find_entry B name p readed_len =
     (if 0 < readed_len then
        bindE (strcmp (drop p B) name)
          (\<lambda>c. if c = 0 then Inr (Some p) else find_entry B name (p + 36) (readed_len - dirent_size))
      else Inr None)"
  by pat_completeness auto
termination
  by (relation "measure (\<lambda>(B, name, p, r). nat r)") auto

declare find_entry.simps [simp del]

lemma read_data_past_end: "isize ino \<le> fo \<Longrightarrow> read_data k fo ino n s = Inr ([], s)"
  by (simp add: read_data_def read_direct.simps)

lemma read_buf_bound: "read_buf b ino off s = Inr (out, s') \<Longrightarrow> out \<noteq> [] \<Longrightarrow> off < isize ino"
  using read_data_past_end [of ino off True 252 s]
  by (cases "isize ino \<le> off") (auto simp: read_buf_def)

function read_dir_loop ::
  "inode \<Rightarrow> nat option \<Rightarrow> u8 list \<Rightarrow> int \<Rightarrow> fs \<Rightarrow> (dirent option \<times> fs) exec" where
  "read_dir_loop ino b name off s =
     bindE (read_buf b ino off s) (\<lambda>(out, s).
       if out = [] then bindE (free_block_buffer b s) (\<lambda>s. Inr (None, s))
       else bindE (find_entry (the_buf b s) name 0 (int (length out))) (\<lambda>r.
         case r of
           Some p \<Rightarrow>
             bindE (strcpy (replicate 32 0) (drop p (the_buf b s))) (\<lambda>fn.
               bindE (free_block_buffer b s) (\<lambda>s'.
                 Inr (Some \<lparr>filename = fn, dindex = entry_index (the_buf b s) p\<rparr>, s')))
         | None \<Rightarrow> read_dir_loop ino b name (off + int (length out)) s))"
  by pat_completeness auto
termination
  by (relation "measure (\<lambda>(ino, b, name, off, s). nat (isize ino - off))")
    (auto dest: read_buf_bound)

declare read_dir_loop.simps [simp del]

definition read_dir_entry :: "int \<Rightarrow> u8 list \<Rightarrow> fs \<Rightarrow> (dirent option \<times> fs) exec" where
  "read_dir_entry dir name s =
     bindE (read_inode_from_disk dir s) (\<lambda>dir_inode.
       case get_free_block_buffer s of (b, s) \<Rightarrow> read_dir_loop dir_inode b name 0 s)"

section \<open>Adding an entry\<close>

text \<open>What an uninitialised inode, or 32-byte name, on the stack holds.\<close>

definition pop_inode :: "fs \<Rightarrow> inode \<times> fs" where
  "pop_inode s = (stk s 0, s\<lparr>stk := (\<lambda>n. stk s (Suc n))\<rparr>)"

definition pop_name :: "fs \<Rightarrow> u8 list \<times> fs" where
  "pop_name s = (take 32 (stk_names s 0 @ replicate 32 0), s\<lparr>stk_names := (\<lambda>n. stk_names s (Suc n))\<rparr>)"

definition add_inode_into_dir :: "int \<Rightarrow> u8 list \<Rightarrow> int \<Rightarrow> fs \<Rightarrow> fs exec" where
  "add_inode_into_dir parent name index s =
     bindE (read_inode_from_disk parent s) (\<lambda>ino.
       case pop_name s of (junk, s) \<Rightarrow>
         bindE (strcpy junk name) (\<lambda>fn.
           bindE (write_data True (\<lambda>k. (fn @ u32_bytes (u32_of index)) ! k) (isize ino) ino dirent_size s)
             (\<lambda>(w, ino, s). write_inode_to_disk parent ino s)))"

section \<open>The entries of a directory\<close>

text \<open>The reference: a directory as an association list from names to inode numbers.\<close>

definition entry_name :: "u8 list \<Rightarrow> nat \<Rightarrow> u8 list" where
  "entry_name bs i = cstr (take 32 (drop (36 * i) bs))"

definition entries :: "u8 list \<Rightarrow> (u8 list \<times> int) list" where
  "entries bs = map (\<lambda>i. (entry_name bs i, entry_index bs (36 * i))) [0..<length bs div 36]"

definition dir_ok :: "fs \<Rightarrow> inode \<Rightarrow> bool" where
  "dir_ok s ino \<longleftrightarrow> wf_file s ino \<and> isize ino \<le> level_end1 \<and> 36 dvd fsize ino \<and>
     (\<forall>i < fsize ino div 36. 0 \<in> set (take 32 (drop (36 * i) (file_data (disk s) ino))))"

text \<open>Only the scratch buffers differ.\<close>

definition scratch :: "fs \<Rightarrow> fs \<Rightarrow> bool" where
  "scratch s s' \<longleftrightarrow> (\<exists>a b c. s' = s\<lparr>index_block1 := a, index_block2 := b, block_buf := c\<rparr> \<and>
     (\<forall>i. length (block_buf s i) = 256 \<longrightarrow> length (c i) = 256))"

lemma scratchI:
  "s' = s\<lparr>index_block1 := a, index_block2 := b, block_buf := c\<rparr> \<Longrightarrow>
     (\<And>i. length (block_buf s i) = 256 \<Longrightarrow> length (c i) = 256) \<Longrightarrow> scratch s s'"
  by (auto simp: scratch_def)

lemma scratch_refl [simp]: "scratch s s"
  by (rule scratchI [where a = "index_block1 s" and b = "index_block2 s" and c = "block_buf s"]) simp_all

lemma scratch_trans:
  assumes "scratch s s1" and "scratch s1 s2"
  shows "scratch s s2"
proof -
  obtain a b c where 1: "s1 = s\<lparr>index_block1 := a, index_block2 := b, block_buf := c\<rparr>"
    "\<forall>i. length (block_buf s i) = 256 \<longrightarrow> length (c i) = 256" using assms(1) by (auto simp: scratch_def)
  obtain a' b' c' where 2: "s2 = s1\<lparr>index_block1 := a', index_block2 := b', block_buf := c'\<rparr>"
    "\<forall>i. length (block_buf s1 i) = 256 \<longrightarrow> length (c' i) = 256" using assms(2) by (auto simp: scratch_def)
  from 1 2 show ?thesis by (intro scratchI [where a = a' and b = b' and c = c']) simp_all
qed

lemma scratch_frames [frame_simps]:
  assumes "scratch s s'"
  shows "disk s' = disk s" "block_bitmap s' = block_bitmap s" "block_buf_flag s' = block_buf_flag s"
    "active_vnodes s' = active_vnodes s" "vnode_array s' = vnode_array s"
  using assms by (auto simp: scratch_def)

lemma cstr_take: "0 \<in> set (take n bs) \<Longrightarrow> cstr (take n bs) = cstr bs"
  by (induction bs arbitrary: n) (auto simp: take_Cons split: nat.splits)

lemma in_take_set: "x \<in> set (take n xs) \<Longrightarrow> x \<in> set xs"
  by (meson in_set_takeD)

lemma find_entry_spec:
  assumes "0 \<in> set name" and "\<And>j. i \<le> j \<Longrightarrow> j < k \<Longrightarrow> 0 \<in> set (drop (36 * j) B)"
  shows "find_entry B name (36 * i) (36 * (int k - int i)) =
    Inr (map_option ((*) 36) (find (\<lambda>j. cstr (drop (36 * j) B) = cstr name) [i..<k]))"
  using assms(2)
proof (induction "k - i" arbitrary: i)
  case 0
  then show ?case by (simp add: find_entry.simps)
next
  case (Suc m)
  then have lt: "i < k" by simp
  obtain c where c: "strcmp (drop (36 * i) B) name = Inr c"
    using strcmp_defined [of "drop (36 * i) B" name] Suc.prems [of i] lt assms(1) by auto
  have z: "c = 0 \<longleftrightarrow> cstr (drop (36 * i) B) = cstr name"
    using strcmp_zero_iff [of "drop (36 * i) B" name] Suc.prems [of i] lt assms(1) c by auto
  have "find_entry B name (36 * Suc i) (36 * (int k - int (Suc i))) =
      Inr (map_option ((*) 36) (find (\<lambda>j. cstr (drop (36 * j) B) = cstr name) [Suc i..<k]))"
    by (rule Suc.hyps(1)) (use Suc in auto)
  moreover have "36 * (int k - int i) - 36 = 36 * (int k - int (Suc i))" "36 * i + 36 = 36 * Suc i" by simp_all
  moreover have "0 < 36 * (int k - int i)" using lt by simp
  ultimately show ?case using c z upt_conv_Cons [OF lt]
    by (subst find_entry.simps) (simp only: if_True bindE_Inr, auto)
qed

text \<open>The chunk of a directory that the lookup holds in its buffer.\<close>

lemma chunk_entry:
  assumes "36 * (k + m) \<le> length D" and "j < m"
  shows "take 32 (drop (36 * j) (take (36 * m) (drop (36 * k) D) @ R)) = take 32 (drop (36 * (k + j)) D)"
    and "entry_index (take (36 * m) (drop (36 * k) D) @ R) (36 * j) = entry_index D (36 * (k + j))"
proof -
  let ?C = "take (36 * m) (drop (36 * k) D)"
  have len: "length ?C = 36 * m" using assms(1) by simp
  have j: "36 * j + 36 \<le> 36 * m" using assms(2) by simp
  have *: "take n (drop a (?C @ R)) = take n (drop (36 * k + a) D)" if "a + n \<le> 36 * m" for a n
  proof -
    have "take n (drop a (?C @ R)) = take n (drop a ?C)" using that len by simp
    also have "\<dots> = take n (drop (36 * k + a) D)"
      using that by (simp add: drop_take take_take add.commute)
    finally show ?thesis .
  qed
  show "take 32 (drop (36 * j) (?C @ R)) = take 32 (drop (36 * (k + j)) D)"
    using * [of "36 * j" 32] j by (simp add: distrib_left)
  show "entry_index (?C @ R) (36 * j) = entry_index D (36 * (k + j))"
    using * [of "36 * j + 32" 4] j by (simp add: entry_index_def distrib_left add.assoc)
qed

lemma take_cstr_eq:
  assumes "take n xs = take n ys" and "0 \<in> set (take n ys)"
  shows "0 \<in> set xs" and "cstr xs = cstr (take n ys)"
  using assms in_take_set [of 0 n xs] cstr_take [of n xs] by auto

lemma chunk_end: "k < n \<Longrightarrow> min (36 * n) (36 * k + 252) = 36 * (k + min 7 (n - k))" for k n :: nat
  by (cases "n - k \<le> 7") auto

lemma read_buf_spec:
  assumes ok: "dir_ok s ino" and k: "k < fsize ino div 36" and buf: "length (block_buf s i) = 256"
  shows "\<exists>s'. read_buf (Some i) ino (36 * int k) s =
      Inr (take (36 * min 7 (fsize ino div 36 - k)) (drop (36 * k) (file_data (disk s) ino)), s') \<and>
    scratch s s' \<and> length (block_buf s' i) = 256 \<and>
    (\<exists>R. block_buf s' i = take (36 * min 7 (fsize ino div 36 - k)) (drop (36 * k) (file_data (disk s) ino)) @ R)"
proof -
  let ?n = "fsize ino div 36" and ?D = "file_data (disk s) ino"
  let ?m = "min 7 (?n - k)"
  let ?C = "take (36 * ?m) (drop (36 * k) ?D)"
  have wf: "wf_file s ino" and sz: "36 * ?n = fsize ino" and le: "isize ino \<le> level_end1"
    using ok by (auto simp: dir_ok_def)
  have e: "min (nat (isize ino)) (36 * k + 252) = 36 * (k + ?m)"
    using chunk_end [OF k] unfolding sz by (simp add: fsize_def)
  have "map (file_byte (disk s) ino) [36 * k..<36 * (k + ?m)] = ?C"
    using k sz by (intro nth_equalityI) (auto simp: file_data_def)
  moreover from read_data_spec [OF wf_file_ok [OF wf], of "36 * k" 252 True]
  obtain a b where "read_data True (int (36 * k)) ino (int 252) s =
      Inr (map (file_byte (disk s) ino) [36 * k..<min (nat (isize ino)) (36 * k + 252)],
           s\<lparr>index_block1 := a, index_block2 := b\<rparr>)"
    using le by auto
  ultimately have rd: "read_data True (36 * int k) ino 252 s =
      Inr (?C, s\<lparr>index_block1 := a, index_block2 := b\<rparr>)"
    unfolding e by simp
  have "36 * (k + ?m) \<le> 36 * ?n" using k by simp
  then have len: "length ?C = 36 * ?m" using sz by simp
  have pos: "0 < ?m" using k by simp
  with len have ne: "?C \<noteq> []" by force
  let ?s = "s\<lparr>index_block1 := a, index_block2 := b,
    block_buf := (block_buf s)(i := ?C @ drop (length ?C) (block_buf s i))\<rparr>"
  have "read_buf (Some i) ino (36 * int k) s = Inr (?C, ?s)"
    using rd ne by (simp add: read_buf_def)
  moreover have "36 * ?m \<le> 256" by simp
  then have "scratch s ?s" by (intro scratchI [OF refl]) (auto simp: len simp del: length_take)
  moreover have "length (block_buf ?s i) = 256" using buf len by (simp add: min_def)
  moreover have "block_buf ?s i = ?C @ drop (length ?C) (block_buf s i)" by simp
  ultimately show ?thesis by blast
qed

lemma dir_ok_scratch: "scratch s s' \<Longrightarrow> dir_ok s ino \<Longrightarrow> dir_ok s' ino"
  by (auto simp: scratch_def dir_ok_def wf_file_def file_rep_def own_ok_def indices_ok_def block_used_def)

lemma find_upt_shift: "find P [a..<b] = map_option (\<lambda>j. a + j) (find (\<lambda>j. P (a + j)) [0..<b - a])"
proof -
  have "[a..<b] = map ((+) a) [0..<b - a]" by (rule nth_equalityI) auto
  moreover have "find P (map ((+) a) xs) = map_option ((+) a) (find (\<lambda>j. P (a + j)) xs)" for xs
    by (induction xs) auto
  ultimately show ?thesis by simp
qed

lemma find_append: "find P (xs @ ys) = (case find P xs of None \<Rightarrow> find P ys | Some x \<Rightarrow> Some x)"
  by (induction xs) auto

definition dir_find :: "u8 list \<Rightarrow> u8 list \<Rightarrow> nat \<Rightarrow> nat option" where
  "dir_find D name k = find (\<lambda>j. entry_name D j = cstr name) [k..<length D div 36]"

lemma dir_find_split:
  assumes "k + m \<le> length D div 36"
  shows "dir_find D name k = (case find (\<lambda>j. entry_name D j = cstr name) [k..<k + m] of
     None \<Rightarrow> dir_find D name (k + m) | Some j \<Rightarrow> Some j)"
proof -
  have "[k..<length D div 36] = [k..<k + m] @ [k + m..<length D div 36]"
    using assms upt_add_eq_append [of k "k + m" "length D div 36 - (k + m)"] by simp
  then show ?thesis unfolding dir_find_def by (simp only: find_append)
qed

lemma map_of_entries: "map_of (entries D) (cstr name) = map_option (\<lambda>j. entry_index D (36 * j)) (dir_find D name 0)"
proof -
  have "map_of (map (\<lambda>i. (entry_name D i, entry_index D (36 * i))) xs) (cstr name) =
      map_option (\<lambda>j. entry_index D (36 * j)) (find (\<lambda>j. entry_name D j = cstr name) xs)" for xs
    by (induction xs) auto
  then show ?thesis by (simp add: entries_def dir_find_def)
qed

text \<open>The lookup finds the first entry with the name, and leaves only its buffers changed.\<close>

lemma free_block_buffer_scratch:
  assumes "scratch s s'"
  shows "\<exists>s''. free_block_buffer (Some i) s' = Inr (s''\<lparr>block_buf_flag := (block_buf_flag s)[i := False]\<rparr>) \<and>
    scratch s s''"
  using assms scratch_frames(3) [OF assms] by (intro exI [of _ s']) (simp add: free_block_buffer_def)

lemma read_dir_loop_spec:
  assumes "dir_ok s ino" and "k \<le> fsize ino div 36" and "length (block_buf s i) = 256" and "0 \<in> set name"
  shows "\<exists>r s'. read_dir_loop ino (Some i) name (36 * int k) s =
      Inr (r, s'\<lparr>block_buf_flag := (block_buf_flag s)[i := False]\<rparr>) \<and> scratch s s' \<and>
    map_option dindex r =
      map_option (\<lambda>j. entry_index (file_data (disk s) ino) (36 * j)) (dir_find (file_data (disk s) ino) name k) \<and>
    (\<forall>e. r = Some e \<longrightarrow> 0 \<in> set (filename e) \<and> cstr (filename e) = cstr name)"
  using assms(1-3)
proof (induction "fsize ino div 36 - k" arbitrary: k s rule: less_induct)
  case less
  let ?n = "fsize ino div 36" and ?D = "file_data (disk s) ino"
  have le: "isize ino \<le> level_end1" and sz: "isize ino = int (36 * ?n)" and len: "length ?D = 36 * ?n"
    using less.prems(1) by (auto simp: dir_ok_def wf_file_def fsize_def)
  show ?case
  proof (cases "k < ?n")
    case False
    then have "isize ino \<le> 36 * int k" using sz by linarith
    then have "read_buf (Some i) ino (36 * int k) s = Inr ([], s)" by (simp add: read_buf_def read_data_past_end)
    then show ?thesis using False len
      by (simp add: read_dir_loop.simps [of ino "Some i" name "36 * int k" s] free_block_buffer_def dir_find_def)
         (metis scratch_refl)
  next
    case True
    define m where "m = min 7 (?n - k)"
    let ?C = "take (36 * m) (drop (36 * k) ?D)"
    from read_buf_spec [OF less.prems(1) True less.prems(3)] obtain s1 R where
      rd: "read_buf (Some i) ino (36 * int k) s = Inr (?C, s1)" and sc: "scratch s s1"
      and bl: "length (block_buf s1 i) = 256" and B: "block_buf s1 i = ?C @ R"
      unfolding m_def by blast
    have m: "0 < m" "k + m \<le> ?n" using True by (auto simp: m_def)
    then have C: "length ?C = 36 * m" "?C \<noteq> []" using len by (auto simp flip: length_greater_0_conv)
    have ok1: "dir_ok s1 ino" by (rule dir_ok_scratch [OF sc less.prems(1)])
    have D1: "file_data (disk s1) ino = ?D" using sc by (simp add: frame_simps)
    note entry = chunk_entry [of k m ?D _ R, folded B]
    have nul: "0 \<in> set (take 32 (drop (36 * (k + j)) ?D))" if "j < m" for j
    proof -
      have "k + j < ?n" using that m by linarith
      then show ?thesis using less.prems(1) unfolding dir_ok_def by blast
    qed
    have name: "0 \<in> set (drop (36 * j) (block_buf s1 i))"
        "cstr (drop (36 * j) (block_buf s1 i)) = entry_name ?D (k + j)" if "j < m" for j
      using take_cstr_eq [OF entry(1) nul] that m len by (auto simp: entry_name_def)
    have "find_entry (block_buf s1 i) name (36 * 0) (36 * (int m - int 0)) =
        Inr (map_option ((*) 36) (find (\<lambda>j. cstr (drop (36 * j) (block_buf s1 i)) = cstr name) [0..<m]))"
      by (rule find_entry_spec [OF assms(4)]) (use name(1) in auto)
    moreover have "find (\<lambda>j. cstr (drop (36 * j) (block_buf s1 i)) = cstr name) [0..<m] =
        find (\<lambda>j. entry_name ?D (k + j) = cstr name) [0..<m]"
      using name(2) by (intro find_cong) auto
    ultimately have fe: "find_entry (block_buf s1 i) name 0 (36 * int m) =
        Inr (map_option ((*) 36) (find (\<lambda>j. entry_name ?D (k + j) = cstr name) [0..<m]))" by simp
    have split: "dir_find ?D name k = (case find (\<lambda>j. entry_name ?D (k + j) = cstr name) [0..<m] of
        None \<Rightarrow> dir_find ?D name (k + m) | Some j \<Rightarrow> Some (k + j))"
      using dir_find_split [of k m ?D name] m(2) len find_upt_shift [of "\<lambda>j. entry_name ?D j = cstr name" k "k + m"]
      by (auto split: option.splits)
    note step = read_dir_loop.simps [of ino "Some i" name "36 * int k" s, unfolded rd bindE_Inr prod.case if_not_P [OF C(2)] the_buf_def option.case C(1)]
    show ?thesis
    proof (cases "find (\<lambda>j. entry_name ?D (k + j) = cstr name) [0..<m]")
      case None
      have flag: "block_buf_flag s1 = block_buf_flag s" using sc by (simp add: frame_simps)
      have "?n - (k + m) < ?n - k" using m True by linarith
      from less.hyps [OF this ok1 m(2) bl] obtain r s' where
        ih: "read_dir_loop ino (Some i) name (36 * int (k + m)) s1 = Inr (r, s'\<lparr>block_buf_flag := (block_buf_flag s)[i := False]\<rparr>)"
          "scratch s1 s'" "map_option dindex r = map_option (\<lambda>j. entry_index ?D (36 * j)) (dir_find ?D name (k + m))"
          "\<forall>e. r = Some e \<longrightarrow> 0 \<in> set (filename e) \<and> cstr (filename e) = cstr name"
        unfolding D1 flag by blast
      show ?thesis using ih scratch_trans [OF sc ih(2)] fe None split unfolding step
        by (intro exI [of _ r] exI [of _ s']) (simp add: distrib_left)
    next
      case (Some j)
      then have j: "j < m" "entry_name ?D (k + j) = cstr name" by (auto simp: find_Some_iff)
      have "length (entry_name ?D (k + j)) < 32"
        using length_cstr [OF nul [OF j(1)]] by (simp add: entry_name_def)
      then have cp: "strcpy (replicate 32 0) (drop (36 * j) (block_buf s1 i)) =
          Inr (cstr name @ 0 # drop (Suc (length (cstr name))) (replicate 32 0))"
        using strcpy_cstr [of "drop (36 * j) (block_buf s1 i)" "replicate 32 0"] name [OF j(1)] j(2) by simp
      obtain s'' where fr: "free_block_buffer (Some i) s1 = Inr (s''\<lparr>block_buf_flag := (block_buf_flag s)[i := False]\<rparr>)"
        "scratch s s''" using free_block_buffer_scratch [OF sc] by blast
      show ?thesis using fe Some split cp fr entry(2) [of j] j(1) m len unfolding step by auto
    qed
  qed
qed

text \<open>\<open>dir_at s d D\<close>: inode \<open>d\<close> on the disk is a directory with contents \<open>D\<close>.\<close>

definition dir_at :: "fs \<Rightarrow> int \<Rightarrow> u8 list \<Rightarrow> bool" where
  "dir_at s d D \<longleftrightarrow> 0 \<le> d \<and> d < 1024 \<and>
     (\<exists>ino. read_inode_from_disk d s = Inr ino \<and> dir_ok s ino \<and> D = file_data (disk s) ino)"

definition buffers_ok :: "fs \<Rightarrow> bool" where
  "buffers_ok s \<longleftrightarrow> length (block_buf_flag s) = 20 \<and> (\<exists>i < 20. \<not> block_buf_flag s ! i) \<and>
     (\<forall>i < 20. length (block_buf s i) = 256)"

lemma find_upt:
  "find P [0..<n] = Some i \<Longrightarrow> i < n \<and> P i"
  "find P [0..<n] = None \<Longrightarrow> i < n \<Longrightarrow> \<not> P i"
  by (auto simp: find_Some_iff find_None_iff)

lemma get_buffer_ok:
  assumes "buffers_ok s"
  obtains i where "get_free_block_buffer s = (Some i, s\<lparr>block_buf_flag := (block_buf_flag s)[i := True]\<rparr>)"
    and "i < 20" and "\<not> block_buf_flag s ! i"
proof (cases "find (\<lambda>i. \<not> block_buf_flag s ! i) [0..<20]")
  case None
  with find_upt(2) [OF None] assms show ?thesis by (auto simp: buffers_ok_def)
next
  case (Some i)
  show ?thesis
  proof (rule that)
    show "get_free_block_buffer s = (Some i, s\<lparr>block_buf_flag := (block_buf_flag s)[i := True]\<rparr>)"
      unfolding get_free_block_buffer_def Some option.case ..
  qed (use find_upt(1) [OF Some] in blast)+
qed

lemma scratch_flags:
  assumes "scratch (s\<lparr>block_buf_flag := f\<rparr>) s'"
  shows "scratch s (s'\<lparr>block_buf_flag := block_buf_flag s\<rparr>)"
  using assms unfolding scratch_def by (elim exE conjE, intro exI conjI) simp_all

lemma dir_ok_flag [simp]: "dir_ok (s\<lparr>block_buf_flag := f\<rparr>) ino = dir_ok s ino"
  by (simp add: dir_ok_def wf_file_def file_rep_def own_ok_def indices_ok_def block_used_def)

lemma read_inode_disk_cong: "disk s = disk s' \<Longrightarrow> read_inode_from_disk i s = read_inode_from_disk i s'"
  by (simp add: read_inode_from_disk_def ram_read_def)

text \<open>The lookup of a name is \<open>map_of\<close> on the entries; buffers are given back.\<close>

lemma lookup_spec:
  assumes d: "dir_at s d D" and b: "buffers_ok s" and name: "0 \<in> set name"
  shows "\<exists>r s'. read_dir_entry d name s = Inr (r, s') \<and> scratch s s' \<and>
    map_option dindex r = map_of (entries D) (cstr name) \<and>
    (\<forall>e. r = Some e \<longrightarrow> 0 \<in> set (filename e) \<and> cstr (filename e) = cstr name)"
proof -
  obtain ino where ino: "read_inode_from_disk d s = Inr ino" "dir_ok s ino" "D = file_data (disk s) ino"
    using d by (auto simp: dir_at_def)
  obtain i where i: "get_free_block_buffer s = (Some i, s\<lparr>block_buf_flag := (block_buf_flag s)[i := True]\<rparr>)"
    "i < 20" "\<not> block_buf_flag s ! i" using get_buffer_ok [OF b] .
  let ?s = "s\<lparr>block_buf_flag := (block_buf_flag s)[i := True]\<rparr>"
  have ok: "dir_ok ?s ino" "length (block_buf ?s i) = 256" using ino(2) b i(2) by (simp_all add: buffers_ok_def)
  have restored: "(block_buf_flag s)[i := False] = block_buf_flag s"
    using i(3) list_update_id [of "block_buf_flag s" i] by simp
  from read_dir_loop_spec [OF ok(1) _ ok(2) name, of 0] obtain r s' where
    "read_dir_loop ino (Some i) name 0 ?s = Inr (r, s'\<lparr>block_buf_flag := block_buf_flag s\<rparr>)" "scratch ?s s'"
    "map_option dindex r = map_option (\<lambda>j. entry_index D (36 * j)) (dir_find D name 0)"
    "\<forall>e. r = Some e \<longrightarrow> 0 \<in> set (filename e) \<and> cstr (filename e) = cstr name"
    using ino(3) restored by auto
  then show ?thesis using ino(1) i(1) by (auto simp: read_dir_entry_def map_of_entries dest: scratch_flags)
qed

lemma dir_at_scratch: "scratch s s' \<Longrightarrow> dir_at s d D \<Longrightarrow> dir_at s' d D"
  using dir_ok_scratch [of s s'] scratch_frames(1) [of s s'] read_inode_disk_cong [of s s']
  unfolding dir_at_def by auto

lemma buffers_scratch: "scratch s s' \<Longrightarrow> buffers_ok s \<Longrightarrow> buffers_ok s'"
  by (auto simp: scratch_def buffers_ok_def)

lemma entry_short:
  assumes "dir_at s d D" and "map_of (entries D) n = Some ix"
  shows "length n < 32"
proof -
  have "(n, ix) \<in> set (entries D)" by (rule map_of_SomeD [OF assms(2)])
  then obtain j where j: "j < length D div 36" "n = entry_name D j" by (auto simp: entries_def)
  then have "0 \<in> set (take 32 (drop (36 * j) D))" using assms(1) by (auto simp: dir_at_def dir_ok_def)
  from length_cstr [OF this] show ?thesis using j(2) by (simp add: entry_name_def)
qed

text \<open>Writing an inode leaves every file as it is.\<close>

lemma file_after_inode:
  assumes "wf_file s ino" and "0 \<le> i" and "i < 1024" and "inode_ok n" and "write_inode_to_disk i n s = Inr s'"
  shows "wf_file s' ino" and "file_data (disk s') ino = file_data (disk s) ino"
    and "file_own (disk s') ino = file_own (disk s) ino"
proof -
  have s': "s' = s\<lparr>disk := patch (disk s) (5120 + nat i * 76) (inode_bytes n)\<rparr>"
    using assms by (simp add: write_inode_eq)
  have len: "length (inode_bytes n) = 76" using assms(4) by simp
  have "file_own (disk s) ino \<subseteq> block_slots"
    using assms(1) by (auto simp: wf_file_def file_rep_def own_ok_def file_own_def)
  then have "disk s' x = disk s x" if "a \<in> file_own (disk s) ino" "x \<in> bytes_of a" for a x
    using slot_bounds(1) [of a] that assms(2,3) len unfolding s' by (auto simp: bytes_of_def patch_def)
  note frame = file_frame [OF assms(1) this]
  show "file_data (disk s') ino = file_data (disk s) ino" by (rule frame(3))
  show "file_own (disk s') ino = file_own (disk s) ino" using frame by (simp add: file_own_def)
  show "wf_file s' ino" using assms(1) frame(1,2) unfolding s'
    by (auto simp: wf_file_def file_rep_def own_ok_def indices_ok_def block_used_def)
qed

text \<open>The 36 bytes of a new entry.\<close>

definition entry_bytes :: "u8 list \<Rightarrow> int \<Rightarrow> u8 list" where
  "entry_bytes fn index = fn @ u32_bytes (u32_of index)"

lemma u32_list_single [simp]: "u32_list (u32_bytes w) = [w]"
  using u32_list_bytes [of "[w]"] by (simp add: bytes_list_def)

lemma entries_snoc:
  assumes "36 dvd length D" and "length fn = 32"
  shows "entries (D @ entry_bytes fn ix) = entries D @ [(cstr fn, i32 ix)]"
proof -
  obtain n where n: "length D = 36 * n" using assms(1) by blast
  have old: "entry_name (D @ entry_bytes fn ix) i = entry_name D i"
      "entry_index (D @ entry_bytes fn ix) (36 * i) = entry_index D (36 * i)" if "i < n" for i
  proof -
    have "36 * i + 36 \<le> length D" using that n by simp
    then show "entry_name (D @ entry_bytes fn ix) i = entry_name D i"
        "entry_index (D @ entry_bytes fn ix) (36 * i) = entry_index D (36 * i)"
      by (simp_all add: entry_name_def entry_index_def)
  qed
  have new: "entry_name (D @ entry_bytes fn ix) n = cstr fn"
      "entry_index (D @ entry_bytes fn ix) (36 * n) = i32 ix"
    using assms(2) n by (simp_all add: entry_name_def entry_index_def entry_bytes_def i32_def u32_of_def)
  have "length (D @ entry_bytes fn ix) div 36 = Suc n" using n assms(2) by (simp add: entry_bytes_def)
  then show ?thesis using n old new by (simp add: entries_def)
qed

lemma add_inode_spec:
  assumes d: "0 \<le> d" "d < 1024" and ino: "read_inode_from_disk d s = Inr ino" "dir_ok s ino"
    and name: "0 \<in> set name" "length (cstr name) < 32"
    and room: "isize ino + 36 \<le> level_end1" "length (index_block1 s) = 64"
      "nblocks (fsize ino + 36) + 1 \<le> nblocks (fsize ino) + blocks.idle s"
  shows "\<exists>ino' s1 s' fn. add_inode_into_dir d name ix s = Inr s' \<and> cstr fn = cstr name \<and> length fn = 32 \<and>
    0 \<in> set fn \<and> inode_ok ino' \<and>
    appended (s\<lparr>stk_names := (\<lambda>n. stk_names s (Suc n))\<rparr>) ino (entry_bytes fn ix) s1 ino' \<and>
    write_inode_to_disk d ino' s1 = Inr s'"
proof -
  let ?s = "s\<lparr>stk_names := (\<lambda>n. stk_names s (Suc n))\<rparr>"
  let ?junk = "take 32 (stk_names s 0 @ replicate 32 0)"
  let ?fn = "cstr name @ 0 # drop (Suc (length (cstr name))) ?junk"
  have wf: "wf_file ?s ino" and sz: "isize ino = int (fsize ino)"
    using ino(2) by (auto simp: dir_ok_def wf_file_def file_rep_def own_ok_def indices_ok_def block_used_def fsize_def)
  have fn: "strcpy ?junk name = Inr ?fn" "length ?fn = 32" "cstr ?fn = cstr name" "0 \<in> set ?fn"
    using name by (simp_all add: strcpy_cstr)
  have le: "fsize ino + 36 \<le> 19456" using room(1) sz by linarith
  have idle: "blocks.idle ?s = blocks.idle s" by (simp add: blocks.idle_def block_used_def)
  have len: "length (entry_bytes ?fn ix) = 36" using fn(2) by (simp add: entry_bytes_def)
  from write_data_spec [OF wf sz le, of True "\<lambda>k. entry_bytes ?fn ix ! k"] room(2,3)
  obtain ino' s1 where run: "write_data True (\<lambda>k. entry_bytes ?fn ix ! k) (isize ino) ino 36 ?s = Inr (36, ino', s1)"
    and app: "appended ?s ino (cells (\<lambda>k. entry_bytes ?fn ix ! k) 0 36) s1 ino'"
    by (auto simp: idle simp flip: sz)
  have "cells (\<lambda>k. entry_bytes ?fn ix ! k) 0 36 = entry_bytes ?fn ix"
    using len by (intro nth_equalityI) auto
  with app have app': "appended ?s ino (entry_bytes ?fn ix) s1 ino'" by simp
  have ok': "inode_ok ino'"
  proof -
    obtain n where "read_inode_from_disk d s = Inr n" "inode_ok n" using read_inode_ok [OF d] .
    then have iok: "inode_ok ino" using ino(1) by simp
    have "ino' = ino\<lparr>isize := isize ino + int (length (entry_bytes ?fn ix)), blk := blk ino'\<rparr>"
      using app' unfolding appended_def by (elim conjE)
    from arg_cong [OF this, of itype] arg_cong [OF this, of idev] arg_cong [OF this, of ilink]
    have f: "itype ino' = itype ino" "idev ino' = idev ino" "ilink ino' = ilink ino" by simp_all
    have "isize ino' = isize ino + 36" "length (blk ino') = 15"
      using appendedD(4) [OF app'] appendedD(1) [OF app'] len by (simp_all add: wf_file_def)
    moreover have "i32_range (isize ino + 36)"
    proof -
      have "0 \<le> isize ino + 36 \<and> isize ino + 36 \<le> 19456" using le sz by linarith
      then show ?thesis by (simp add: i32_range_def)
    qed
    ultimately show ?thesis using f iok unfolding inode_ok_def by simp
  qed
  obtain s' where s': "write_inode_to_disk d ino' s1 = Inr s'" using write_inode_eq [OF d ok'] by blast
  have "add_inode_into_dir d name ix s = Inr s'"
    using ino(1) fn(1) run s' by (simp add: add_inode_into_dir_def pop_name_def entry_bytes_def)
  with app' s' ok' fn show ?thesis by blast
qed

text \<open>The directory with the new entry, and every other one.\<close>

lemma dir_ok_snoc:
  assumes "dir_ok s ino" and app: "appended s ino (entry_bytes fn ix) s1 ino'"
    and fn: "length fn = 32" "0 \<in> set fn" and "isize ino + 36 \<le> level_end1"
  shows "dir_ok s1 ino'"
proof -
  let ?D = "file_data (disk s) ino"
  have len: "length (entry_bytes fn ix) = 36" using fn(1) by (simp add: entry_bytes_def)
  note D = appendedD(2) [OF app]
  obtain n where n: "fsize ino = 36 * n" using assms(1) by (auto simp: dir_ok_def)
  have sz: "isize ino' = isize ino + 36" "0 \<le> isize ino"
    using appendedD(4) [OF app] len assms(1) by (auto simp: dir_ok_def wf_file_def)
  then have sz': "fsize ino' = 36 * Suc n" using n by (simp add: fsize_def nat_add_distrib)
  have "0 \<in> set (take 32 (drop (36 * i) (?D @ entry_bytes fn ix)))" if "i < Suc n" for i
  proof (cases "i = n")
    case True
    then show ?thesis using fn n by (simp add: entry_bytes_def)
  next
    case False
    then have "i < n" using that by simp
    then have "36 * i + 36 \<le> length ?D" "0 \<in> set (take 32 (drop (36 * i) ?D))"
      using assms(1) n by (auto simp: dir_ok_def)
    then show ?thesis by simp
  qed
  then show ?thesis using appendedD(1) [OF app] sz assms(5) sz' unfolding dir_ok_def D by simp
qed

lemma grow_buffers_ok: "grow s Q s' Q' \<Longrightarrow> buffers_ok s \<Longrightarrow> buffers_ok s'"
  by (auto simp: grow_def fs_rest_def buffers_ok_def dest!: arg_cong [of _ _ "\<lambda>s. (block_buf_flag s, block_buf s)"])

lemma dir_ok_names [simp]: "dir_ok (s\<lparr>stk_names := f\<rparr>) ino = dir_ok s ino"
  by (simp add: dir_ok_def wf_file_def file_rep_def own_ok_def indices_ok_def block_used_def)

lemma add_entry_spec:
  assumes d: "0 \<le> d" "d < 1024" and ino: "read_inode_from_disk d s = Inr ino" "dir_ok s ino"
    and name: "0 \<in> set name" "length (cstr name) < 32"
    and room: "isize ino + 36 \<le> level_end1" "length (index_block1 s) = 64"
      "nblocks (fsize ino + 36) + 1 \<le> nblocks (fsize ino) + blocks.idle s" and buf: "buffers_ok s"
  shows "\<exists>s' D'. add_inode_into_dir d name ix s = Inr s' \<and> dir_at s' d D' \<and> buffers_ok s' \<and>
    entries D' = entries (file_data (disk s) ino) @ [(cstr name, i32 ix)]"
proof -
  let ?s = "s\<lparr>stk_names := (\<lambda>n. stk_names s (Suc n))\<rparr>"
  obtain ino' s1 s' fn where run: "add_inode_into_dir d name ix s = Inr s'" and fn: "cstr fn = cstr name"
    "length fn = 32" "0 \<in> set fn" and iok: "inode_ok ino'"
    and app: "appended ?s ino (entry_bytes fn ix) s1 ino'" and wr: "write_inode_to_disk d ino' s1 = Inr s'"
    using add_inode_spec [OF assms(1-9), of ix] by blast
  have ok1: "dir_ok s1 ino'" using dir_ok_snoc [OF _ app fn(2,3) room(1)] ino(2) by simp
  then have wf1: "wf_file s1 ino'" by (simp add: dir_ok_def)
  note after = file_after_inode [OF wf1 d iok wr]
  have "dir_ok s' ino'" using ok1 after(1,2) by (simp add: dir_ok_def)
  moreover have "read_inode_from_disk d s' = Inr ino'" by (rule inode_read_write [OF d iok wr])
  ultimately have at: "dir_at s' d (file_data (disk s') ino')" using d by (auto simp: dir_at_def)
  have "file_data (disk s') ino' = file_data (disk s) ino @ entry_bytes fn ix"
    using appendedD(2) [OF app] after(2) by simp
  moreover have "36 dvd length (file_data (disk s) ino)" using ino(2) by (simp add: dir_ok_def)
  ultimately have ent: "entries (file_data (disk s') ino') = entries (file_data (disk s) ino) @ [(cstr name, i32 ix)]"
    using entries_snoc fn(1,2) by simp
  have "buffers_ok ?s" using buf by (simp add: buffers_ok_def)
  then have "buffers_ok s1" by (rule grow_buffers_ok [OF appendedD(3) [OF app]])
  then have "buffers_ok s'" using wr write_inode_eq [OF d iok] by (auto simp: buffers_ok_def)
  with run at ent show ?thesis by blast
qed

section \<open>Properties\<close>

text \<open>A directory without entries: all the inodes of a blank disk.\<close>

definition blank_dir :: inode where
  "blank_dir = \<lparr>isize = 0, itype = PLAIN, idev = 0, ilink = 0, blk = replicate 15 0\<rparr>"

lemma bytes_list_zeros: "bytes_list (replicate n 0) = replicate (4 * n) 0"
  by (induction n) (simp_all add: bytes_list_def u32_bytes_def eval_nat_numeral)

lemma blank_inode: "0 \<le> d \<Longrightarrow> d < 1024 \<Longrightarrow> read_inode_from_disk d fs0 = Inr blank_dir"
proof -
  assume d: "0 \<le> d" "d < 1024"
  have "inode_bytes blank_dir = bytes_list (replicate 4 0 @ replicate 15 0)"
    by (simp add: inode_bytes_def blank_dir_def u32_of_def PLAIN_def numeral_3_eq_3 eval_nat_numeral)
  also have "\<dots> = replicate 76 0" using bytes_list_zeros [of "4 + 15"] by (simp only: replicate_add) simp
  finally have "inode_bytes blank_dir = replicate 76 0" .
  moreover have "cells (disk fs0) a 76 = replicate 76 0" for a
    by (simp add: cells_def fs0_def map_replicate_const)
  ultimately have "cells (disk fs0) (5120 + nat d * 76) 76 = inode_bytes blank_dir" by simp
  then show ?thesis using d by (simp add: read_inode_eq inode_ok_def blank_dir_def i32_range_def PLAIN_def)
qed

lemma blank_dir_ok: "dir_ok fs0 blank_dir" "buffers_ok fs0" "isize blank_dir = 0" "fsize blank_dir = 0"
  "file_data d blank_dir = []"
proof -
  have b: "length (blk blank_dir) = 15" "isize blank_dir = int 0" by (simp_all add: blank_dir_def)
  then show sz: "isize blank_dir = 0" "fsize blank_dir = 0" by simp_all
  then show "file_data d blank_dir = []" by (simp add: file_data_def)
  have "wf_file fs0 blank_dir" using wf_file_direct(1) [OF b, of fs0]
    by (simp add: file_rep_def own_ok_def indices_ok_def fs0_def nblocks_def)
  then show "dir_ok fs0 blank_dir" using sz by (simp add: dir_ok_def)
  show "buffers_ok fs0" by (auto simp: buffers_ok_def fs0_def simp del: replicate.simps intro!: exI [of _ 0])
qed

text \<open>
  C14. In a well-formed directory the search for a name gives the inode number that the first
  entry with that name has, as \<open>map_of\<close> on the list of entries does, and fails when there is
  none; it gives its block buffer back and changes nothing but buffers.
\<close>

theorem read_dir_entry_map_of:
  assumes "dir_at s d D" and "buffers_ok s" and "0 \<in> set name"
  shows "\<exists>r s'. read_dir_entry d name s = Inr (r, s') \<and> map_option dindex r = map_of (entries D) (cstr name) \<and>
    (\<forall>e. r = Some e \<longrightarrow> cstr (filename e) = cstr name) \<and> scratch s s'"
  using lookup_spec [OF assms] by blast

theorem read_dir_entry_map_of_witness:
  "\<exists>s'. read_dir_entry 7 [104, 105, 0] fs0 = Inr (None, s')"
proof -
  have "dir_at fs0 7 []" using blank_inode [of 7] blank_dir_ok by (auto simp: dir_at_def)
  from read_dir_entry_map_of [OF this blank_dir_ok(2), of "[104, 105, 0]"] show ?thesis
    by (auto simp: entries_def)
qed

text \<open>
  C18. Round trip: after \<open>add_inode_into_dir\<close> the entries of the directory are the old ones
  followed by the new name and number, and looking up a name that is new finds that number.
\<close>

theorem add_entry_then_find:
  assumes "0 \<le> d" and "d < 1024" and "read_inode_from_disk d s = Inr ino" and "dir_ok s ino"
    and "0 \<in> set name" and "length (cstr name) < 32"
    and "isize ino + 36 \<le> level_end1" and "length (index_block1 s) = 64"
    and "nblocks (fsize ino + 36) + 1 \<le> nblocks (fsize ino) + blocks.idle s" and "buffers_ok s"
    and "map_of (entries (file_data (disk s) ino)) (cstr name) = None"
  shows "\<exists>s' D' r s''. add_inode_into_dir d name ix s = Inr s' \<and> dir_at s' d D' \<and>
    entries D' = entries (file_data (disk s) ino) @ [(cstr name, i32 ix)] \<and>
    read_dir_entry d name s' = Inr (Some r, s'') \<and> dindex r = i32 ix \<and> cstr (filename r) = cstr name"
proof -
  obtain s' D' where a: "add_inode_into_dir d name ix s = Inr s'" "dir_at s' d D'" "buffers_ok s'"
    "entries D' = entries (file_data (disk s) ino) @ [(cstr name, i32 ix)]"
    using add_entry_spec [OF assms(1-10), of ix] by blast
  have "map_of (entries D') (cstr name) = Some (i32 ix)" using a(4) assms(11) by (simp add: map_add_def)
  with lookup_spec [OF a(2,3) assms(5)] a show ?thesis by fastforce
qed

theorem add_entry_then_find_witness:
  "\<exists>s' r s''. add_inode_into_dir 7 [104, 105, 0] 9 fs0 = Inr s' \<and>
    read_dir_entry 7 [104, 105, 0] s' = Inr (Some r, s'') \<and> dindex r = 9"
  using add_entry_then_find [of 7 fs0 blank_dir "[104, 105, 0]" 9] blank_inode [of 7] blank_dir_ok
  by (auto simp: idle_fs0 nblocks_def i32_range_def entries_def empty_file)

end
