(* ===== verification/Fs_Tables.thy ===== *)
theory Fs_Tables
  imports Fs_Dir
begin

text \<open>
  What the operations on file contents and directories leave alone, whatever is on the disk: the
  vnodes, the open files with their free lists, the processes and the root directory.
\<close>

definition tables :: "fs \<Rightarrow> fs" where
  "tables s = s\<lparr>disk := (\<lambda>_. 0), inode_bitmap := (\<lambda>_. 0), inode_bit_index := 0, block_bitmap := (\<lambda>_. 0),
     block_bit_index := 0, index_block1 := [], index_block2 := [], index_block3 := [],
     block_buf := (\<lambda>_. []), stk := (\<lambda>_. undefined), stk_names := (\<lambda>_. [])\<rparr>"

lemma tables_updates [simp]:
  "tables (s\<lparr>disk := d\<rparr>) = tables s" "tables (s\<lparr>inode_bitmap := ib\<rparr>) = tables s"
  "tables (s\<lparr>inode_bit_index := n\<rparr>) = tables s" "tables (s\<lparr>block_bitmap := bb\<rparr>) = tables s"
  "tables (s\<lparr>block_bit_index := n\<rparr>) = tables s" "tables (s\<lparr>index_block1 := x1\<rparr>) = tables s"
  "tables (s\<lparr>index_block2 := x2\<rparr>) = tables s" "tables (s\<lparr>index_block3 := x3\<rparr>) = tables s"
  "tables (s\<lparr>block_buf := b\<rparr>) = tables s" "tables (s\<lparr>stk := k\<rparr>) = tables s"
  "tables (s\<lparr>stk_names := kn\<rparr>) = tables s"
  by (simp_all add: tables_def)

lemma tables_flags: "tables (s\<lparr>block_buf_flag := f\<rparr>) = (tables s)\<lparr>block_buf_flag := f\<rparr>"
  by (simp add: tables_def)

named_theorems tables_frames \<open>operations that leave the tables alone\<close>

lemma tables_ram_write [tables_frames]: "ram_write k off bs s = Inr s' \<Longrightarrow> tables s' = tables s"
  by (auto simp: ram_write_def bindE_eq_Inr_iff)

lemma tables_load [tables_frames]:
  "load1 a s = Inr s' \<Longrightarrow> tables s' = tables s"
  "load2 a s = Inr s' \<Longrightarrow> tables s' = tables s"
  "load3 a s = Inr s' \<Longrightarrow> tables s' = tables s"
  by (auto simp: load1_def load2_def load3_def bindE_eq_Inr_iff)

lemma tables_bitmaps [tables_frames]:
  "get_free_block s = Inr (a, s') \<Longrightarrow> tables s' = tables s"
  "set_block_idle a s = Inr s' \<Longrightarrow> tables s' = tables s"
  "get_free_disk_inode s = Inr (i, s') \<Longrightarrow> tables s' = tables s"
  "release_disk_inode i s = Inr s' \<Longrightarrow> tables s' = tables s"
  by (auto simp: get_free_block_def set_block_idle_def get_free_disk_inode_def release_disk_inode_def Let_def
      split: option.splits)

lemma tables_inode [tables_frames]: "write_inode_to_disk i n s = Inr s' \<Longrightarrow> tables s' = tables s"
  by (simp add: write_inode_to_disk_def tables_ram_write)

section \<open>Reading\<close>

lemma tables_read_outer2: "tables (snd r) = T \<Longrightarrow> postE (read_outer2 k sz i r) (\<lambda>r'. tables (snd r') = T)"
proof (induction k sz i r rule: read_outer2.induct)
  case (1 k sz i fo n out s)
  show ?case
    by (subst read_outer2.simps, (unfold Let_def)?, intro post_intros)
      ((rule 1(1); (assumption | rule refl)?)+, use 1(2) in \<open>auto dest!: tables_frames\<close>)
qed

lemma tables_read_middle3: "tables (snd r) = T \<Longrightarrow> postE (read_middle3 k sz i j r) (\<lambda>r'. tables (snd r') = T)"
proof (induction k sz i j r rule: read_middle3.induct)
  case (1 k sz i j fo n out s)
  show ?case
    by (subst read_middle3.simps, (unfold Let_def)?, intro post_intros)
      ((rule 1(1); (assumption | rule refl)?)+, use 1(2) in \<open>auto dest!: tables_frames\<close>)
qed

lemma tables_read_outer3: "tables (snd r) = T \<Longrightarrow> postE (read_outer3 k sz i r) (\<lambda>r'. tables (snd r') = T)"
proof (induction k sz i r rule: read_outer3.induct)
  case (1 k sz i fo n out s)
  show ?case
    by (subst read_outer3.simps, (unfold Let_def)?, intro post_intros)
      ((rule 1(1); (assumption | rule refl)?)+, use 1(2) in \<open>auto dest!: tables_frames postE_D [OF tables_read_middle3, rotated]\<close>)
qed

lemma tables_read_data [tables_frames]: "read_data k fo ino n s = Inr (out, s') \<Longrightarrow> tables s' = tables s"
proof -
  have 1: "tables s = T \<Longrightarrow> postE (read_level1 k ino (r, s)) (\<lambda>r'. tables (snd r') = T)" for r s T
    by (cases r, hypsubst, unfold read_level1_def prod.case)
       (intro post_intros, auto dest!: tables_frames)
  have 2: "tables s = T \<Longrightarrow> postE (read_level2 k ino (r, s)) (\<lambda>r'. tables (snd r') = T)" for r s T
    by (cases r, hypsubst, unfold read_level2_def prod.case)
      (intro post_intros, auto intro!: tables_read_outer2 dest!: tables_frames)
  have 3: "tables s = T \<Longrightarrow> postE (read_level3 k ino (r, s)) (\<lambda>r'. tables (snd r') = T)" for r s T
    by (cases r, hypsubst, unfold read_level3_def prod.case)
      (intro post_intros, auto intro!: tables_read_outer3 dest!: tables_frames)
  have "postE (read_data k fo ino n s) (\<lambda>(out, s'). tables s' = tables s)"
    unfolding read_data_def
    by (intro post_intros)
      (auto intro!: post_intros dest!: postE_D [OF 1, rotated] postE_D [OF 2, rotated] postE_D [OF 3, rotated])
  then show "read_data k fo ino n s = Inr (out, s') \<Longrightarrow> tables s' = tables s" by (auto dest: postE_D)
qed

lemma tables_read_buf [tables_frames]: "read_buf b ino off s = Inr (out, s') \<Longrightarrow> tables s' = tables s"
  by (auto simp: read_buf_def bindE_eq_Inr_iff dest!: tables_frames split: if_splits option.splits)

section \<open>Writing\<close>

lemma tables_write_step [tables_frames]:
  "write_step k mem a (fo, n, w, ino, s) = Inr (fo', n', w', ino', s') \<Longrightarrow> tables s' = tables s"
  by (auto simp: write_step_def Let_def bindE_eq_Inr_iff dest!: tables_frames)

lemma tables_entries [tables_frames]:
  "direct_entry fo ino s = Inr (ino', s') \<Longrightarrow> tables s' = tables s"
  "data_entry fo idx i flag s = Inr (a, idx', flag', s') \<Longrightarrow> tables s' = tables s"
  "enter_level1 fo ino s = Inr (a, ino', s') \<Longrightarrow> tables s' = tables s"
  "enter_level2 fo ino s = Inr (a, ino', s') \<Longrightarrow> tables s' = tables s"
  "enter_level3 fo ino s = Inr (a, ino', s') \<Longrightarrow> tables s' = tables s"
  "enter_index2 fo pre i flag s = Inr (a, flag', s') \<Longrightarrow> tables s' = tables s"
  "enter_index3 fo pre i flag s = Inr (a, flag', s') \<Longrightarrow> tables s' = tables s"
  "store_index a ib s = Inr s' \<Longrightarrow> tables s' = tables s"
  by (auto simp: direct_entry_def data_entry_def enter_level1_def enter_level2_def enter_level3_def
      enter_index2_def enter_index3_def store_index_def bindE_eq_Inr_iff dest!: tables_frames split: if_splits)

abbreviation wr_state :: "wr \<Rightarrow> fs" where "wr_state r \<equiv> snd (snd (snd (snd r)))"

lemma tables_write_direct: "tables (wr_state r) = T \<Longrightarrow> postE (write_direct k mem r) (\<lambda>r'. tables (wr_state r') = T)"
proof (induction k mem r rule: write_direct.induct)
  case (1 k mem fo n w ino s)
  show ?case
    by (subst write_direct.simps, (unfold Let_def)?, intro post_intros)
      ((rule 1(1); (assumption | rule refl)?)+, use 1(2) in \<open>auto dest!: tables_frames\<close>)
qed

lemma tables_write_indexed:
  "tables (wr_state r) = T \<Longrightarrow>
     postE (write_indexed k mem e idx i flag r) (\<lambda>(idx, flag, r'). tables (wr_state r') = T)"
proof (induction k mem e idx i flag r rule: write_indexed.induct)
  case (1 k mem e idx i flag fo n w ino s)
  show ?case
    by (subst write_indexed.simps, (unfold Let_def)?, intro post_intros)
      ((rule 1(1); (assumption | rule refl)?)+, use 1(2) in \<open>auto dest!: tables_frames\<close>)
qed

lemma tables_write_indexed_eq [tables_frames]:
  "write_indexed k mem e idx i flag (fo, n, w, ino, s) = Inr (idx', flag', fo', n', w', ino', s') \<Longrightarrow> tables s' = tables s"
  using postE_D [OF tables_write_indexed [OF refl]] by fastforce

lemma tables_write_outer2:
  "tables (wr_state r) = T \<Longrightarrow> postE (write_outer2 k mem i flag r) (\<lambda>(flag, r'). tables (wr_state r') = T)"
proof (induction k mem i flag r rule: write_outer2.induct)
  case (1 k mem i flag fo n w ino s)
  show ?case
    by (subst write_outer2.simps, (unfold Let_def)?, intro post_intros)
      ((rule 1(1); (assumption | rule refl)?)+, use 1(2) in \<open>auto dest!: tables_frames split: if_splits\<close>)
qed

lemma tables_write_middle3:
  "tables (wr_state r) = T \<Longrightarrow> postE (write_middle3 k mem i j flag r) (\<lambda>(flag, r'). tables (wr_state r') = T)"
proof (induction k mem i j flag r rule: write_middle3.induct)
  case (1 k mem i j flag fo n w ino s)
  show ?case
    by (subst write_middle3.simps, (unfold Let_def)?, intro post_intros)
      ((rule 1(1); (assumption | rule refl)?)+, use 1(2) in \<open>auto dest!: tables_frames split: if_splits\<close>)
qed

lemma tables_write_middle3_eq [tables_frames]:
  "write_middle3 k mem i j flag (fo, n, w, ino, s) = Inr (flag', fo', n', w', ino', s') \<Longrightarrow> tables s' = tables s"
  using postE_D [OF tables_write_middle3 [OF refl]] by fastforce

lemma tables_write_outer3:
  "tables (wr_state r) = T \<Longrightarrow> postE (write_outer3 k mem i flag r) (\<lambda>(flag, r'). tables (wr_state r') = T)"
proof (induction k mem i flag r rule: write_outer3.induct)
  case (1 k mem i flag fo n w ino s)
  show ?case
    by (subst write_outer3.simps, (unfold Let_def)?, intro post_intros)
      ((rule 1(1); (assumption | rule refl)?)+, use 1(2) in \<open>auto dest!: tables_frames split: if_splits\<close>)
qed

lemma tables_write_data [tables_frames]:
  "write_data k mem fo ino n s = Inr (w, ino', s') \<Longrightarrow> tables s' = tables s"
proof -
  have 1: "postE (write_level1 k mem r) (\<lambda>r'. tables (wr_state r') = tables (wr_state r))" for r
    by (cases r, hypsubst, unfold write_level1_def prod.case)
      (intro post_intros, auto intro!: post_intros simp: Let_def dest!: tables_frames split: if_splits)
  have 2: "postE (write_level2 k mem r) (\<lambda>r'. tables (wr_state r') = tables (wr_state r))" for r
    by (cases r, hypsubst, unfold write_level2_def prod.case)
      (intro post_intros, auto intro!: post_intros dest!: tables_frames postE_D [OF tables_write_outer2 [OF refl]] split: if_splits)
  have 3: "postE (write_level3 k mem r) (\<lambda>r'. tables (wr_state r') = tables (wr_state r))" for r
    by (cases r, hypsubst, unfold write_level3_def prod.case)
      (intro post_intros, auto intro!: post_intros dest!: tables_frames postE_D [OF tables_write_outer3 [OF refl]] split: if_splits)
  have "postE (write_data k mem fo ino n s) (\<lambda>(w, ino', s'). tables s' = tables s)"
    unfolding write_data_def
    by (intro post_intros)
      (auto intro!: post_intros dest!: postE_D [OF tables_write_direct [OF refl]] postE_D [OF 1] postE_D [OF 2] postE_D [OF 3])
  then show "write_data k mem fo ino n s = Inr (w, ino', s') \<Longrightarrow> tables s' = tables s" by (auto dest: postE_D)
qed

section \<open>Releasing\<close>

lemma tables_release_indexed [tables_frames]:
  "release_indexed e idx i fo s = Inr (fo', s') \<Longrightarrow> tables s' = tables s"
proof -
  have "tables s = T \<Longrightarrow> postE (release_indexed e idx i fo s) (\<lambda>r. tables (snd r) = T)" for T
  proof (induction e idx i fo s rule: release_indexed.induct)
    case (1 e idx i fo s)
    show ?case
      by (subst release_indexed.simps, (unfold Let_def)?, intro post_intros)
        ((rule 1(1); (assumption | rule refl)?)+, use 1(2) in \<open>auto dest!: tables_frames split: if_splits\<close>)
  qed
  from postE_D [OF this [OF refl]] show "release_indexed e idx i fo s = Inr (fo', s') \<Longrightarrow> tables s' = tables s"
    by fastforce
qed

lemma tables_release_outer2: "tables s = T \<Longrightarrow> postE (release_outer2 sz i fo s) (\<lambda>r. tables (snd r) = T)"
proof (induction sz i fo s rule: release_outer2.induct)
  case (1 sz i fo s)
  show ?case
    by (subst release_outer2.simps, (unfold Let_def)?, intro post_intros)
      ((rule 1(1); (assumption | rule refl)?)+, use 1(2) in \<open>auto dest!: tables_frames split: if_splits\<close>)
qed

lemma tables_release_middle3: "tables s = T \<Longrightarrow> postE (release_middle3 sz i j fo s) (\<lambda>r. tables (snd r) = T)"
proof (induction sz i j fo s rule: release_middle3.induct)
  case (1 sz i j fo s)
  show ?case
    by (subst release_middle3.simps, (unfold Let_def)?, intro post_intros)
      ((rule 1(1); (assumption | rule refl)?)+, use 1(2) in \<open>auto dest!: tables_frames split: if_splits\<close>)
qed

lemma tables_release_outer3: "tables s = T \<Longrightarrow> postE (release_outer3 sz i fo s) (\<lambda>r. tables (snd r) = T)"
proof (induction sz i fo s rule: release_outer3.induct)
  case (1 sz i fo s)
  show ?case
    by (subst release_outer3.simps, (unfold Let_def)?, intro post_intros)
      ((rule 1(1); (assumption | rule refl)?)+,
        use 1(2) in \<open>auto dest!: tables_frames postE_D [OF tables_release_middle3 [OF refl]] split: if_splits\<close>)
qed

lemma tables_release_level [tables_frames]:
  "release_direct ino fo s = Inr (fo', s') \<Longrightarrow> tables s' = tables s"
  "release_level1 ino (fo, s) = Inr (fo', s') \<Longrightarrow> tables s' = tables s"
  "release_level2 ino (fo, s) = Inr (fo', s') \<Longrightarrow> tables s' = tables s"
  "release_level3 ino (fo, s) = Inr (fo', s') \<Longrightarrow> tables s' = tables s"
  by (auto simp: release_direct_def release_level1_def release_level2_def release_level3_def Let_def bindE_eq_Inr_iff
      split: if_splits
      dest!: tables_frames postE_D [OF tables_release_outer2 [OF refl]] postE_D [OF tables_release_outer3 [OF refl]])

lemma tables_release_block [tables_frames]: "release_block ino fo s = Inr s' \<Longrightarrow> tables s' = tables s"
  by (auto simp: release_block_def bindE_eq_Inr_iff dest!: tables_frames)

section \<open>Directories\<close>

lemma tables_flag_eq: "tables s = tables t \<Longrightarrow> block_buf_flag s = block_buf_flag t"
  by (drule arg_cong [of _ _ block_buf_flag]) (simp add: tables_def)

text \<open>A block buffer taken and given back.\<close>

lemma tables_get_buffer:
  "get_free_block_buffer s = (b, s1) \<Longrightarrow> tables s2 = tables s1 \<Longrightarrow> free_block_buffer b s2 = Inr s3 \<Longrightarrow>
     tables s3 = tables s"
proof -
  assume g: "get_free_block_buffer s = (b, s1)" and t: "tables s2 = tables s1" and f: "free_block_buffer b s2 = Inr s3"
  obtain i where i: "b = Some i" using f by (auto simp: free_block_buffer_def split: option.splits)
  then have n: "\<not> block_buf_flag s ! i" "s1 = s\<lparr>block_buf_flag := (block_buf_flag s)[i := True]\<rparr>"
    using g find_upt(1) [of "\<lambda>i. \<not> block_buf_flag s ! i" 20 i]
    unfolding get_free_block_buffer_def by (auto split: option.splits)
  have "s3 = s2\<lparr>block_buf_flag := (block_buf_flag s2)[i := False]\<rparr>"
    using f i by (simp add: free_block_buffer_def)
  then have "tables s3 = (tables s2)\<lparr>block_buf_flag := (block_buf_flag s2)[i := False]\<rparr>" by (simp add: tables_flags)
  also have "\<dots> = (tables s)\<lparr>block_buf_flag := (block_buf_flag s)[i := False]\<rparr>"
    using tables_flag_eq [OF t] t n(2) by (simp add: tables_flags)
  also have "(block_buf_flag s)[i := False] = block_buf_flag s"
    using n(1) list_update_id [of "block_buf_flag s" i] by simp
  also have "(tables s)\<lparr>block_buf_flag := block_buf_flag s\<rparr> = tables s" by (simp add: tables_def)
  finally show ?thesis .
qed

lemma tables_read_dir_loop:
  "postE (read_dir_loop ino b name off s)
     (\<lambda>(r, s'). \<exists>t. tables t = tables s \<and> free_block_buffer b t = Inr s')"
proof (induction ino b name off s rule: read_dir_loop.induct)
  case (1 ino b name off s)
  show ?case
  proof (subst read_dir_loop.simps, intro post_intros, goal_cases)
    case (1 x a b)
    then show ?case by (auto dest!: tables_frames)
  next
    case (2 x a b xa)
    with "1" show ?case by (auto dest!: tables_frames)
  qed (auto dest!: tables_frames)
qed

lemma tables_read_dir_entry [tables_frames]:
  "read_dir_entry d name s = Inr (r, s') \<Longrightarrow> tables s' = tables s"
  by (cases "get_free_block_buffer s")
    (auto simp: read_dir_entry_def bindE_eq_Inr_iff dest!: postE_D [OF tables_read_dir_loop]
      intro: tables_get_buffer)

lemma tables_add_inode [tables_frames]:
  "add_inode_into_dir d name ix s = Inr s' \<Longrightarrow> tables s' = tables s"
  by (auto simp: add_inode_into_dir_def pop_name_def bindE_eq_Inr_iff dest!: tables_frames)

lemma tables_pop [simp]: "tables (snd (pop_inode s)) = tables s" "tables (snd (pop_name s)) = tables s"
  by (simp_all add: pop_inode_def pop_name_def)

end
