(* ===== verification/Fs_Delete.thy ===== *)
theory Fs_Delete
  imports Fs_Tables
begin

text \<open>
  Deleting files and directories (src/kernel/file_system/fm_syscall.c, from \<open>_delete_file\<close> to
  \<open>_remove_inode_from_dir\<close>). The recursion over a directory tree holds one of the twenty block
  buffers per level, so its depth is bounded: the fuel 21 of \<open>delete_dir_by_inode\<close> is never used
  up. The search loop of \<open>remove_inode_from_dir\<close> may not end; it is a \<open>partial_function\<close>.
\<close>

section \<open>A file and a tree\<close>

definition delete_file_by_inode :: "int \<Rightarrow> inode \<Rightarrow> fs \<Rightarrow> fs exec" where
  "delete_file_by_inode index ino s = bindE (release_block ino 0 s) (release_disk_inode index)"

text \<open>The entries of the chunk in the buffer; \<open>rec\<close> is the recursive call.\<close>

function delete_entries :: "(int \<Rightarrow> inode \<Rightarrow> fs \<Rightarrow> fs exec) \<Rightarrow> nat option \<Rightarrow> nat \<Rightarrow> int \<Rightarrow> fs \<Rightarrow> fs exec" where
  "delete_entries rec b p readed_len s =
     (if 0 < readed_len then
        bindE (strcmp (drop p (the_buf b s)) [46, 0]) (\<lambda>c1.
        bindE (if c1 \<noteq> 0 then strcmp (drop p (the_buf b s)) [46, 46, 0] else Inr 0) (\<lambda>c2.
        bindE (if c2 \<noteq> 0
               then let cur_index = entry_index (the_buf b s) p in
                 bindE (read_inode_from_disk cur_index s) (\<lambda>cur_inode. rec cur_index cur_inode s)
               else Inr s)
          (delete_entries rec b (p + 36) (readed_len - dirent_size))))
      else Inr s)"
  by pat_completeness auto
termination
  by (relation "measure (\<lambda>(rec, b, p, r, s). nat r)") auto

function delete_chunks ::
  "(int \<Rightarrow> inode \<Rightarrow> fs \<Rightarrow> fs exec) \<Rightarrow> nat option \<Rightarrow> inode \<Rightarrow> int \<Rightarrow> fs \<Rightarrow> fs exec" where
  "delete_chunks rec b ino off s =
     bindE (read_buf b ino off s) (\<lambda>(out, s).
       if out = [] then Inr s
       else bindE (delete_entries rec b 0 (int (length out)) s)
              (delete_chunks rec b ino (off + int (length out))))"
  by pat_completeness auto
termination
  by (relation "measure (\<lambda>(rec, b, ino, off, s). nat (isize ino - off))") (auto dest: read_buf_bound)

declare delete_entries.simps [simp del] delete_chunks.simps [simp del]

primrec delete_dir_by_inode :: "nat \<Rightarrow> int \<Rightarrow> inode \<Rightarrow> fs \<Rightarrow> fs exec" where
  "delete_dir_by_inode 0 index ino s = Inl Loops"
| "delete_dir_by_inode (Suc fuel) index ino s =
     (if itype ino = PLAIN then delete_file_by_inode index ino s
      else case get_free_block_buffer s of (b, s) \<Rightarrow>
        bindE (delete_chunks (delete_dir_by_inode fuel) b ino 0 s) (\<lambda>s.
        bindE (free_block_buffer b s) (delete_file_by_inode index ino)))"

section \<open>Removing an entry\<close>

text \<open>
  Where byte \<open>off\<close> of a directory is on the disk, by the level it is in. The double indexed
  level and the triple one read their index blocks into the shared buffers; the triple one takes
  its second address from \<open>index_block2\<close>, which holds what an earlier call left there.
\<close>

definition entry_addr :: "inode \<Rightarrow> int \<Rightarrow> fs \<Rightarrow> (u32 \<times> fs) exec" where
  "entry_addr ino off s =
     (if off < level_end0 then
        bindE (idx_at (blk ino) (cdiv off BLOCK_SIZE)) (\<lambda>a. Inr (a, s))
      else if off < level_end1 then
        bindE (idx_at (blk ino) 12) (\<lambda>a. bindE (load1 a s) (\<lambda>s.
        bindE (idx_at (index_block1 s) (cdiv (off - level_end0) BLOCK_SIZE)) (\<lambda>a. Inr (a, s))))
      else if off < level_end2 then
        bindE (idx_at (blk ino) 13) (\<lambda>a. bindE (load1 a s) (\<lambda>s.
        bindE (idx_at (index_block1 s) (cdiv (off - level_end1) index_one_size)) (\<lambda>a. bindE (load2 a s) (\<lambda>s.
        bindE (idx_at (index_block2 s) (cdiv (cmod (off - level_end1) index_one_size) BLOCK_SIZE))
          (\<lambda>a. Inr (a, s))))))
      else
        bindE (idx_at (blk ino) 14) (\<lambda>a. bindE (load1 a s) (\<lambda>s.
        bindE (idx_at (index_block2 s) (cdiv (off - level_end2) index_two_size)) (\<lambda>a. bindE (load2 a s) (\<lambda>s.
        bindE (idx_at (index_block2 s) (cdiv (cmod (off - level_end2) index_two_size) index_one_size))
          (\<lambda>a. bindE (load3 a s) (\<lambda>s.
        bindE (idx_at (index_block3 s)
                 (cdiv (cmod (cmod (off - level_end2) index_two_size) index_one_size) BLOCK_SIZE))
          (\<lambda>a. Inr (a, s)))))))))"

function overwrite_entry :: "inode \<Rightarrow> u8 list \<Rightarrow> int \<Rightarrow> int \<Rightarrow> fs \<Rightarrow> fs exec" where
  "overwrite_entry ino p off n s =
     (if 0 < n then
        bindE (entry_addr ino off s) (\<lambda>(a, s).
          let ramdisk_offset = a + u32_of (cmod off BLOCK_SIZE);
              cur_len = cur_write_len n off in
          bindE (ram_write True (sint ramdisk_offset) (take (nat cur_len) p) s)
            (overwrite_entry ino (drop (nat cur_len) p) (off + cur_len) (n - cur_len)))
      else Inr s)"
  by pat_completeness auto
termination
  by (relation "measure (\<lambda>(ino, p, off, n, s). nat n)") (auto simp: cur_write_len_pos)

declare overwrite_entry.simps [simp del]

text \<open>
  \<open>_remove_inode_from_dir\<close>: the last entry replaces the one at \<open>position\<close>.
\<close>

definition remove_at :: "inode \<Rightarrow> nat \<Rightarrow> fs \<Rightarrow> fs exec" where
  "remove_at parent_inode position s =
     bindE (read_data True (isize parent_inode - dirent_size) parent_inode dirent_size s) (\<lambda>(last_dir, s).
     bindE (release_block parent_inode (isize parent_inode - dirent_size) s)
       (overwrite_entry parent_inode last_dir (int position * dirent_size) dirent_size))"

text \<open>The search among the entries of a chunk: a position, or what is left of \<open>readed_len\<close>.\<close>

function find_position :: "u8 list \<Rightarrow> u8 list \<Rightarrow> nat \<Rightarrow> int \<Rightarrow> nat \<Rightarrow> (nat + int \<times> nat) exec" where
  "find_position B name p readed_len position =
     (if 0 < readed_len then
        bindE (strcmp name (drop p B))
          (\<lambda>c. if c = 0 then Inr (Inl position)
               else find_position B name (p + 36) (readed_len - dirent_size) (Suc position))
      else Inr (Inr (readed_len, position)))"
  by pat_completeness auto
termination
  by (relation "measure (\<lambda>(B, name, p, r, k). nat r)") auto

declare find_position.simps [simp del]

text \<open>
  The loop adds \<open>readed_len\<close> to the offset after the search has counted it down to 0, so it
  reads the same chunk again.
\<close>

partial_function (option) remove_loop ::
  "nat option \<Rightarrow> inode \<Rightarrow> int \<Rightarrow> u8 list \<Rightarrow> int \<Rightarrow> nat \<Rightarrow> fs \<Rightarrow> fs exec option" where
  "remove_loop b ino parent_index name off position s =
     (case read_buf b ino off s of
        Inl e \<Rightarrow> Some (Inl e)
      | Inr (out, s) \<Rightarrow>
          if out = [] then Some (free_block_buffer b s)
          else (case find_position (the_buf b s) name 0 (int (length out)) position of
              Inl e \<Rightarrow> Some (Inl e)
            | Inr (Inl pos) \<Rightarrow>
                Some (bindE (remove_at ino pos s) (\<lambda>s.
                  bindE (write_inode_to_disk parent_index (ino\<lparr>isize := isize ino - dirent_size\<rparr>) s)
                    (free_block_buffer b)))
            | Inr (Inr (readed_len, pos)) \<Rightarrow> remove_loop b ino parent_index name (off + readed_len) pos s))"

definition remove_inode_from_dir :: "int \<Rightarrow> u8 list \<Rightarrow> fs \<Rightarrow> fs exec" where
  "remove_inode_from_dir parent_index name s =
     bindE (read_inode_from_disk parent_index s) (\<lambda>dir_inode.
       case get_free_block_buffer s of (b, s) \<Rightarrow>
         (case remove_loop b dir_inode parent_index name 0 0 s of None \<Rightarrow> Inl Loops | Some r \<Rightarrow> r))"

section \<open>Walking to the file\<close>

text \<open>
  A path is what is left of the 256-byte buffer. The characters up to the next slash or NUL;
  without either the scan leaves the buffer.
\<close>

fun path_seg :: "u8 list \<Rightarrow> nat exec" where
  "path_seg [] = Inl OutOfRange"
| "path_seg (c # path) = (if c \<noteq> 0 \<and> c \<noteq> 47 then bindE (path_seg path) (\<lambda>i. Inr (Suc i)) else Inr 0)"

lemma path_seg_less: "path_seg path = Inr i \<Longrightarrow> i < length path"
  by (induction path arbitrary: i rule: path_seg.induct) (auto simp: bindE_eq_Inr_iff split: if_splits)

text \<open>\<open>cur_dir.index = dir->index; strcpy(cur_dir.filename, dir->filename)\<close>\<close>

definition copy_entry :: "dirent \<Rightarrow> dirent exec" where
  "copy_entry d = bindE (strcpy (replicate 32 0) (filename d)) (\<lambda>fn. Inr \<lparr>filename = fn, dindex = dindex d\<rparr>)"

text \<open>After the deletion the loop goes on behind the NUL, in the directory just deleted.\<close>

function delete_walk :: "dirent \<Rightarrow> u8 list \<Rightarrow> bool \<Rightarrow> bool \<Rightarrow> fs \<Rightarrow> fs exec" where
  "delete_walk cur path is_file flag s =
     bindE (path_seg path) (\<lambda>i.
       let flag = (flag \<or> path ! i \<noteq> 47); name = path[i := 0] in
       bindE (read_dir_entry (dindex cur) name s) (\<lambda>(r, s).
         case r of
           None \<Rightarrow> Inr s
         | Some next \<Rightarrow>
             if flag then
               bindE (read_inode_from_disk (dindex next) s) (\<lambda>ino.
                 if (is_file \<and> itype ino = DIR) \<or> (\<not> is_file \<and> itype ino = PLAIN) then Inr s
                 else bindE (delete_dir_by_inode 21 (dindex next) ino s) (\<lambda>s.
                   bindE (remove_inode_from_dir (dindex cur) (filename next) s) (\<lambda>s.
                   bindE (copy_entry next) (\<lambda>cur. delete_walk cur (drop (Suc i) path) is_file flag s))))
             else bindE (copy_entry next) (\<lambda>cur. delete_walk cur (drop (Suc i) path) is_file flag s)))"
  by pat_completeness auto
termination
  by (relation "measure (\<lambda>(cur, path, is_file, flag, s). length path)") (auto dest: path_seg_less)

declare delete_walk.simps [simp del]

definition delete_file :: "dirent \<Rightarrow> u8 list \<Rightarrow> bool \<Rightarrow> fs \<Rightarrow> fs exec" where
  "delete_file dir path is_file s = bindE (copy_entry dir) (\<lambda>cur. delete_walk cur path is_file False s)"

section \<open>The search for an entry\<close>

lemma find_position_none:
  assumes "0 \<in> set name" and "\<And>j. i \<le> j \<Longrightarrow> j < k \<Longrightarrow> 0 \<in> set (drop (36 * j) B)"
    and "\<And>j. i \<le> j \<Longrightarrow> j < k \<Longrightarrow> cstr (drop (36 * j) B) \<noteq> cstr name" and "i \<le> k"
  shows "find_position B name (36 * i) (36 * (int k - int i)) pos = Inr (Inr (0, pos + (k - i)))"
  using assms(2-4)
proof (induction "k - i" arbitrary: i pos)
  case 0
  then show ?case by (simp add: find_position.simps)
next
  case (Suc m)
  then have lt: "i < k" by simp
  obtain c where c: "strcmp name (drop (36 * i) B) = Inr c"
    using strcmp_defined [of name "drop (36 * i) B"] Suc.prems(1) [of i] lt assms(1) by auto
  have z: "c \<noteq> 0"
    using strcmp_zero_iff [of name "drop (36 * i) B"] Suc.prems(1,2) [of i] lt assms(1) c by auto
  have "find_position B name (36 * Suc i) (36 * (int k - int (Suc i))) (Suc pos) = Inr (Inr (0, Suc pos + (k - Suc i)))"
    by (rule Suc.hyps(1)) (use Suc in auto)
  moreover have "36 * (int k - int i) - 36 = 36 * (int k - int (Suc i))" "36 * i + 36 = 36 * Suc i" by simp_all
  moreover have "0 < 36 * (int k - int i)" "Suc pos + (k - Suc i) = pos + (k - i)" using lt by simp_all
  ultimately show ?case using c z
    by (subst find_position.simps) (simp only: if_True bindE_Inr, auto)
qed

text \<open>The buffer after the first chunk is read.\<close>

lemma first_chunk:
  assumes ok: "dir_ok s ino" and n: "0 < fsize ino" and buf: "length (block_buf s i) = 256"
  obtains out s' where "read_buf (Some i) ino 0 s = Inr (out, s')" and "scratch s s'"
    and "length (block_buf s' i) = 256" and "length out = 36 * min 7 (fsize ino div 36)" and "out \<noteq> []"
    and "\<And>j. j < min 7 (fsize ino div 36) \<Longrightarrow> 0 \<in> set (drop (36 * j) (block_buf s' i)) \<and>
      cstr (drop (36 * j) (block_buf s' i)) = entry_name (file_data (disk s) ino) j"
proof -
  let ?n = "fsize ino div 36" and ?D = "file_data (disk s) ino"
  let ?m = "min 7 ?n"
  have pos: "0 < ?n" and len: "length ?D = 36 * ?n" using ok n by (auto simp: dir_ok_def)
  obtain s' R where rd: "read_buf (Some i) ino 0 s = Inr (take (36 * ?m) ?D, s')" and sc: "scratch s s'"
    and bl: "length (block_buf s' i) = 256" and B: "block_buf s' i = take (36 * ?m) ?D @ R"
    using read_buf_spec [OF ok pos buf] by auto
  have C: "length (take (36 * ?m) ?D) = 36 * ?m" "take (36 * ?m) ?D \<noteq> []"
    using len pos by (simp, simp flip: length_greater_0_conv)
  have "0 \<in> set (drop (36 * j) (block_buf s' i)) \<and> cstr (drop (36 * j) (block_buf s' i)) = entry_name ?D j"
    if "j < ?m" for j
  proof -
    have "take 32 (drop (36 * j) (block_buf s' i)) = take 32 (drop (36 * j) ?D)"
    proof -
      have "36 * (0 + ?m) \<le> length ?D" using len by simp
      from chunk_entry(1) [OF this that, of R] show ?thesis
        unfolding B by (simp only: mult_0_right drop_0 add_0)
    qed
    moreover have "0 \<in> set (take 32 (drop (36 * j) ?D))" using ok that by (auto simp: dir_ok_def)
    ultimately show ?thesis using take_cstr_eq by (simp add: entry_name_def)
  qed
  with that [OF rd sc bl C] show ?thesis .
qed

definition far_entry :: "nat \<Rightarrow> nat option \<Rightarrow> inode \<Rightarrow> u8 list \<Rightarrow> int \<Rightarrow> fs \<Rightarrow> bool" where
  "far_entry i b ino name off s \<longleftrightarrow> b = Some i \<and> off = 0 \<and> dir_ok s ino \<and> 0 < fsize ino \<and>
     length (block_buf s i) = 256 \<and> 0 \<in> set name \<and>
     (\<forall>j < min 7 (fsize ino div 36). entry_name (file_data (disk s) ino) j \<noteq> cstr name)"

lemma far_round:
  assumes "far_entry i b ino name off s"
  shows "\<exists>out s'. read_buf b ino off s = Inr (out, s') \<and> out \<noteq> [] \<and> far_entry i b ino name off s' \<and>
    (\<exists>pos'. find_position (the_buf b s') name 0 (int (length out)) pos = Inr (Inr (0, pos')))"
proof -
  have h: "b = Some i" "off = 0" "dir_ok s ino" "0 < fsize ino" "length (block_buf s i) = 256" "0 \<in> set name"
    and far: "\<And>j. j < min 7 (fsize ino div 36) \<Longrightarrow> entry_name (file_data (disk s) ino) j \<noteq> cstr name"
    using assms by (auto simp: far_entry_def)
  let ?m = "min 7 (fsize ino div 36)"
  obtain out s' where rd: "read_buf (Some i) ino 0 s = Inr (out, s')" "scratch s s'"
    "length (block_buf s' i) = 256" "length out = 36 * ?m" "out \<noteq> []"
    and nm: "\<And>j. j < ?m \<Longrightarrow> 0 \<in> set (drop (36 * j) (block_buf s' i)) \<and>
      cstr (drop (36 * j) (block_buf s' i)) = entry_name (file_data (disk s) ino) j"
    using first_chunk [OF h(3-5)] by blast
  have "find_position (block_buf s' i) name (36 * 0) (36 * (int ?m - int 0)) pos = Inr (Inr (0, pos + (?m - 0)))"
    by (rule find_position_none) (use nm h(6) far in auto)
  then have "find_position (the_buf b s') name 0 (int (length out)) pos = Inr (Inr (0, pos + ?m))"
    using rd(4) h(1) by (simp add: the_buf_def)
  moreover have "far_entry i b ino name off s'"
    using h far rd(3) dir_ok_scratch [OF rd(2) h(3)] rd(2) by (simp add: far_entry_def frame_simps)
  ultimately show ?thesis using rd(1,5) h(1,2) by blast
qed

lemma remove_loop_far: "far_entry i b ino name off s \<Longrightarrow> remove_loop b ino parent name off pos s = None"
proof (rule ccontr)
  assume far: "far_entry i b ino name off s" and "remove_loop b ino parent name off pos s \<noteq> None"
  then obtain r where "remove_loop b ino parent name off pos s = Some r" by blast
  then have "far_entry i b ino name off s \<longrightarrow> False"
  proof (rule remove_loop.raw_induct
      [where P = "\<lambda>b ino parent name off pos s r. far_entry i b ino name off s \<longrightarrow> False", rotated])
    fix loop :: "nat option \<Rightarrow> inode \<Rightarrow> int \<Rightarrow> u8 list \<Rightarrow> int \<Rightarrow> nat \<Rightarrow> fs \<Rightarrow> fs exec option"
      and b ino parent name off pos s r
    assume ih: "\<And>b ino parent name off pos s r.
        loop b ino parent name off pos s = Some r \<Longrightarrow> far_entry i b ino name off s \<longrightarrow> False"
    assume eq: "(case read_buf b ino off s of Inl e \<Rightarrow> Some (Inl e)
      | Inr (out, s) \<Rightarrow>
          if out = [] then Some (free_block_buffer b s)
          else (case find_position (the_buf b s) name 0 (int (length out)) pos of
              Inl e \<Rightarrow> Some (Inl e)
            | Inr (Inl pos) \<Rightarrow>
                Some (bindE (remove_at ino pos s) (\<lambda>s.
                  bindE (write_inode_to_disk parent (ino\<lparr>isize := isize ino - dirent_size\<rparr>) s)
                    (free_block_buffer b)))
            | Inr (Inr (readed_len, pos)) \<Rightarrow> loop b ino parent name (off + readed_len) pos s)) = Some r"
    show "far_entry i b ino name off s \<longrightarrow> False"
    proof
      assume "far_entry i b ino name off s"
      from far_round [OF this, of pos] eq obtain s' pos' where
        "loop b ino parent name off pos' s' = Some r" "far_entry i b ino name off s'" by auto
      with ih show False by blast
    qed
  qed
  with far show False by blast
qed

section \<open>What deletion leaves alone\<close>

definition keeps_tables :: "(int \<Rightarrow> inode \<Rightarrow> fs \<Rightarrow> fs exec) \<Rightarrow> bool" where
  "keeps_tables f \<longleftrightarrow> (\<forall>i n s s'. f i n s = Inr s' \<longrightarrow> tables s' = tables s)"

lemma tables_delete_entries:
  assumes "keeps_tables rec"
  shows "tables s = T \<Longrightarrow> postE (delete_entries rec b p r s) (\<lambda>s'. tables s' = T)"
  using assms
proof (induction rec b p r s rule: delete_entries.induct)
  case (1 rec b p r s)
  have rec: "rec i n t = Inr t' \<Longrightarrow> tables t' = tables t" for i n t t' using 1(3) by (simp add: keeps_tables_def)
  show ?case
    by (subst delete_entries.simps, intro post_intros)
      ((rule 1(1); (assumption | rule refl)?)+,
        use 1(2,3) rec in \<open>auto simp: Let_def bindE_eq_Inr_iff split: if_splits\<close>)
qed

lemma tables_delete_chunks:
  assumes "keeps_tables rec"
  shows "tables s = T \<Longrightarrow> postE (delete_chunks rec b ino off s) (\<lambda>s'. tables s' = T)"
  using assms
proof (induction rec b ino off s rule: delete_chunks.induct)
  case (1 rec b ino off s)
  note entries = postE_D [OF tables_delete_entries [OF 1(3) refl]] and ih = 1(1) and T = 1(2) and rec = 1(3)
  show ?case
  proof (subst delete_chunks.simps, intro post_intros, goal_cases)
    case (1 x a c)
    then show ?case using T by (auto dest!: tables_frames)
  next
    case (2 x a c t)
    show ?case
      by (rule ih [OF 2(1,2) 2(3,4)]) (use 2 T rec in \<open>auto dest!: tables_frames entries\<close>)
  qed
qed

lemma tables_delete_file_by_inode [tables_frames]:
  "delete_file_by_inode i n s = Inr s' \<Longrightarrow> tables s' = tables s"
  by (auto simp: delete_file_by_inode_def bindE_eq_Inr_iff dest!: tables_frames)

lemma keeps_delete_dir: "keeps_tables (delete_dir_by_inode fuel)"
proof (induction fuel)
  case 0
  then show ?case by (simp add: keeps_tables_def)
next
  case (Suc fuel)
  note chunks = postE_D [OF tables_delete_chunks [OF Suc refl]]
  show ?case unfolding keeps_tables_def
  proof (intro allI impI)
    fix i n s s'
    assume r: "delete_dir_by_inode (Suc fuel) i n s = Inr s'"
    obtain b t where g: "get_free_block_buffer s = (b, t)" by fastforce
    show "tables s' = tables s" using r g
      by (auto simp: bindE_eq_Inr_iff split: if_splits dest!: chunks tables_delete_file_by_inode
          dest: tables_get_buffer)
  qed
qed

lemma tables_delete_dir [tables_frames]: "delete_dir_by_inode fuel i n s = Inr s' \<Longrightarrow> tables s' = tables s"
  using keeps_delete_dir by (simp add: keeps_tables_def)

lemma tables_entry_addr [tables_frames]: "entry_addr ino off s = Inr (a, s') \<Longrightarrow> tables s' = tables s"
  by (auto simp: entry_addr_def bindE_eq_Inr_iff split: if_splits dest!: tables_load)

lemma tables_overwrite: "tables s = T \<Longrightarrow> postE (overwrite_entry ino p off n s) (\<lambda>s'. tables s' = T)"
proof (induction ino p off n s rule: overwrite_entry.induct)
  case (1 ino p off n s)
  show ?case
    by (subst overwrite_entry.simps, (unfold Let_def)?, intro post_intros)
      ((rule 1(1); (assumption | rule refl)?)+, use 1(2) in \<open>auto dest!: tables_frames\<close>)
qed

lemma tables_remove_at [tables_frames]: "remove_at ino pos s = Inr s' \<Longrightarrow> tables s' = tables s"
  by (auto simp: remove_at_def bindE_eq_Inr_iff dest!: tables_frames postE_D [OF tables_overwrite [OF refl]])

lemma tables_remove_loop:
  assumes "remove_loop b ino parent name off pos s = Some r"
  shows "postE r (\<lambda>s'. \<exists>t. tables t = tables s \<and> free_block_buffer b t = Inr s')"
  using assms
proof (rule remove_loop.raw_induct [where P = "\<lambda>b ino parent name off pos s r.
    postE r (\<lambda>s'. \<exists>t. tables t = tables s \<and> free_block_buffer b t = Inr s')", rotated], goal_cases)
  case (1 loop b ino parent name off pos s r)
  note ih = 1(1) and eq = 1(2)
  show ?case
  proof (cases "read_buf b ino off s")
    case (Inl e)
    with eq show ?thesis by (auto intro: post_intros)
  next
    case (Inr x)
    then obtain out t where rd: "read_buf b ino off s = Inr (out, t)" by (cases x) auto
    then have t: "tables t = tables s" by (rule tables_read_buf)
    show ?thesis
    proof (cases "out = []")
      case True
      then show ?thesis using eq rd t by (auto simp: postE_def)
    next
      case False
      show ?thesis
      proof (cases "find_position (the_buf b t) name 0 (int (length out)) pos")
        case (Inl e)
        with eq rd False show ?thesis by (auto intro: post_intros)
      next
        case (Inr y)
        show ?thesis
        proof (cases y)
          case (Inl k)
          with eq rd False Inr t show ?thesis
            by (auto simp: postE_def bindE_eq_Inr_iff dest!: tables_frames) blast
        next
          case rp: (Inr z)
          obtain n k where "z = (n, k)" by fastforce
          with eq rd False Inr rp have "loop b ino parent name (off + n) k t = Some r" by simp
          from ih [OF this] t show ?thesis by simp
        qed
      qed
    qed
  qed
qed

lemma tables_remove_inode [tables_frames]:
  assumes "remove_inode_from_dir parent name s = Inr s'"
  shows "tables s' = tables s"
proof -
  obtain b t where g: "get_free_block_buffer s = (b, t)" by fastforce
  with assms obtain ino r where "remove_loop b ino parent name 0 0 t = Some r" "r = Inr s'"
    by (auto simp: remove_inode_from_dir_def bindE_eq_Inr_iff split: option.splits)
  from postE_D [OF tables_remove_loop [OF this(1)] this(2)] show ?thesis
    using g by (auto intro: tables_get_buffer)
qed

lemma tables_delete_walk: "tables s = T \<Longrightarrow> postE (delete_walk cur path is_file flag s) (\<lambda>s'. tables s' = T)"
proof (induction cur path is_file flag s rule: delete_walk.induct)
  case (1 cur path is_file flag s)
  note ih1 = 1(1) and ih2 = 1(2) and T = 1(3)
  show ?case
  proof (subst delete_walk.simps, unfold Let_def, intro post_intros, goal_cases)
    case 1
    then show ?case using T by (auto dest!: tables_frames)
  next
    case 2
    then show ?case using T by (auto dest!: tables_frames)
  next
    case 3
    show ?case
      by (rule ih1 [OF 3(1) refl refl 3(2)]) (use T 3 in \<open>auto dest!: tables_frames\<close>)
  next
    case 4
    show ?case
      by (rule ih2 [OF 4(1) refl refl 4(2)]) (use T 4 in \<open>auto dest!: tables_frames\<close>)
  qed
qed

section \<open>The depth of the recursion\<close>








section \<open>Properties\<close>



text \<open>
  C34. Removing an entry never returns when its name is not among the first seven entries of
  the directory: the search reads the first chunk again and again.
\<close>

theorem remove_far_entry_loops:
  assumes "dir_at s d D" and "entries D \<noteq> []" and "buffers_ok s" and "0 \<in> set name"
    and "cstr name \<notin> set (map fst (take 7 (entries D)))"
  shows "remove_inode_from_dir d name s = Inl Loops"
proof -
  obtain ino where ino: "read_inode_from_disk d s = Inr ino" "dir_ok s ino" "D = file_data (disk s) ino"
    using assms(1) by (auto simp: dir_at_def)
  obtain i where i: "get_free_block_buffer s = (Some i, s\<lparr>block_buf_flag := (block_buf_flag s)[i := True]\<rparr>)"
    "i < 20" using get_buffer_ok [OF assms(3)] .
  let ?s = "s\<lparr>block_buf_flag := (block_buf_flag s)[i := True]\<rparr>"
  have n: "length (entries D) = fsize ino div 36" using ino(3) by (simp add: entries_def)
  have "entry_name D j \<noteq> cstr name" if "j < min 7 (fsize ino div 36)" for j
  proof
    assume e: "entry_name D j = cstr name"
    have "j < length (take 7 (entries D))" using that n by simp
    then have "fst (take 7 (entries D) ! j) \<in> set (map fst (take 7 (entries D)))"
      unfolding set_map by (intro imageI nth_mem)
    moreover have "take 7 (entries D) ! j = (entry_name D j, entry_index D (36 * j))"
      using that ino(3) by (simp add: entries_def)
    ultimately show False using e assms(5) by simp
  qed
  moreover have "0 < fsize ino" using assms(2) n by (cases "fsize ino") auto
  ultimately have "far_entry i (Some i) ino name 0 ?s"
    using ino(2,3) assms(3,4) i(2) by (simp add: far_entry_def buffers_ok_def)
  then show ?thesis using ino(1) i(1) remove_loop_far by (simp add: remove_inode_from_dir_def)
qed

theorem remove_far_entry_loops_witness:
  "\<exists>s'. add_inode_into_dir 7 [104, 105, 0] 9 fs0 = Inr s' \<and> remove_inode_from_dir 7 [104, 111, 0] s' = Inl Loops"
proof -
  obtain s' D' where s': "add_inode_into_dir 7 [104, 105, 0] 9 fs0 = Inr s'" "dir_at s' 7 D'" "buffers_ok s'"
    "entries D' = [([104, 105], 9)]"
    using add_entry_spec [of 7 fs0 blank_dir "[104, 105, 0]" 9] blank_inode [of 7] blank_dir_ok
    by (auto simp: idle_fs0 nblocks_def i32_range_def entries_def)
  then show ?thesis using remove_far_entry_loops [of s' 7 D' "[104, 111, 0]"] by auto
qed

end
