(* ===== verification/Fs_Path.thy ===== *)
theory Fs_Path
  imports Fs_Delete
begin

text \<open>
  Paths (src/kernel/file_system/fm_syscall.c): \<open>read_inode\<close> finds the vnode of a path,
  \<open>_create\<close> and \<open>_create_dir\<close> make files and directories. A path is what is left of the
  256-byte buffer of the caller; each round of a loop takes one segment off it.
\<close>

section \<open>Opening\<close>

text \<open>Lines 717-730: the vnode in use for an inode, or a fresh one read from the disk.\<close>

definition vnode_of :: "int \<Rightarrow> fs \<Rightarrow> (nat \<times> fs) exec" where
  "vnode_of index s =
     (case search_vnode_by_index index s of
        None \<Rightarrow>
          bindE (get_free_vnode s) (\<lambda>(v, s).
          bindE (read_inode_from_disk index s) (\<lambda>ino.
            Inr (v, set_vnode v ((vnode_array s v)\<lparr>vindex := index, vinode := ino\<rparr>) s)))
      | Some v \<Rightarrow> Inr (v, set_vnode v ((vnode_array s v)\<lparr>vcount := vcount (vnode_array s v) + 1\<rparr>) s))"

function read_inode_walk :: "dirent \<Rightarrow> u8 list \<Rightarrow> fs \<Rightarrow> (nat option \<times> fs) exec" where
  "read_inode_walk cur path s =
     bindE (path_seg path) (\<lambda>i.
       bindE (read_dir_entry (dindex cur) (path[i := 0]) s) (\<lambda>(r, s).
         case r of
           None \<Rightarrow> Inr (None, s)
         | Some next \<Rightarrow>
             if path ! i \<noteq> 47 then bindE (vnode_of (dindex next) s) (\<lambda>(v, s). Inr (Some v, s))
             else bindE (copy_entry next) (\<lambda>cur. read_inode_walk cur (drop (Suc i) path) s)))"
  by pat_completeness auto
termination
  by (relation "measure (\<lambda>(cur, path, s). length path)") (auto dest: path_seg_less)

declare read_inode_walk.simps [simp del]

definition read_inode :: "dirent \<Rightarrow> u8 list \<Rightarrow> fs \<Rightarrow> (nat option \<times> fs) exec" where
  "read_inode dir path s =
     (case path of
        [] \<Rightarrow> Inl OutOfRange
      | c # _ \<Rightarrow> if c = 0 then Inr (None, s)
                else bindE (copy_entry dir) (\<lambda>cur. read_inode_walk cur path s))"

section \<open>Making directories\<close>

text \<open>Lines 879-894: a new directory with the entries \<open>.\<close> and \<open>..\<close>.\<close>

definition make_dir :: "int \<Rightarrow> u8 list \<Rightarrow> fs \<Rightarrow> (dirent \<times> fs) exec" where
  "make_dir parent path s =
     bindE (get_free_disk_inode s) (\<lambda>(index, s).
       case pop_inode s of (junk, s) \<Rightarrow>
         bindE (write_inode_to_disk index (junk\<lparr>isize := 0, itype := DIR, ilink := 1\<rparr>) s) (\<lambda>s.
         bindE (add_inode_into_dir parent path index s) (\<lambda>s.
         bindE (add_inode_into_dir index [46, 0] index s) (\<lambda>s.
         bindE (add_inode_into_dir index [46, 46, 0] parent s) (\<lambda>s.
         bindE (strcpy (replicate 32 0) path) (\<lambda>fn. Inr (\<lparr>filename = fn, dindex = index\<rparr>, s)))))))"

function create_dir_walk :: "dirent \<Rightarrow> u8 list \<Rightarrow> fs \<Rightarrow> (dirent \<times> fs) exec" where
  "create_dir_walk cur path s =
     bindE (path_seg path) (\<lambda>i.
       bindE (read_dir_entry (dindex cur) (path[i := 0]) s) (\<lambda>(r, s).
       bindE (case r of None \<Rightarrow> make_dir (dindex cur) (path[i := 0]) s | Some next \<Rightarrow> Inr (next, s))
         (\<lambda>(next, s). bindE (copy_entry next) (\<lambda>cur.
           if path ! i \<noteq> 47 then Inr (cur, s) else create_dir_walk cur (drop (Suc i) path) s))))"
  by pat_completeness auto
termination
  by (relation "measure (\<lambda>(cur, path, s). length path)") (auto dest: path_seg_less)

declare create_dir_walk.simps [simp del]

text \<open>The result is what \<open>*new_dir\<close> is set to.\<close>

definition create_dir :: "dirent \<Rightarrow> u8 list \<Rightarrow> fs \<Rightarrow> (dirent \<times> fs) exec" where
  "create_dir dir path s = bindE (copy_entry dir) (\<lambda>cur. create_dir_walk cur path s)"

section \<open>Making files\<close>

text \<open>Lines 803-810: \<open>q\<close> is the position behind the last slash of the string.\<close>

fun last_slash :: "nat \<Rightarrow> nat \<Rightarrow> u8 list \<Rightarrow> nat exec" where
  "last_slash p q [] = Inl OutOfRange"
| "last_slash p q (c # path) =
     (if c = 0 then Inr q else last_slash (Suc p) (if c = 47 then Suc p else q) path)"

text \<open>Lines 815-827: the new file; its vnode, when the caller has one.\<close>

definition make_file :: "int \<Rightarrow> u8 list \<Rightarrow> nat option \<Rightarrow> fs \<Rightarrow> fs exec" where
  "make_file parent path vnode s =
     bindE (get_free_disk_inode s) (\<lambda>(index, s).
       case pop_inode s of (junk, s) \<Rightarrow>
         let ino = junk\<lparr>isize := 0, itype := PLAIN, ilink := 1, idev := 0\<rparr> in
         bindE (write_inode_to_disk index ino s) (\<lambda>s.
         bindE (add_inode_into_dir parent path index s) (\<lambda>s.
           Inr (case vnode of None \<Rightarrow> s
                | Some v \<Rightarrow> set_vnode v \<lparr>vindex = index, vinode = ino, vcount = 1\<rparr> s))))"

function create_walk :: "dirent \<Rightarrow> u8 list \<Rightarrow> nat option \<Rightarrow> fs \<Rightarrow> (int \<times> fs) exec" where
  "create_walk cur path vnode s =
     bindE (path_seg path) (\<lambda>i.
       bindE (read_dir_entry (dindex cur) (path[i := 0]) s) (\<lambda>(r, s).
         case r of
           None \<Rightarrow>
             (if path ! i = 47 then
                bindE (last_slash 0 0 path) (\<lambda>q.
                bindE (create_dir cur (path[q - 1 := 0]) s) (\<lambda>(cur, s).
                bindE (make_file (dindex cur) (drop q path) vnode s) (\<lambda>s. Inr (0, s))))
              else bindE (make_file (dindex cur) path vnode s) (\<lambda>s. Inr (0, s)))
         | Some next \<Rightarrow>
             if path ! i \<noteq> 47 then Inr (- 1, s)
             else bindE (copy_entry next) (\<lambda>cur. create_walk cur (drop (Suc i) path) vnode s)))"
  by pat_completeness auto
termination
  by (relation "measure (\<lambda>(cur, path, vnode, s). length path)") (auto dest: path_seg_less)

declare create_walk.simps [simp del]

text \<open>Paths from the root start with a slash; others start in the current directory of the process.\<close>

definition start_dir :: "int \<Rightarrow> u8 list \<Rightarrow> fs \<Rightarrow> (dirent \<times> u8 list) exec" where
  "start_dir pid path s =
     (case path of
        [] \<Rightarrow> Inl OutOfRange
      | c # rest \<Rightarrow> if c = 47 then Inr (root_dir s, rest) else Inr (current_dir (fprocs s pid), path))"

definition create :: "int \<Rightarrow> u8 list \<Rightarrow> nat option \<Rightarrow> fs \<Rightarrow> (int \<times> fs) exec" where
  "create pid path vnode s =
     bindE (start_dir pid path s) (\<lambda>(dir, path).
     bindE (copy_entry dir) (\<lambda>cur. create_walk cur path vnode s))"

end
