(* ===== verification/Fs_Handlers.thy ===== *)
theory Fs_Handlers
  imports Fs_Path
begin

text \<open>
  The requests of the file server (src/kernel/file_system/fm_syscall.c): one operation per
  handler, the dispatch of \<open>file_thread\<close>, and the start-up. A handler gives the message it sends
  with its destination, when it sends one, the bytes it stores in the memory of processes, and
  the new state. What is not of the server is in \<open>client\<close>: its own pid, the memory of the
  processes, and the answers of the tty driver.
\<close>

record client =
  fpid :: int
  umem :: "int \<Rightarrow> int \<Rightarrow> u8"
  tty_read :: "int \<Rightarrow> int \<Rightarrow> int"
  tty_write :: "int \<Rightarrow> int \<Rightarrow> int"

type_synonym store = "int \<times> int \<times> u8 list"
type_synonym outcome = "(int \<times> msg) option \<times> store list \<times> fs"

definition proc_mem :: "client \<Rightarrow> int \<Rightarrow> int \<Rightarrow> nat \<Rightarrow> u8 list" where
  "proc_mem c pid addr n = map (\<lambda>k. umem c pid (addr + int k)) [0..<n]"

text \<open>\<open>m->dest = pcb->pid; m->src = FILE; m->ret = r; send(pcb->pid, m)\<close>\<close>

definition answer :: "client \<Rightarrow> msg \<Rightarrow> int \<Rightarrow> store list \<Rightarrow> fs \<Rightarrow> outcome exec" where
  "answer c m r st s = Inr (Some (src m, reply (fpid c) r m), st, s)"

definition fd_at :: "int \<Rightarrow> int \<Rightarrow> fs \<Rightarrow> nat option exec" where
  "fd_at pid fd s =
     (let t = fd_table (fprocs s pid) in
      guardE OutOfRange (0 \<le> fd \<and> fd < int (length t)) (Inr (t ! nat fd)))"

definition set_proc :: "int \<Rightarrow> fproc \<Rightarrow> fs \<Rightarrow> fs" where
  "set_proc pid p s = s\<lparr>fprocs := (fprocs s)(pid := p)\<rparr>"

definition set_fd :: "int \<Rightarrow> int \<Rightarrow> nat option \<Rightarrow> fs \<Rightarrow> fs" where
  "set_fd pid fd f s = set_proc pid ((fprocs s pid)\<lparr>fd_table := (fd_table (fprocs s pid))[nat fd := f]\<rparr>) s"

definition set_min_fd :: "int \<Rightarrow> int \<Rightarrow> fs \<Rightarrow> fs" where
  "set_min_fd pid n s = set_proc pid ((fprocs s pid)\<lparr>min_fd := n\<rparr>) s"

text \<open>\<open>ttynames[dev_id - 1]\<close> has four entries.\<close>

definition tty_call :: "(int \<Rightarrow> int \<Rightarrow> int) \<Rightarrow> int \<Rightarrow> int \<Rightarrow> int exec" where
  "tty_call f dev n = guardE OutOfRange (1 \<le> dev \<and> dev \<le> 4) (Inr (f dev n))"

section \<open>Reading and writing\<close>

definition fm_read :: "client \<Rightarrow> msg \<Rightarrow> fs \<Rightarrow> outcome exec" where
  "fm_read c m s =
     bindE (fd_at (src m) (i1 m) s) (\<lambda>fd.
       case fd of
         None \<Rightarrow> answer c m (- 1) [] s
       | Some f \<Rightarrow>
           let e = open_files s f; ino = vinode (vnode_array s (fvnode e)) in
           if idev ino = 0 then
             bindE (read_data (is_kernel (fprocs s (i0 m))) (sint (foffset e)) ino (i3 m) s) (\<lambda>(out, s).
               answer c m (int (length out)) [(i0 m, i2 m, out)]
                 (set_file f (e\<lparr>foffset := foffset e + u32_of (int (length out))\<rparr>) s))
           else bindE (tty_call (tty_read c) (idev ino) (i3 m)) (\<lambda>r. answer c m r [] s))"

definition fm_write :: "client \<Rightarrow> msg \<Rightarrow> fs \<Rightarrow> outcome exec" where
  "fm_write c m s =
     bindE (fd_at (src m) (i1 m) s) (\<lambda>fd.
       case fd of
         None \<Rightarrow> answer c m (- 1) [] s
       | Some f \<Rightarrow>
           let e = open_files s f; v = fvnode e; x = vnode_array s v; ino = vinode x;
               file_offset = sint (foffset e) in
           bindE (if file_offset < isize ino
                  then bindE (release_block ino file_offset s) (\<lambda>s. Inr (ino\<lparr>isize := file_offset\<rparr>, s))
                  else Inr (ino, s)) (\<lambda>(ino, s).
           if idev ino = 0 then
             bindE (write_data (is_kernel (fprocs s (i0 m))) (\<lambda>k. umem c (i0 m) (i2 m + int k))
                      file_offset ino (i3 m) s) (\<lambda>(w, ino, s).
               answer c m w []
                 (set_file f (e\<lparr>foffset := u32_of (isize ino)\<rparr>) (set_vnode v (x\<lparr>vinode := ino\<rparr>) s)))
           else bindE (tty_call (tty_write c) (idev ino) (i3 m)) (\<lambda>r.
                  answer c m r [] (set_vnode v (x\<lparr>vinode := ino\<rparr>) s))))"

section \<open>Descriptors\<close>

text \<open>
  \<open>while(pcb->fd_table[pcb->min_fd] != NULL) pcb->min_fd = (pcb->min_fd + 1) % 100\<close>
\<close>

definition advance_min_fd :: "int \<Rightarrow> fs \<Rightarrow> (int \<times> fs) exec" where
  "advance_min_fd pid s =
     (let p = fprocs s pid in
      guardE OutOfRange (0 \<le> min_fd p \<and> min_fd p < int (length (fd_table p)))
        (case next_idle (\<lambda>i. fd_table p ! i \<noteq> None) 100 (nat (min_fd p)) of
           None \<Rightarrow> Inl Loops
         | Some i \<Rightarrow> Inr (int i, set_min_fd pid (int i) s)))"

definition fm_open :: "client \<Rightarrow> msg \<Rightarrow> fs \<Rightarrow> outcome exec" where
  "fm_open c m s =
     (let pid = src m; path = proc_mem c pid (i0 m) 256 in
      bindE (cstr_out path) (\<lambda>_.
      bindE (start_dir pid path s) (\<lambda>(dir, rest).
      bindE (read_inode dir rest s) (\<lambda>(v, s).
        if v = None \<and> i1 m \<noteq> 1 then answer c m (- 1) [] s
        else
          bindE (case v of
                   Some v \<Rightarrow> Inr (v, s)
                 | None \<Rightarrow>
                     guardE OutOfRange (path ! 0 \<noteq> 47)
                       (bindE (get_free_vnode s) (\<lambda>(v, s).
                        bindE (create pid path (Some v) s) (\<lambda>(r, s). Inr (v, s))))) (\<lambda>(v, s).
          bindE (get_free_file_entry s) (\<lambda>(f, s).
            let s = set_file f ((open_files s f)\<lparr>fvnode := v, foffset := 0, fcount := 1\<rparr>) s in
            bindE (advance_min_fd pid s) (\<lambda>(fd, s).
              answer c m fd []
                (set_min_fd pid (cmod (fd + 1) 100) (set_fd pid fd (Some f) s)))))))))"

definition fm_close :: "client \<Rightarrow> msg \<Rightarrow> fs \<Rightarrow> outcome exec" where
  "fm_close c m s =
     (let pid = src m; fd = i0 m in
      bindE (fd_at pid fd s) (\<lambda>e.
        case e of
          None \<Rightarrow> Inl NullPointer
        | Some f \<Rightarrow>
            bindE (release_file_entry f s) (\<lambda>s.
              let s = set_fd pid fd None s in
              answer c m 0 [] (if fd < min_fd (fprocs s pid) then set_min_fd pid fd s else s))))"

text \<open>A descriptor that is not open gets no answer: the sender waits for ever.\<close>

definition fm_lseek :: "client \<Rightarrow> msg \<Rightarrow> fs \<Rightarrow> outcome exec" where
  "fm_lseek c m s =
     bindE (fd_at (src m) (i0 m) s) (\<lambda>e.
       case e of
         None \<Rightarrow> Inr (None, [], s)
       | Some f \<Rightarrow>
           let x = open_files s f;
               off = (if i2 m = 0 then u32_of (i1 m)
                      else if i2 m = 1 then foffset x + u32_of (i1 m)
                      else u32_of (isize (vinode (vnode_array s (fvnode x))) + i1 m)) in
           answer c m 0 [] (set_file f (x\<lparr>foffset := off\<rparr>) s))"

definition fm_dup :: "client \<Rightarrow> msg \<Rightarrow> fs \<Rightarrow> outcome exec" where
  "fm_dup c m s =
     (let pid = src m in
      bindE (fd_at pid (i0 m) s) (\<lambda>e.
        case e of
          None \<Rightarrow> Inr (None, [], s)
        | Some f \<Rightarrow>
            let new_fd = min_fd (fprocs s pid) in
            guardE OutOfRange (0 \<le> new_fd \<and> new_fd < int (length (fd_table (fprocs s pid))))
              (let s = set_fd pid new_fd (Some f) s;
                   s = set_file f ((open_files s f)\<lparr>fcount := fcount (open_files s f) + 1\<rparr>) s in
               bindE (advance_min_fd pid s) (\<lambda>(n, s). answer c m new_fd [] s))))"

definition fm_dup2 :: "client \<Rightarrow> msg \<Rightarrow> fs \<Rightarrow> outcome exec" where
  "fm_dup2 c m s =
     (let pid = src m; fd = i0 m; new_fd = i1 m in
      bindE (fd_at pid new_fd s) (\<lambda>e.
      bindE (if e \<noteq> None
             then bindE (fd_at pid fd s) (\<lambda>f. case f of None \<Rightarrow> Inl NullPointer
                    | Some f \<Rightarrow> bindE (release_file_entry f s) (\<lambda>s. Inr (set_fd pid fd None s)))
             else Inr s) (\<lambda>s.
      bindE (fd_at pid fd s) (\<lambda>f.
        let s = set_fd pid new_fd f s in
        bindE (fd_at pid fd s) (\<lambda>f. case f of None \<Rightarrow> Inl NullPointer
          | Some f \<Rightarrow>
              answer c m 0 []
                (set_file f ((open_files s f)\<lparr>fcount := fcount (open_files s f) + 1\<rparr>) s))))))"

section \<open>Names\<close>

definition fm_create :: "client \<Rightarrow> msg \<Rightarrow> fs \<Rightarrow> outcome exec" where
  "fm_create c m s =
     bindE (create (src m) (proc_mem c (src m) (i0 m) 256) None s) (\<lambda>(r, s). answer c m 0 [] s)"

definition fm_mkdir :: "client \<Rightarrow> msg \<Rightarrow> fs \<Rightarrow> outcome exec" where
  "fm_mkdir c m s =
     bindE (start_dir (src m) (proc_mem c (src m) (i0 m) 256) s) (\<lambda>(dir, path).
     bindE (create_dir dir path s) (\<lambda>(d, s). answer c m 0 [] s))"

definition fm_delete_file :: "client \<Rightarrow> msg \<Rightarrow> fs \<Rightarrow> outcome exec" where
  "fm_delete_file c m s =
     bindE (start_dir (src m) (proc_mem c (src m) (i0 m) 256) s) (\<lambda>(dir, path).
     bindE (delete_file dir path True s) (\<lambda>s. answer c m 0 [] s))"

definition fm_rmdir :: "client \<Rightarrow> msg \<Rightarrow> fs \<Rightarrow> outcome exec" where
  "fm_rmdir c m s =
     bindE (start_dir (src m) (proc_mem c (src m) (i0 m) 256) s) (\<lambda>(dir, path).
     bindE (delete_file dir path False s) (\<lambda>s. answer c m 0 [] s))"

text \<open>
  The shared loop of \<open>fm_lsdir\<close> and \<open>fm_chdir\<close> (lines 1225-1254 and 1311-1353): the directory
  that a path leads to, \<open>None\<close> when a segment is missing.
\<close>

function walk_dir :: "dirent \<Rightarrow> u8 list \<Rightarrow> fs \<Rightarrow> (dirent option \<times> fs) exec" where
  "walk_dir cur path s =
     bindE (path_seg path) (\<lambda>i.
       bindE (read_dir_entry (dindex cur) (path[i := 0]) s) (\<lambda>(r, s).
         case r of
           None \<Rightarrow> Inr (None, s)
         | Some next \<Rightarrow> bindE (copy_entry next) (\<lambda>cur.
             if path ! i \<noteq> 47 then Inr (Some cur, s) else walk_dir cur (drop (Suc i) path) s)))"
  by pat_completeness auto
termination
  by (relation "measure (\<lambda>(cur, path, s). length path)") (auto dest: path_seg_less)

declare walk_dir.simps [simp del]

text \<open>\<open>path[0] == '\0'\<close> means the directory the walk starts from.\<close>

definition find_dir :: "dirent \<Rightarrow> u8 list \<Rightarrow> fs \<Rightarrow> (dirent option \<times> fs) exec" where
  "find_dir dir path s =
     bindE (copy_entry dir) (\<lambda>cur.
       case path of [] \<Rightarrow> Inl OutOfRange
       | c # _ \<Rightarrow> if c = 0 then Inr (Some cur, s) else walk_dir cur path s)"

text \<open>A failed walk is answered without setting \<open>m->dest\<close>.\<close>

definition answer_fail :: "client \<Rightarrow> msg \<Rightarrow> fs \<Rightarrow> outcome exec" where
  "answer_fail c m s = Inr (Some (src m, m\<lparr>src := fpid c, mtype := - 1\<rparr>), [], s)"

text \<open>
  The names of a chunk, each with three blanks behind it, go to \<open>buf + position\<close>; \<open>filename\<close> is
  an array of 40 bytes.
\<close>

function list_entries :: "u8 list \<Rightarrow> nat \<Rightarrow> int \<Rightarrow> int \<Rightarrow> int \<Rightarrow> int \<Rightarrow> store list \<Rightarrow> (int \<times> store list) exec" where
  "list_entries B p readed_len pid addr position st =
     (if 0 < readed_len then
        bindE (strcpy (replicate 40 0) (drop p B)) (\<lambda>fn.
        bindE (strlen fn) (\<lambda>n.
        guardE OutOfRange (n + 3 < 40)
          (list_entries B (p + 36) (readed_len - dirent_size) pid addr (position + int n + 3)
             (st @ [(pid, addr + position, take n fn @ [32, 32, 32, 0])]))))
      else Inr (position, st))"
  by pat_completeness auto
termination
  by (relation "measure (\<lambda>(B, p, r, pid, addr, position, st). nat r)") auto

declare list_entries.simps [simp del]

function lsdir_loop ::
  "inode \<Rightarrow> nat option \<Rightarrow> int \<Rightarrow> int \<Rightarrow> int \<Rightarrow> int \<Rightarrow> store list \<Rightarrow> fs \<Rightarrow> (store list \<times> fs) exec" where
  "lsdir_loop ino b pid addr off position st s =
     bindE (read_buf b ino off s) (\<lambda>(out, s).
       if out = [] then bindE (free_block_buffer b s) (\<lambda>s. Inr (st, s))
       else bindE (list_entries (the_buf b s) 0 (int (length out)) pid addr position st) (\<lambda>(position, st).
         lsdir_loop ino b pid addr (off + int (length out)) position st s))"
  by pat_completeness auto
termination
  by (relation "measure (\<lambda>(ino, b, pid, addr, off, position, st, s). nat (isize ino - off))")
    (auto dest: read_buf_bound)

declare lsdir_loop.simps [simp del]

definition lsdir :: "int \<Rightarrow> int \<Rightarrow> int \<Rightarrow> fs \<Rightarrow> (store list \<times> fs) exec" where
  "lsdir dir pid addr s =
     bindE (read_inode_from_disk dir s) (\<lambda>dir_inode.
       case get_free_block_buffer s of (b, s) \<Rightarrow> lsdir_loop dir_inode b pid addr 0 0 [] s)"

definition fm_lsdir :: "client \<Rightarrow> msg \<Rightarrow> fs \<Rightarrow> outcome exec" where
  "fm_lsdir c m s =
     (let pid = src m in
      bindE (start_dir pid (proc_mem c pid (i0 m) 256) s) (\<lambda>(dir, path).
      bindE (find_dir dir path s) (\<lambda>(r, s).
        case r of
          None \<Rightarrow> answer_fail c m s
        | Some cur \<Rightarrow> bindE (lsdir (dindex cur) pid (i1 m) s) (\<lambda>(st, s). answer c m 0 st s))))"

definition fm_chdir :: "client \<Rightarrow> msg \<Rightarrow> fs \<Rightarrow> outcome exec" where
  "fm_chdir c m s =
     (let pid = src m; path = proc_mem c pid (i0 m) 256 in
      if path ! 0 = 0 then answer c m 0 [] s
      else bindE (start_dir pid path s) (\<lambda>(dir, path).
        bindE (find_dir dir path s) (\<lambda>(r, s).
          case r of
            None \<Rightarrow> answer_fail c m s
          | Some cur \<Rightarrow>
              bindE (read_inode_from_disk (dindex cur) s) (\<lambda>ino.
                if itype ino = PLAIN then answer c m (- 1) [] s
                else bindE (copy_entry cur) (\<lambda>cur.
                  answer c m 0 [] (set_proc pid ((fprocs s pid)\<lparr>current_dir := cur\<rparr>) s))))))"

section \<open>Processes\<close>

text \<open>\<open>fm_exit_file\<close> closes all files and leaves the pointers in the table.\<close>

definition exit_slot :: "int \<Rightarrow> nat \<Rightarrow> fs \<Rightarrow> fs exec" where
  "exit_slot pid i s =
     bindE (fd_at pid (int i) s) (\<lambda>e. case e of None \<Rightarrow> Inr s | Some f \<Rightarrow> release_file_entry f s)"

definition fm_exit_file :: "client \<Rightarrow> msg \<Rightarrow> fs \<Rightarrow> outcome exec" where
  "fm_exit_file c m s = bindE (fold_exec (exit_slot (i0 m)) [0..<100] s) (answer c m 0 [])"

definition open_std :: "int \<Rightarrow> int \<Rightarrow> fs \<Rightarrow> fs exec" where
  "open_std pid fd s =
     bindE (get_free_file_entry s) (\<lambda>(f, s).
     bindE (fd_at pid fd s) (\<lambda>_. Inr (set_fd pid fd (Some f) s)))"

definition set_std :: "int \<Rightarrow> int \<Rightarrow> (fs \<Rightarrow> nat) \<Rightarrow> fs \<Rightarrow> fs exec" where
  "set_std pid fd which s =
     bindE (fd_at pid fd s) (\<lambda>e. case e of None \<Rightarrow> Inl NullPointer
       | Some f \<Rightarrow>
           let v = which s in
           Inr (set_vnode v ((vnode_array s v)\<lparr>vcount := vcount (vnode_array s v) + 1\<rparr>)
                  (set_file f ((open_files s f)\<lparr>fvnode := v\<rparr>) s)))"

definition init_fd_table :: "client \<Rightarrow> msg \<Rightarrow> fs \<Rightarrow> outcome exec" where
  "init_fd_table c m s =
     (let pid = i0 m in
      bindE (open_std pid 0 s) (\<lambda>s. bindE (open_std pid 1 s) (\<lambda>s. bindE (open_std pid 2 s) (\<lambda>s.
      bindE (set_std pid 0 stdin_vnode s) (\<lambda>s. bindE (set_std pid 1 stdout_vnode s) (\<lambda>s.
      bindE (set_std pid 2 stderr_vnode s) (answer c m 0 [])))))))"

definition copy_slot :: "int \<Rightarrow> int \<Rightarrow> nat \<Rightarrow> fs \<Rightarrow> fs exec" where
  "copy_slot child parent i s =
     bindE (fd_at parent (int i) s) (\<lambda>e. case e of
       None \<Rightarrow> Inr s
     | Some f \<Rightarrow>
         let s = set_file f ((open_files s f)\<lparr>fcount := fcount (open_files s f) + 1\<rparr>) s in
         bindE (fd_at child (int i) s) (\<lambda>_. Inr (set_fd child (int i) (Some f) s)))"

definition copy_fd_table :: "client \<Rightarrow> msg \<Rightarrow> fs \<Rightarrow> outcome exec" where
  "copy_fd_table c m s = bindE (fold_exec (copy_slot (i0 m) (i1 m)) [0..<100] s) (answer c m 0 [])"

section \<open>Start-up and dispatch\<close>

definition std_vnode :: "fs \<Rightarrow> (nat \<times> fs) exec" where
  "std_vnode s = bindE (get_free_vnode s) (\<lambda>(v, s).
     let x = vnode_array s v in
     Inr (v, set_vnode v (x\<lparr>vcount := 1, vinode := (vinode x)\<lparr>idev := 1\<rparr>\<rparr>) s))"

definition init_file_format :: "fs \<Rightarrow> fs exec" where
  "init_file_format s =
     bindE (get_free_disk_inode s) (\<lambda>(index, s).
       case pop_inode s of (junk, s) \<Rightarrow>
         bindE (write_inode_to_disk index (junk\<lparr>isize := 0, itype := DIR, ilink := 1\<rparr>) s) (\<lambda>s.
         bindE (strcpy (filename (root_dir s)) [47, 0]) (\<lambda>fn.
         let s = s\<lparr>root_dir := \<lparr>filename = fn, dindex = 0\<rparr>\<rparr> in
         bindE (add_inode_into_dir 0 [46, 0] 0 s) (\<lambda>s.
         bindE (add_inode_into_dir 0 [46, 46, 0] 0 s) (\<lambda>s.
         bindE (std_vnode s) (\<lambda>(v0, s).
         bindE (std_vnode s) (\<lambda>(v1, s).
         bindE (std_vnode s) (\<lambda>(v2, s).
           Inr (s\<lparr>stdin_vnode := v0, stdout_vnode := v1, stderr_vnode := v2\<rparr>)))))))))"

definition file_thread_start :: "fs \<Rightarrow> fs exec" where
  "file_thread_start s = bindE (read_bitmap_from_disk s) init_file_format"

definition init_file :: "fs \<Rightarrow> fs" where
  "init_file s = init_file_table (init_vnode_array s)"

text \<open>The message types of include/fm.h, in the order of the \<open>switch\<close>.\<close>

definition file_thread :: "client \<Rightarrow> msg \<Rightarrow> fs \<Rightarrow> outcome exec" where
  "file_thread c m s =
     (if mtype m = 0 then fm_open c m s
      else if mtype m = 1 then fm_read c m s
      else if mtype m = 2 then fm_write c m s
      else if mtype m = 4 then fm_create c m s
      else if mtype m = 3 then fm_close c m s
      else if mtype m = 5 then fm_delete_file c m s
      else if mtype m = 6 then fm_lseek c m s
      else if mtype m = 7 then fm_dup c m s
      else if mtype m = 8 then fm_dup2 c m s
      else if mtype m = 9 then fm_mkdir c m s
      else if mtype m = 10 then fm_rmdir c m s
      else if mtype m = 11 then fm_lsdir c m s
      else if mtype m = 12 then fm_chdir c m s
      else if mtype m = 13 then fm_exit_file c m s
      else if mtype m = 15 then init_fd_table c m s
      else if mtype m = 14 then copy_fd_table c m s
      else Inl AssertFail)"

section \<open>Properties\<close>

lemma fm_read_ok:
  assumes "fd_at (src m) (i1 m) s = Inr (Some f)" and "ino = vinode (vnode_array s (fvnode (open_files s f)))"
    and "idev ino = 0" and "wf_file s ino" and "isize ino \<le> level_end1"
    and "0 \<le> sint (foffset (open_files s f))" and "0 \<le> i3 m"
  shows "\<exists>bs s'. fm_read c m s = Inr (Some (src m, reply (fpid c) (int (length bs)) m), [(i0 m, i2 m, bs)], s') \<and>
    bs = take (nat (i3 m)) (drop (nat (sint (foffset (open_files s f)))) (file_data (disk s) ino)) \<and>
    foffset (open_files s' f) = foffset (open_files s f) + u32_of (int (length bs)) \<and> disk s' = disk s"
proof -
  let ?fo = "sint (foffset (open_files s f))"
  define p where "p = nat ?fo"
  define n where "n = nat (i3 m)"
  have p: "?fo = int p" and n: "i3 m = int n" using assms(6,7) by (simp_all add: p_def n_def)
  let ?bs = "map (file_byte (disk s) ino) [p..<min (nat (isize ino)) (p + n)]"
  have stray: "addr_ok (blk ino ! 14)" if "level_end1 < isize ino" using that assms(5) by linarith
  obtain a b where rd: "read_data (is_kernel (fprocs s (i0 m))) (int p) ino (int n) s =
      Inr (?bs, s\<lparr>index_block1 := a, index_block2 := b\<rparr>)"
    using read_data_spec [OF wf_file_ok [OF assms(4)], of p n] stray by blast
  have "?bs = take n (drop p (file_data (disk s) ino))"
    by (cases "p + n \<le> nat (isize ino)") (simp_all add: file_data_def fsize_def take_map drop_map min_def)
  then have bs: "?bs = take (nat (i3 m)) (drop (nat ?fo) (file_data (disk s) ino))" by (simp add: p n)
  define t where "t = set_file f ((open_files s f)\<lparr>foffset := foffset (open_files s f) + u32_of (int (length ?bs))\<rparr>)
      (s\<lparr>index_block1 := a, index_block2 := b\<rparr>)"
  have run: "fm_read c m s = Inr (Some (src m, reply (fpid c) (int (length ?bs)) m), [(i0 m, i2 m, ?bs)], t)"
    unfolding fm_read_def assms(1) bindE_Inr option.case Let_def assms(2) [symmetric] if_P [OF assms(3)] p n rd prod.case
    unfolding answer_def t_def n [symmetric] ..
  have "foffset (open_files t f) = foffset (open_files s f) + u32_of (int (length ?bs))" "disk t = disk s"
    unfolding t_def by (simp_all add: set_file_def)
  with run bs show ?thesis by blast
qed

text \<open>
  A read request on an open plain file stores the bytes from the current offset on, as many
  as were asked for and the file still has, in the memory of the process that \<open>req_pid\<close> names;
  the answer is their number, the offset of the open file advances by it, and the disk is as
  before.
\<close>

theorem fm_read_delivers:
  assumes "fd_at (src m) (i1 m) s = Inr (Some f)" and "ino = vinode (vnode_array s (fvnode (open_files s f)))"
    and "idev ino = 0" and "wf_file s ino" and "isize ino \<le> level_end1"
    and "0 \<le> sint (foffset (open_files s f))" and "0 \<le> i3 m"
  shows "\<exists>bs s'. fm_read c m s = Inr (Some (src m, reply (fpid c) (int (length bs)) m), [(i0 m, i2 m, bs)], s') \<and>
    bs = take (nat (i3 m)) (drop (nat (sint (foffset (open_files s f)))) (file_data (disk s) ino)) \<and>
    foffset (open_files s' f) = foffset (open_files s f) + u32_of (int (length bs)) \<and> disk s' = disk s"
  by (rule fm_read_ok [OF assms])

theorem fm_read_delivers_witness:
  "\<exists>s'. fm_read \<lparr>fpid = 3, umem = (\<lambda>p a. 0), tty_read = (\<lambda>d n. 0), tty_write = (\<lambda>d n. 0)\<rparr>
      \<lparr>src = 9, dest = 3, mtype = 1, i0 = 9, i1 = 4, i2 = 4096, i3 = 100, i4 = 0\<rparr>
      (fs0\<lparr>fprocs := (\<lambda>_. \<lparr>fd_table = (replicate 100 None)[4 := Some 1], min_fd = 3, current_dir = no_name,
         is_kernel = False\<rparr>)\<rparr>) =
    Inr (Some (9, \<lparr>src = 3, dest = 9, mtype = 0, i0 = 9, i1 = 4, i2 = 4096, i3 = 100, i4 = 0\<rparr>), [(9, 4096, [])], s')"
proof -
  let ?c = "\<lparr>fpid = 3, umem = (\<lambda>p a. 0), tty_read = (\<lambda>d n. 0), tty_write = (\<lambda>d n. 0)\<rparr>"
  let ?m = "\<lparr>src = 9, dest = 3, mtype = 1, i0 = 9, i1 = 4, i2 = 4096, i3 = 100, i4 = 0\<rparr>"
  let ?s = "fs0\<lparr>fprocs := (\<lambda>_. \<lparr>fd_table = (replicate 100 None)[4 := Some 1], min_fd = 3, current_dir = no_name,
    is_kernel = False\<rparr>)\<rparr>"
  have 1: "fd_at (src ?m) (i1 ?m) ?s = Inr (Some 1)" by (simp add: fd_at_def Let_def)
  have 2: "empty_inode = vinode (vnode_array ?s (fvnode (open_files ?s 1)))" by (simp add: fs0_def)
  have 3: "wf_file ?s empty_inode"
    using empty_file(1) by (simp add: wf_file_def file_rep_def own_ok_def indices_ok_def block_used_def)
  have 4: "idev empty_inode = 0" "foffset (open_files ?s 1) = 0" "disk ?s = disk fs0"
    by (simp_all add: empty_inode_def fs0_def)
  obtain bs s' where "fm_read ?c ?m ?s = Inr (Some (src ?m, reply (fpid ?c) (int (length bs)) ?m), [(i0 ?m, i2 ?m, bs)], s')"
    and "bs = take (nat (i3 ?m)) (drop (nat (sint (foffset (open_files ?s 1)))) (file_data (disk ?s) empty_inode))"
    using fm_read_delivers [OF 1 2 4(1) 3, of ?c] 4 by auto
  then show ?thesis by (simp add: reply_def)
qed

lemma nth_update_None: "xs ! i = None \<Longrightarrow> xs[j := None] ! i = None"
  by (cases "j < length xs"; cases "i = j") (auto simp: list_update_beyond)

text \<open>
  \<open>dup2\<close> onto a descriptor that is open never returns: it closes the source instead of the
  target and then goes through the pointer it has just cleared.
\<close>

theorem dup2_onto_open_faults:
  assumes "fd_at (src m) (i1 m) s = Inr (Some g)"
  shows "\<exists>e. fm_dup2 c m s = Inl e"
proof (cases "fm_dup2 c m s")
  case (Inr r)
  have "\<exists>t. fd_at (src m) (i0 m) t = Inr None \<and>
      bindE (fd_at (src m) (i0 m) t) (\<lambda>f.
        let s = set_fd (src m) (i1 m) f t in
        bindE (fd_at (src m) (i0 m) s) (\<lambda>f. case f of None \<Rightarrow> Inl NullPointer
          | Some f \<Rightarrow> answer c m 0 []
                (set_file f ((open_files s f)\<lparr>fcount := fcount (open_files s f) + 1\<rparr>) s))) = Inr r"
  proof -
    have "Some g \<noteq> None" by simp
    note step = Inr [unfolded fm_dup2_def Let_def assms bindE_Inr if_P [OF this]]
    from step obtain t where t: "bindE (fd_at (src m) (i0 m) s) (\<lambda>f. case f of None \<Rightarrow> Inl NullPointer
        | Some f \<Rightarrow> bindE (release_file_entry f s) (\<lambda>s. Inr (set_fd (src m) (i0 m) None s))) = Inr t"
      by (rule bindE_InrE)
    note rest = step [unfolded t bindE_Inr]
    from rest obtain e where e: "fd_at (src m) (i0 m) t = Inr e" by (rule bindE_InrE)
    obtain u where u: "t = set_fd (src m) (i0 m) None u"
      using t by (auto simp: bindE_eq_Inr_iff split: option.splits)
    have "e = None" using e unfolding u
      by (auto simp: fd_at_def Let_def set_fd_def set_proc_def guardE_def nth_list_update split: if_splits)
    with e rest show ?thesis unfolding Let_def by blast
  qed
  then obtain t where fd: "fd_at (src m) (i0 m) t = Inr None"
    and run: "(let s = set_fd (src m) (i1 m) None t in
        bindE (fd_at (src m) (i0 m) s) (\<lambda>f. case f of None \<Rightarrow> Inl NullPointer
          | Some f \<Rightarrow> answer c m 0 []
                (set_file f ((open_files s f)\<lparr>fcount := fcount (open_files s f) + 1\<rparr>) s))) = Inr r"
    by auto
  have "fd_at (src m) (i0 m) (set_fd (src m) (i1 m) None t) = Inr None"
    using fd by (auto simp: fd_at_def Let_def set_fd_def set_proc_def guardE_def nth_update_None split: if_splits)
  then show ?thesis using run by (simp add: Let_def)
qed simp

theorem dup2_onto_open_faults_witness:
  "\<exists>e. fm_dup2 \<lparr>fpid = 3, umem = (\<lambda>p a. 0), tty_read = (\<lambda>d n. 0), tty_write = (\<lambda>d n. 0)\<rparr>
      \<lparr>src = 9, dest = 3, mtype = 8, i0 = 4, i1 = 1, i2 = 0, i3 = 0, i4 = 0\<rparr>
      (fs0\<lparr>fprocs := (\<lambda>_. \<lparr>fd_table = (replicate 100 None)[1 := Some 0, 4 := Some 1], min_fd = 3,
         current_dir = no_name, is_kernel = False\<rparr>)\<rparr>) = Inl e"
  by (rule dup2_onto_open_faults [where g = 0]) (simp add: fd_at_def Let_def)

end
