(* ===== verification/Fs_Resolve.thy ===== *)
theory Fs_Resolve
  imports Fs_Handlers
begin

text \<open>
  What a path means: the reference walks a tree of association lists, one name after the other;
  the loops over the bytes of the path buffer implement it.
\<close>











section \<open>Properties\<close>




end
