(* ===== verification/Fs_Refs.thy ===== *)
theory Fs_Refs
  imports Fs_Handlers
begin

text \<open>
  The reference counts of open files: for the processes \<open>L\<close> that are alive, the count of every
  open file that is not free is the number of descriptors that point to it.
\<close>

section \<open>The invariant\<close>

definition slots :: "int set \<Rightarrow> fs \<Rightarrow> nat \<Rightarrow> (int \<times> nat) set" where
  "slots L s f = {(p, i). p \<in> L \<and> i < 100 \<and> fd_table (fprocs s p) ! i = Some f}"

definition files_ok :: "int set \<Rightarrow> fs \<Rightarrow> bool" where
  "files_ok L s \<longleftrightarrow> finite L \<and>
     (\<forall>p \<in> L. length (fd_table (fprocs s p)) = 100 \<and> 0 \<le> min_fd (fprocs s p) \<and> min_fd (fprocs s p) < 100) \<and>
     distinct (free_files s) \<and> set (free_files s) \<subseteq> {..<KERNEL_FILE_NUM} \<and>
     (\<forall>f. slots L s f \<noteq> {} \<longleftrightarrow> f < KERNEL_FILE_NUM \<and> f \<notin> set (free_files s)) \<and>
     (\<forall>f < KERNEL_FILE_NUM. f \<notin> set (free_files s) \<longrightarrow> fcount (open_files s f) = int (card (slots L s f)))"

text \<open>All it looks at.\<close>

definition ftab :: "fs \<Rightarrow> (nat \<Rightarrow> int) \<times> nat list \<times> (int \<Rightarrow> nat option list \<times> int)" where
  "ftab s = (\<lambda>f. fcount (open_files s f), free_files s, \<lambda>p. (fd_table (fprocs s p), min_fd (fprocs s p)))"



lemma ftab_updates [simp]:
  "ftab (set_vnode v x s) = ftab s"
  "ftab (s\<lparr>free_vnodes := vs\<rparr>) = ftab s" "ftab (s\<lparr>active_vnodes := vs\<rparr>) = ftab s"
  "fcount e = fcount (open_files s f) \<Longrightarrow> ftab (set_file f e s) = ftab s"
  by (auto simp: ftab_def set_vnode_def set_file_def)



section \<open>Paths\<close>



lemma tables_make_dir [tables_frames]: "make_dir parent path s = Inr (e, s') \<Longrightarrow> tables s' = tables s"
  by (auto simp: make_dir_def pop_inode_def bindE_eq_Inr_iff dest!: tables_frames)






section \<open>A descriptor more, a descriptor less\<close>

lemma files_okD:
  assumes "files_ok L s"
  shows "finite L" and "p \<in> L \<Longrightarrow> length (fd_table (fprocs s p)) = 100"
    and "p \<in> L \<Longrightarrow> 0 \<le> min_fd (fprocs s p) \<and> min_fd (fprocs s p) < 100"
    and "distinct (free_files s)" and "set (free_files s) \<subseteq> {..<128}"
    and "slots L s f \<noteq> {} \<longleftrightarrow> f < 128 \<and> f \<notin> set (free_files s)"
    and "f < 128 \<Longrightarrow> f \<notin> set (free_files s) \<Longrightarrow> fcount (open_files s f) = int (card (slots L s f))"
  using assms by (auto simp: files_ok_def)

lemma finite_slots: "finite L \<Longrightarrow> finite (slots L s f)"
  by (rule finite_subset [of _ "L \<times> {..<100}"]) (auto simp: slots_def)

text \<open>\<open>tab s s' p i x\<close>: from \<open>s\<close> to \<open>s'\<close> descriptor \<open>i\<close> of process \<open>p\<close> became \<open>x\<close>.\<close>

definition tab :: "int set \<Rightarrow> fs \<Rightarrow> fs \<Rightarrow> int \<Rightarrow> nat \<Rightarrow> nat option \<Rightarrow> bool" where
  "tab L s s' p i x \<longleftrightarrow>
     (\<forall>q. fd_table (fprocs s' q) = (if q = p then (fd_table (fprocs s p))[i := x] else fd_table (fprocs s q))) \<and>
     (\<forall>q \<in> L. 0 \<le> min_fd (fprocs s' q) \<and> min_fd (fprocs s' q) < 100)"





section \<open>The handlers\<close>









lemma tables_walk_dir: "tables s = T \<Longrightarrow> postE (walk_dir cur path s) (\<lambda>r. tables (snd r) = T)"
proof (induction cur path s rule: walk_dir.induct)
  case (1 cur path s)
  note ih = 1(1) and T = 1(2)
  show ?case
  proof (subst walk_dir.simps, intro post_intros, goal_cases)
    case 3
    show ?case
      by (rule ih [OF 3(1,2) 3(3) 3(4)]) (use T 3 in \<open>auto dest!: tables_frames\<close>)
  qed (use T in \<open>auto dest!: tables_frames\<close>)
qed

lemma tables_find_dir [tables_frames]: "find_dir dir path s = Inr (r, s') \<Longrightarrow> tables s' = tables s"
  by (cases path) (auto simp: find_dir_def bindE_eq_Inr_iff split: if_splits
      dest!: postE_D [OF tables_walk_dir [OF refl]])

lemma tables_lsdir_loop:
  "postE (lsdir_loop ino b pid addr off pos st s)
     (\<lambda>(r, s'). \<exists>t. tables t = tables s \<and> free_block_buffer b t = Inr s')"
proof (induction ino b pid addr off pos st s rule: lsdir_loop.induct)
  case (1 ino b pid addr off pos st s)
  note ih = 1
  show ?case
  proof (subst lsdir_loop.simps, intro post_intros, goal_cases)
    case (1 x out t)
    then show ?case by (auto dest!: tables_frames)
  next
    case (2 x out t y pos' st')
    then have "read_buf b ino off s = Inr (out, t)" by simp
    then have "tables t = tables s" by (rule tables_read_buf)
    with ih [OF 2(1,2) 2(3,4) 2(5)] show ?case by (auto simp: postE_def)
  qed
qed

lemma tables_lsdir [tables_frames]: "lsdir dir pid addr s = Inr (st, s') \<Longrightarrow> tables s' = tables s"
  by (cases "get_free_block_buffer s")
    (auto simp: lsdir_def bindE_eq_Inr_iff dest!: postE_D [OF tables_lsdir_loop] intro: tables_get_buffer)










lemma fm_dupD:
  assumes ok: "files_ok L s" and L: "src m \<in> L" and run: "fm_dup c m s = Inr (Some x, st, s')"
  obtains f k fd where "fd_at (src m) (i0 m) s = Inr (Some f)" and "min_fd (fprocs s (src m)) = int k" and "k < 100"
    and "advance_min_fd (src m) (set_file f ((open_files s f)\<lparr>fcount := fcount (open_files s f) + 1\<rparr>)
        (set_fd (src m) (int k) (Some f) s)) = Inr (fd, s')"
proof -
  have k: "0 \<le> min_fd (fprocs s (src m))" "min_fd (fprocs s (src m)) < 100" using files_okD(3) [OF ok L] by auto
  then obtain k where n: "min_fd (fprocs s (src m)) = int k" "k < 100" by (metis nat_0_le of_nat_less_numeral_iff)
  obtain e where e: "fd_at (src m) (i0 m) s = Inr e"
    using run unfolding fm_dup_def Let_def by (rule bindE_InrE)
  note step = run [unfolded fm_dup_def Let_def e bindE_Inr n(1)]
  show thesis
  proof (cases e)
    case None
    with step show thesis by simp
  next
    case (Some f)
    have "open_files (set_fd p i y s) = open_files s" for p i y by (simp add: set_fd_def set_proc_def)
    then obtain fd where "advance_min_fd (src m) (set_file f ((open_files s f)\<lparr>fcount := fcount (open_files s f) + 1\<rparr>)
        (set_fd (src m) (int k) (Some f) s)) = Inr (fd, s')"
      using step unfolding Some by (auto simp: answer_def bindE_eq_Inr_iff)
    then show thesis using that e Some n by blast
  qed
qed




section \<open>Properties\<close>



text \<open>A process with one file open twice, and its next descriptor taken.\<close>

definition refs_fs :: fs where
  "refs_fs = fs0\<lparr>free_files := rev [2..<128],
     open_files := (\<lambda>f. \<lparr>foffset = 0, fcount = (if f < 2 then 1 else 0), fvnode = 0\<rparr>),
     fprocs := (\<lambda>_. \<lparr>fd_table = (replicate 100 None)[3 := Some 0, 4 := Some 1], min_fd = 5,
       current_dir = no_name, is_kernel = False\<rparr>)\<rparr>"

lemma refs_slots: "slots {9} refs_fs f = (if f = 0 then {(9, 3)} else if f = 1 then {(9, 4)} else {})"
  by (auto simp: slots_def refs_fs_def nth_list_update split: if_splits)

lemma refs_fs_ok: "files_ok {9} refs_fs"
proof -
  have "free_files refs_fs = rev [2..<128]" by (simp add: refs_fs_def del: upt_rec_numeral)
  then have "set (free_files refs_fs) = {2..<128}" "distinct (free_files refs_fs)" by (simp_all del: upt_rec_numeral)
  then show ?thesis unfolding files_ok_def refs_slots by (auto simp: refs_fs_def simp del: upt_rec_numeral)
qed

definition no_client :: client where
  "no_client = \<lparr>fpid = 3, umem = (\<lambda>p a. 0), tty_read = (\<lambda>d n. 0), tty_write = (\<lambda>d n. 0)\<rparr>"


text \<open>
  \<open>dup\<close> takes the slot \<open>min_fd\<close> without looking at it: when that descriptor is open on
  another file its pointer is lost, and the count of that file stays one too high for ever.
\<close>

theorem dup_loses_descriptor:
  assumes "files_ok L s" and "src m \<in> L" and "fd_at (src m) (i0 m) s = Inr (Some f)"
    and "fd_table (fprocs s (src m)) ! nat (min_fd (fprocs s (src m))) = Some g" and "f \<noteq> g"
    and "fm_dup c m s = Inr (Some x, st, s')"
  shows "\<not> files_ok L s' \<and> fcount (open_files s' g) = int (card (slots L s' g)) + 1"
proof -
  note D = files_okD [OF assms(1)]
  obtain k f' fd where k: "fd_at (src m) (i0 m) s = Inr (Some f')" "min_fd (fprocs s (src m)) = int k" "k < 100"
    and adv: "advance_min_fd (src m) (set_file f' ((open_files s f')\<lparr>fcount := fcount (open_files s f') + 1\<rparr>)
        (set_fd (src m) (int k) (Some f') s)) = Inr (fd, s')"
    using fm_dupD [OF assms(1,2,6)] by blast
  have f': "f' = f" using k(1) assms(3) by simp
  have len: "length (fd_table (fprocs s (src m))) = 100" by (rule D(2) [OF assms(2)])
  have gk: "fd_table (fprocs s (src m)) ! k = Some g" using assms(4) k(2) by simp
  let ?t = "set_file f ((open_files s f)\<lparr>fcount := fcount (open_files s f) + 1\<rparr>) (set_fd (src m) (int k) (Some f) s)"
  obtain i where s': "s' = set_min_fd (src m) (int i) ?t"
    using adv unfolding f' by (auto simp: advance_min_fd_def Let_def guardE_def split: option.splits if_splits)
  have tab: "fd_table (fprocs s' q) = (if q = src m then (fd_table (fprocs s q))[k := Some f] else fd_table (fprocs s q))" for q
    unfolding s' by (simp add: set_min_fd_def set_fd_def set_proc_def set_file_def)
  have "slots L s' g = slots L s g - {(src m, k)}"
    using k(3) len assms(5) by (auto simp: slots_def tab nth_list_update split: if_splits)
  moreover have mem: "(src m, k) \<in> slots L s g" using k(3) assms(2) gk by (simp add: slots_def)
  ultimately have "card (slots L s' g) = card (slots L s g) - 1" by (simp add: card_Diff_singleton)
  moreover have "0 < card (slots L s g)" using mem finite_slots [OF D(1)] card_gt_0_iff by blast
  moreover have live: "g < 128" "g \<notin> set (free_files s)" using mem D(6) [of g] by auto
  moreover have "fcount (open_files s' g) = fcount (open_files s g)" "free_files s' = free_files s"
    unfolding s' using assms(5) by (simp_all add: set_min_fd_def set_fd_def set_proc_def set_file_def)
  ultimately have c: "fcount (open_files s' g) = int (card (slots L s' g)) + 1" using D(7) [OF live] by linarith
  have "\<not> files_ok L s'"
  proof
    assume "files_ok L s'"
    from files_okD(7) [OF this live(1)] live(2) c show False
      unfolding s' by (simp add: set_min_fd_def set_fd_def set_proc_def set_file_def)
  qed
  with c show ?thesis by blast
qed

theorem dup_loses_descriptor_witness:
  "\<exists>x st s'. fm_dup no_client \<lparr>src = 9, dest = 3, mtype = 7, i0 = 3, i1 = 0, i2 = 0, i3 = 0, i4 = 0\<rparr>
      (set_min_fd 9 4 refs_fs) = Inr (Some x, st, s') \<and> \<not> files_ok {9} s'"
proof -
  let ?m = "\<lparr>src = 9, dest = 3, mtype = 7, i0 = 3, i1 = 0, i2 = 0, i3 = 0, i4 = 0\<rparr>"
  let ?s = "set_min_fd 9 4 refs_fs"
  have sl: "slots {9} ?s f = slots {9} refs_fs f" for f
    by (auto simp: slots_def set_min_fd_def set_proc_def split: if_splits)
  have ok: "files_ok {9} ?s"
    using refs_fs_ok unfolding files_ok_def sl by (simp add: set_min_fd_def set_proc_def)
  have "\<exists>x st s'. fm_dup no_client ?m ?s = Inr (Some x, st, s')"
    by (simp add: fm_dup_def fd_at_def refs_fs_def advance_min_fd_def answer_def set_fd_def set_min_fd_def set_proc_def
        set_file_def Let_def next_idle.simps)
  then obtain x st s' where run: "fm_dup no_client ?m ?s = Inr (Some x, st, s')" by blast
  have "\<not> files_ok {9} s'"
  proof (rule dup_loses_descriptor [THEN conjunct1, OF ok _ _ _ _ run])
    show "fd_at (src ?m) (i0 ?m) ?s = Inr (Some 0)"
      by (simp add: fd_at_def refs_fs_def set_min_fd_def set_proc_def Let_def)
    show "fd_table (fprocs ?s (src ?m)) ! nat (min_fd (fprocs ?s (src ?m))) = Some 1"
      by (simp add: refs_fs_def set_min_fd_def set_proc_def)
  qed simp_all
  with run show ?thesis by blast
qed

end
