(* ===== verification/Paging.thy ===== *)
theory Paging
  imports C_String
begin

text \<open>
  Physical memory, page tables and segment descriptors: src/kernel/memory/util.c and kvm.c,
  include/x86/memory.h, and the copies between kernel and process memory of src/lib/kcpy.c.
  Physical memory is a map from 32-bit addresses to bytes; page tables live in it. Kernel
  buffers that are only passed through are lists of bytes.
\<close>

section \<open>Physical memory\<close>

type_synonym ram = "u32 \<Rightarrow> u8"

definition load32 :: "ram \<Rightarrow> u32 \<Rightarrow> u32" where
  "load32 m a = bytes_u32 (m a) (m (a + 1)) (m (a + 2)) (m (a + 3))"

definition store_bytes :: "ram \<Rightarrow> u32 \<Rightarrow> u8 list \<Rightarrow> ram" where
  "store_bytes m a bs = (\<lambda>x. if unat (x - a) < length bs then bs ! unat (x - a) else m x)"

definition load_bytes :: "ram \<Rightarrow> u32 \<Rightarrow> nat \<Rightarrow> u8 list" where
  "load_bytes m a n = map (\<lambda>k. m (a + of_nat k)) [0..<n]"

definition store32 :: "ram \<Rightarrow> u32 \<Rightarrow> u32 \<Rightarrow> ram" where
  "store32 m a w = store_bytes m a (u32_bytes w)"

abbreviation KOFFSET :: u32 where "KOFFSET \<equiv> 0xC0000000"
abbreviation PAGE_SIZE :: u32 where "PAGE_SIZE \<equiv> 4096"

definition va_to_pa :: "u32 \<Rightarrow> u32" where
  "va_to_pa addr = addr - KOFFSET"

text \<open>The kernel's own page table maps physical memory at 0 and at \<open>KOFFSET\<close>.\<close>

definition kernel_pa :: "u32 \<Rightarrow> u32" where
  "kernel_pa va = (if va < KOFFSET then va else va_to_pa va)"

section \<open>Page table entries\<close>

text \<open>The bit fields of \<open>PDE\<close> and \<open>PTE\<close> that the kernel uses: bits 0 to 2 and 12 to 31.\<close>

definition present :: "u32 \<Rightarrow> bool" where
  "present e \<longleftrightarrow> e AND 1 \<noteq> 0"

definition page_frame :: "u32 \<Rightarrow> u32" where
  "page_frame e = drop_bit 12 e"

definition make_invalid_pde :: "u32 \<Rightarrow> ram \<Rightarrow> ram" where
  "make_invalid_pde p m = store32 m p 0"

definition make_invalid_pte :: "u32 \<Rightarrow> ram \<Rightarrow> ram" where
  "make_invalid_pte p m = store32 m p 0"

definition make_pde :: "u32 \<Rightarrow> u32 \<Rightarrow> ram \<Rightarrow> ram" where
  "make_pde p addr m = store32 m p (push_bit 12 (drop_bit 12 addr) OR 4 OR 2 OR 1)"

definition make_pte :: "u32 \<Rightarrow> u32 \<Rightarrow> ram \<Rightarrow> ram" where
  "make_pte p addr m = store32 m p (push_bit 12 (drop_bit 12 addr) OR 4 OR 2 OR 1)"

section \<open>Translation and copies\<close>

text \<open>Entry \<open>i\<close> of a table at \<open>t\<close>; the frame an entry points to.\<close>

definition entry_at :: "ram \<Rightarrow> u32 \<Rightarrow> u32 \<Rightarrow> u32" where
  "entry_at m t i = load32 m (t + 4 * i)"

definition frame_addr :: "u32 \<Rightarrow> u32" where
  "frame_addr e = push_bit 12 (page_frame e)"

definition physical_addr :: "ram \<Rightarrow> u32 \<Rightarrow> u32 \<Rightarrow> u32 exec" where
  "physical_addr m pdir vir_addr =
     (let pdir_idx = drop_bit 22 vir_addr; pde = entry_at m pdir pdir_idx in
      assertE (present pde)
        (let ptable = frame_addr pde; ptable_idx = drop_bit 12 vir_addr AND 0x3ff;
             pte = entry_at m ptable ptable_idx in
         assertE (present pte)
           (Inr (frame_addr pte + (vir_addr AND 0xfff)))))"

text \<open>
  The page loops of the two copies. After the last byte the code translates the address behind
  the buffer as well. \<open>first\<close>: the first round goes to the end of its page only.
\<close>

definition round_len :: "bool \<Rightarrow> u32 \<Rightarrow> nat \<Rightarrow> nat" where
  "round_len first va n = min (if first then 4096 - unat (va AND 0xfff) else 4096) n"

lemma round_len_pos: "0 < n \<Longrightarrow> 0 < round_len first va n"
proof -
  have "unat (va AND 0xfff) < 4096"
    using word_and_le1 [of va "0xfff"] by (simp add: word_le_nat_alt)
  then show "0 < n \<Longrightarrow> 0 < round_len first va n" by (simp add: round_len_def)
qed

function copy_out_loop :: "u32 \<Rightarrow> bool \<Rightarrow> u32 \<Rightarrow> u32 \<Rightarrow> u8 list \<Rightarrow> ram \<Rightarrow> ram exec" where
  "copy_out_loop pdir first pa va bs m =
     (if bs \<noteq> [] then
        let n = round_len first va (length bs);
            m = store_bytes m pa (take n bs);
            va = va + of_nat n in
        bindE (physical_addr m pdir va) (\<lambda>pa. copy_out_loop pdir False pa va (drop n bs) m)
      else Inr m)"
  by pat_completeness auto
termination
  by (relation "measure (\<lambda>(pdir, first, pa, va, bs, m). length bs)") (auto simp: round_len_pos)

declare copy_out_loop.simps [simp del]

definition copy_from_kernel :: "bool \<Rightarrow> u32 \<Rightarrow> u32 \<Rightarrow> u8 list \<Rightarrow> ram \<Rightarrow> ram exec" where
  "copy_from_kernel is_kernel pdir va bs m =
     (if is_kernel then Inr (store_bytes m (kernel_pa va) bs)
      else bindE (physical_addr m pdir va) (\<lambda>pa. copy_out_loop pdir True pa va bs m))"

function copy_in_loop :: "u32 \<Rightarrow> bool \<Rightarrow> u32 \<Rightarrow> u32 \<Rightarrow> nat \<Rightarrow> ram \<Rightarrow> u8 list exec" where
  "copy_in_loop pdir first pa va n m =
     (if 0 < n then
        let k = round_len first va n; va = va + of_nat k in
        bindE (physical_addr m pdir va) (\<lambda>pa'.
          bindE (copy_in_loop pdir False pa' va (n - k) m) (\<lambda>bs. Inr (load_bytes m pa k @ bs)))
      else Inr [])"
  by pat_completeness auto
termination
  by (relation "measure (\<lambda>(pdir, first, pa, va, n, m). n)") (auto simp: round_len_pos)

declare copy_in_loop.simps [simp del]

definition copy_to_kernel :: "bool \<Rightarrow> u32 \<Rightarrow> u32 \<Rightarrow> nat \<Rightarrow> ram \<Rightarrow> u8 list exec" where
  "copy_to_kernel is_kernel pdir va n m =
     (if is_kernel then Inr (load_bytes m (kernel_pa va) n)
      else bindE (physical_addr m pdir va) (\<lambda>pa. copy_in_loop pdir True pa va n m))"

text \<open>
  The characters before a NUL among \<open>n\<close> bytes; \<open>strlen_user_string\<close> keeps only the offset of the
  address in its page when it goes on to the next one, and may never find a NUL.
\<close>

fun scan_page :: "ram \<Rightarrow> u32 \<Rightarrow> nat \<Rightarrow> nat \<Rightarrow> nat + nat" where
  "scan_page m pa 0 k = Inr k"
| "scan_page m pa (Suc n) k = (if m pa = 0 then Inl (Suc k) else scan_page m (pa + 1) n (Suc k))"

partial_function (option) strlen_loop :: "ram \<Rightarrow> u32 \<Rightarrow> u32 \<Rightarrow> u32 \<Rightarrow> nat \<Rightarrow> nat \<Rightarrow> nat exec option" where
  "strlen_loop m pdir pa vir_addr rest k =
     (case scan_page m pa rest k of
        Inl r \<Rightarrow> Some (Inr r)
      | Inr k \<Rightarrow>
          (case physical_addr m pdir vir_addr of
             Inl e \<Rightarrow> Some (Inl e)
           | Inr pa \<Rightarrow> strlen_loop m pdir pa (vir_addr + PAGE_SIZE) 4096 k))"

definition strlen_user_string :: "ram \<Rightarrow> u32 \<Rightarrow> u32 \<Rightarrow> nat exec" where
  "strlen_user_string m pdir vir_addr =
     bindE (physical_addr m pdir vir_addr) (\<lambda>pa.
       case strlen_loop m pdir pa ((vir_addr AND 0xfff) + PAGE_SIZE) (4096 - unat (pa AND 0xfff)) 0 of
         None \<Rightarrow> Inl Loops | Some r \<Rightarrow> r)"

definition strcpy_to_kernel :: "bool \<Rightarrow> u32 \<Rightarrow> u32 \<Rightarrow> ram \<Rightarrow> u8 list exec" where
  "strcpy_to_kernel is_kernel pdir va m =
     bindE (strlen_user_string m pdir va) (\<lambda>n. copy_to_kernel is_kernel pdir va n m)"

definition strcpy_from_kernel :: "bool \<Rightarrow> u32 \<Rightarrow> u32 \<Rightarrow> u8 list \<Rightarrow> ram \<Rightarrow> ram exec" where
  "strcpy_from_kernel is_kernel pdir va str m =
     bindE (strlen str) (\<lambda>n. copy_from_kernel is_kernel pdir va (take n str) m)"

section \<open>The page table of the kernel\<close>

text \<open>
  \<open>init_page\<close>: 32 tables of 1024 entries, one after the other, map the 128 MB of physical memory
  at 0 and at \<open>KOFFSET\<close>.
\<close>

definition clear_pdes :: "u32 \<Rightarrow> ram \<Rightarrow> ram" where
  "clear_pdes pdir = fold (\<lambda>i. make_invalid_pde (pdir + 4 * of_nat i)) [0..<1024]"

text \<open>One table: entries \<open>ptable[0..1023]\<close> for the frames from \<open>pframe\<close> on.\<close>

definition fill_table :: "u32 \<Rightarrow> nat \<Rightarrow> ram \<Rightarrow> ram" where
  "fill_table ptable pframe =
     fold (\<lambda>i. make_pte (ptable + 4 * of_nat i) (push_bit 12 (of_nat (pframe + i)))) [0..<1024]"

definition init_page_step :: "u32 \<Rightarrow> u32 \<Rightarrow> nat \<Rightarrow> ram \<Rightarrow> ram" where
  "init_page_step pdir ptable i m =
     (let t = ptable + 4096 * of_nat i;
          m = make_pde (pdir + 4 * of_nat i) t m;
          m = make_pde (pdir + 4 * of_nat (i + 768)) t m in
      fill_table t (1024 * i) m)"

definition init_page :: "u32 \<Rightarrow> u32 \<Rightarrow> ram \<Rightarrow> ram" where
  "init_page kpdir kptable m =
     fold (init_page_step (va_to_pa kpdir) (va_to_pa kptable)) [0..<32] (clear_pdes (va_to_pa kpdir) m)"

text \<open>The value of CR3: bits 12 to 31 of the address of the directory.\<close>

definition cr3_of :: "u32 \<Rightarrow> u32" where
  "cr3_of pdir = push_bit 12 (drop_bit 12 pdir)"

section \<open>Segment descriptors\<close>

record segdesc =
  limit_15_0 :: u16
  base_15_0 :: u16
  base_23_16 :: u8
  segtype :: u8
  segment_type :: bool
  privilege_level :: nat
  seg_present :: bool
  limit_19_16 :: u8
  operation_size :: bool
  pad0 :: bool
  granularity :: bool
  base_31_24 :: u8

definition set_segment :: "nat \<Rightarrow> u8 \<Rightarrow> segdesc" where
  "set_segment pl ty =
     \<lparr>limit_15_0 = 0xFFFF, base_15_0 = 0, base_23_16 = 0, segtype = ty, segment_type = True,
      privilege_level = pl, seg_present = True, limit_19_16 = 0xF, operation_size = False, pad0 = True,
      granularity = True, base_31_24 = 0\<rparr>"

text \<open>\<open>sizeof(TSS)\<close> is 100; the descriptor is for the TSS at \<open>base\<close>.\<close>

definition set_tss :: "u32 \<Rightarrow> segdesc" where
  "set_tss base =
     (let lim = 99 :: u32 in
      \<lparr>limit_15_0 = ucast (lim AND 0xffff), base_15_0 = ucast (base AND 0xffff),
       base_23_16 = ucast (drop_bit 16 base AND 0xff), segtype = 9, segment_type = False,
       privilege_level = 3, seg_present = True, limit_19_16 = ucast (drop_bit 16 lim), operation_size = False,
       pad0 = True, granularity = False, base_31_24 = ucast (drop_bit 24 base)\<rparr>)"

text \<open>The null descriptor, kernel code and data, user code and data, and the TSS.\<close>

definition init_segment :: "u32 \<Rightarrow> segdesc option list" where
  "init_segment tss =
     [None, Some (set_segment 0 (8 OR 2)), Some (set_segment 0 2), Some (set_segment 3 (8 OR 2)),
      Some (set_segment 3 2), Some (set_tss tss)]"

text \<open>What the processor takes as base and limit of a segment.\<close>

definition seg_base :: "segdesc \<Rightarrow> u32" where
  "seg_base d = ucast (base_15_0 d) OR push_bit 16 (ucast (base_23_16 d)) OR push_bit 24 (ucast (base_31_24 d))"

definition seg_limit :: "segdesc \<Rightarrow> u32" where
  "seg_limit d =
     (let l = ucast (limit_15_0 d) OR push_bit 16 (ucast (limit_19_16 d)) in
      if granularity d then push_bit 12 l OR 0xfff else l)"

end
