(* ===== verification/Memory.thy ===== *)
theory Memory
  imports Paging Fs_Backstage
begin

text \<open>
  The memory manager (src/kernel/manager_server/memory_manager.c): the bitmap of physical pages,
  address spaces of processes, loading of ELF programs, the heap. The file server, which it asks
  for the bytes of programs, is an argument: what it answers to an open, and the bytes it
  delivers for a read.
\<close>

section \<open>State\<close>

abbreviation KERNEL_MEM :: u32 where "KERNEL_MEM \<equiv> 0x1000000"
abbreviation PAGE_NUM :: nat where "PAGE_NUM \<equiv> 28672"

text \<open>
  The fields of \<open>PCB\<close> this server uses. \<open>kpdir\<close>: the physical address of the page directory,
  \<open>va_to_pa(pcb->kpdir)\<close> (\<open>handle_child\<close> writes to the same directory through its virtual address).
\<close>

record mproc =
  kpdir :: u32
  heap_top :: u32
  heap_start :: u32
  cr3 :: u32
  entry :: u32

record mm =
  ram :: ram
  page_bitmap :: "nat \<Rightarrow> u8"
  bitmap_idx :: nat
  mprocs :: "int \<Rightarrow> mproc"

record fserver =
  mem_pid :: int
  open_elf_file :: "int \<Rightarrow> int"
  elf_bytes :: "int \<Rightarrow> int \<Rightarrow> int \<Rightarrow> u8 list"

section \<open>Pages\<close>

definition get_idle_page :: "mm \<Rightarrow> (u32 \<times> mm) exec" where
  "get_idle_page s =
     guardE OutOfRange (bitmap_idx s < PAGE_NUM)
       (case next_idle (\<lambda>i. page_bitmap s i \<noteq> 0) PAGE_NUM (bitmap_idx s) of
          None \<Rightarrow> Inl Loops
        | Some i \<Rightarrow>
            Inr (KERNEL_MEM + of_nat i * 4096,
                 s\<lparr>bitmap_idx := i, page_bitmap := (page_bitmap s)(i := 1)\<rparr>))"

definition set_page_idle :: "u32 \<Rightarrow> mm \<Rightarrow> mm exec" where
  "set_page_idle page s =
     (let idx = unat ((page - KERNEL_MEM) div 4096) in
      guardE OutOfRange (idx < PAGE_NUM) (Inr (s\<lparr>page_bitmap := (page_bitmap s)(idx := 0)\<rparr>)))"

definition set_ram :: "(ram \<Rightarrow> ram) \<Rightarrow> mm \<Rightarrow> mm" where
  "set_ram f s = s\<lparr>ram := f (ram s)\<rparr>"

text \<open>\<open>get_idle_page\<close> and \<open>memset(page, 0, PAGE_SIZE)\<close>.\<close>

definition zero_page :: "u32 \<Rightarrow> ram \<Rightarrow> ram" where
  "zero_page a m = store_bytes m a (replicate 4096 0)"

definition get_zero_page :: "mm \<Rightarrow> (u32 \<times> mm) exec" where
  "get_zero_page s = bindE (get_idle_page s) (\<lambda>(a, s). Inr (a, set_ram (zero_page a) s))"

definition idle_pages :: "mm \<Rightarrow> nat" where
  "idle_pages s = card {i. i < PAGE_NUM \<and> page_bitmap s i = 0}"

lemma get_idle_page_less:
  assumes "get_idle_page s = Inr (a, s')"
  shows "idle_pages s' < idle_pages s" and "ram s' = ram s" and "mprocs s' = mprocs s"
proof -
  obtain i where i: "next_idle (\<lambda>i. page_bitmap s i \<noteq> 0) PAGE_NUM (bitmap_idx s) = Some i" "bitmap_idx s < PAGE_NUM"
    and s': "s' = s\<lparr>bitmap_idx := i, page_bitmap := (page_bitmap s)(i := 1)\<rparr>"
    using assms by (auto simp: get_idle_page_def split: option.splits)
  from next_idle_sound [OF i(1)] i(2) have "i < PAGE_NUM" "page_bitmap s i = 0" by auto
  then have "{k. k < PAGE_NUM \<and> page_bitmap s' k = 0} \<subset> {k. k < PAGE_NUM \<and> page_bitmap s k = 0}"
    unfolding s' by auto
  then show "idle_pages s' < idle_pages s" unfolding idle_pages_def by (intro psubset_card_mono) auto
  show "ram s' = ram s" "mprocs s' = mprocs s" by (simp_all add: s')
qed

lemma get_zero_page_less: "get_zero_page s = Inr (a, s') \<Longrightarrow> idle_pages s' < idle_pages s"
  by (auto simp: get_zero_page_def bindE_eq_Inr_iff set_ram_def idle_pages_def [abs_def]
      dest!: get_idle_page_less(1))

section \<open>Address spaces\<close>

text \<open>A table for directory entry \<open>i\<close>, and a page for table entry \<open>i\<close>, unless there is one.\<close>

definition ensure_table :: "u32 \<Rightarrow> u32 \<Rightarrow> mm \<Rightarrow> mm exec" where
  "ensure_table pdir i s =
     (if present (entry_at (ram s) pdir i) then Inr s
      else bindE (get_zero_page s) (\<lambda>(t, s). Inr (set_ram (make_pde (pdir + 4 * i) t) s)))"

definition ensure_page :: "u32 \<Rightarrow> u32 \<Rightarrow> mm \<Rightarrow> mm exec" where
  "ensure_page ptable i s =
     (if present (entry_at (ram s) ptable i) then Inr s
      else bindE (get_zero_page s) (\<lambda>(a, s). Inr (set_ram (make_pte (ptable + 4 * i) a) s)))"

text \<open>
  One more page behind the mapped ones, with a new table when the index has reached the end of
  the table (lines 116-128 and 268-280).
\<close>

type_synonym cursor = "u32 \<times> u32 \<times> u32"

definition next_page :: "u32 \<Rightarrow> cursor \<Rightarrow> mm \<Rightarrow> (cursor \<times> mm) exec" where
  "next_page pdir = (\<lambda>(pdir_idx, ptable, ptable_idx) s.
     bindE (get_zero_page s) (\<lambda>(pframe, s).
     bindE (if ptable_idx = 1024
            then bindE (get_zero_page s) (\<lambda>(t, s).
                   Inr ((pdir_idx + 1, t, 0), set_ram (make_pde (pdir + 4 * (pdir_idx + 1)) t) s))
            else Inr ((pdir_idx, ptable, ptable_idx), s))
       (\<lambda>((pdir_idx, ptable, ptable_idx), s).
         Inr ((pdir_idx, ptable, ptable_idx + 1), set_ram (make_pte (ptable + 4 * ptable_idx) pframe) s))))"

lemma next_page_less: "next_page pdir cu s = Inr (cu', s') \<Longrightarrow> idle_pages s' < idle_pages s"
proof -
  have r: "idle_pages (set_ram f t) = idle_pages t" for f t by (simp add: set_ram_def idle_pages_def)
  show "next_page pdir cu s = Inr (cu', s') \<Longrightarrow> idle_pages s' < idle_pages s"
    by (cases cu) (auto simp: next_page_def bindE_eq_Inr_iff r dest!: get_zero_page_less split: if_splits)
qed

section \<open>The heap\<close>

function grow_loop :: "u32 \<Rightarrow> u32 \<Rightarrow> u32 \<Rightarrow> cursor \<Rightarrow> mm \<Rightarrow> mm exec" where
  "grow_loop pdir new_heap_top new_page_addr cu s =
     (if new_page_addr < new_heap_top
      then bindE (next_page pdir cu s) (\<lambda>(cu, s). grow_loop pdir new_heap_top (new_page_addr + 4096) cu s)
      else Inr s)"
  by pat_completeness auto
termination
  by (relation "measure (\<lambda>(pdir, t, addr, cu, s). idle_pages s)") (auto dest: next_page_less)

declare grow_loop.simps [simp del]

definition heap_grow :: "u32 \<Rightarrow> u32 \<Rightarrow> u32 \<Rightarrow> mm \<Rightarrow> mm exec" where
  "heap_grow pdir old_top new_heap_top s =
     (let pdir_idx = drop_bit 22 old_top in
      bindE (ensure_table pdir pdir_idx s) (\<lambda>s.
        let ptable = frame_addr (entry_at (ram s) pdir pdir_idx);
            ptable_idx = drop_bit 12 old_top AND 0x3ff in
        bindE (ensure_page ptable ptable_idx s) (\<lambda>s.
          grow_loop pdir new_heap_top (old_top - (old_top AND 0xfff) + 4096)
            (pdir_idx, ptable, ptable_idx + 1) s)))"

text \<open>
  Shrinking: the table pointer is still \<open>NULL\<close>, the unsigned index is never negative, and the
  loop condition never changes.
\<close>

partial_function (option) shrink_loop :: "u32 \<Rightarrow> mm \<Rightarrow> mm exec option" where
  "shrink_loop ptable_idx s =
     (case set_page_idle (frame_addr (entry_at (ram s) 0 ptable_idx))
             (set_ram (make_invalid_pte (4 * ptable_idx)) s) of
        Inl e \<Rightarrow> Some (Inl e)
      | Inr s \<Rightarrow> shrink_loop (ptable_idx - 1) s)"

definition heap_shrink :: "u32 \<Rightarrow> u32 \<Rightarrow> mm \<Rightarrow> mm exec" where
  "heap_shrink old_top new_heap_top s =
     (let remove_page_addr = old_top AND 0xfffff000 in
      if new_heap_top \<le> remove_page_addr then
        (case shrink_loop (drop_bit 12 remove_page_addr AND 0x3ff) s of None \<Rightarrow> Inl Loops | Some r \<Rightarrow> r)
      else Inr s)"

definition set_mproc :: "int \<Rightarrow> mproc \<Rightarrow> mm \<Rightarrow> mm" where
  "set_mproc pid p s = s\<lparr>mprocs := (mprocs s)(pid := p)\<rparr>"

definition sbrk :: "int \<Rightarrow> msg \<Rightarrow> mm \<Rightarrow> (msg \<times> mm) exec" where
  "sbrk self m s =
     assertE (0 \<le> src m \<and> src m < POOL_NUM)
       (let p = mprocs s (src m); inc = i0 m; new_heap_top = heap_top p + u32_of inc in
        bindE (if 0 < inc then heap_grow (kpdir p) (heap_top p) new_heap_top s
               else if inc < 0 then heap_shrink (heap_top p) new_heap_top s
               else Inr s)
          (\<lambda>s. Inr (reply self (sint new_heap_top) m, set_mproc (src m) (p\<lparr>heap_top := new_heap_top\<rparr>) s)))"

section \<open>Loading programs\<close>

text \<open>\<open>create_kernel_dir\<close>: the first 16 MB at 0, not for user mode, and at \<open>KOFFSET\<close>.\<close>

definition kernel_dir_step :: "u32 \<Rightarrow> nat \<Rightarrow> mm \<Rightarrow> mm exec" where
  "kernel_dir_step pdir i s =
     bindE (get_zero_page s) (\<lambda>(ptable, s).
       let p = pdir + 4 * of_nat i;
           m = make_pde p ptable (ram s);
           m = store32 m p (load32 m p AND NOT 4);
           m = make_pde (pdir + 4 * of_nat (i + 768)) ptable m in
       Inr (s\<lparr>ram := fill_table ptable (1024 * i) m\<rparr>))"

definition create_kernel_dir :: "u32 \<Rightarrow> mm \<Rightarrow> mm exec" where
  "create_kernel_dir pdir s = fold_exec (kernel_dir_step pdir) [0..<4] (set_ram (clear_pdes pdir) s)"

text \<open>\<open>create_stack_page\<close>: ten pages below 0xc0000000; their contents are not cleared.\<close>

definition stack_step :: "u32 \<Rightarrow> nat \<Rightarrow> mm \<Rightarrow> mm exec" where
  "stack_step ptable i s =
     bindE (get_idle_page s) (\<lambda>(a, s). Inr (set_ram (make_pte (ptable + 4 * (1023 - of_nat i)) a) s))"

definition create_stack_page :: "u32 \<Rightarrow> mm \<Rightarrow> mm exec" where
  "create_stack_page pdir s =
     bindE (get_zero_page s) (\<lambda>(ptable, s).
       fold_exec (stack_step ptable) [0..<10] (set_ram (make_pde (pdir + 4 * 767) ptable) s))"

text \<open>
  \<open>read_elf\<close>: the file server seeks and then copies the bytes it has into the memory of the
  requesting process, a kernel thread or \<open>pid\<close>.
\<close>

definition read_elf :: "fserver \<Rightarrow> int \<Rightarrow> bool \<Rightarrow> u32 \<Rightarrow> u32 \<Rightarrow> u32 \<Rightarrow> u32 \<Rightarrow> mm \<Rightarrow> mm exec" where
  "read_elf f fd kern pdir va off sz s =
     bindE (copy_from_kernel kern pdir va (elf_bytes f fd (sint off) (sint sz)) (ram s))
       (\<lambda>m. Inr (s\<lparr>ram := m\<rparr>))"

function segment_loop :: "u32 \<Rightarrow> cursor \<Rightarrow> int \<Rightarrow> mm \<Rightarrow> mm exec" where
  "segment_loop pdir cu mem_rest_size s =
     (if 0 < mem_rest_size
      then bindE (next_page pdir cu s) (\<lambda>(cu, s). segment_loop pdir cu (mem_rest_size - 4096) s)
      else Inr s)"
  by pat_completeness auto
termination
  by (relation "measure (\<lambda>(pdir, cu, n, s). nat n)") auto

declare segment_loop.simps [simp del]

record phdr =
  ph_type :: u32
  ph_off :: u32
  ph_vaddr :: u32
  ph_filesz :: u32
  ph_memsz :: u32

text \<open>\<open>struct ProgramHeader\<close> of boot.h at an address.\<close>

definition phdr_at :: "ram \<Rightarrow> u32 \<Rightarrow> phdr" where
  "phdr_at m a =
     \<lparr>ph_type = load32 m a, ph_off = load32 m (a + 4), ph_vaddr = load32 m (a + 8),
      ph_filesz = load32 m (a + 16), ph_memsz = load32 m (a + 20)\<rparr>"

definition load_segment :: "fserver \<Rightarrow> u32 \<Rightarrow> phdr \<Rightarrow> int \<Rightarrow> mm \<Rightarrow> mm exec" where
  "load_segment f pdir ph elf_fd s =
     (let vaddr = ph_vaddr ph; pdir_idx = drop_bit 22 vaddr in
      bindE (ensure_table pdir pdir_idx s) (\<lambda>s.
        let ptable = frame_addr (entry_at (ram s) pdir pdir_idx);
            ptable_idx = drop_bit 12 vaddr AND 0x3ff in
        bindE (ensure_page ptable ptable_idx s) (\<lambda>s.
          let temp = 4096 - (vaddr AND 0xfff);
              first_mem_len = (if temp < ph_memsz ph then temp else ph_memsz ph) in
          bindE (segment_loop pdir (pdir_idx, ptable, ptable_idx + 1) (sint (ph_memsz ph - first_mem_len)) s)
            (read_elf f elf_fd False pdir vaddr (ph_off ph) (ph_filesz ph)))))"

definition load_phdr :: "fserver \<Rightarrow> int \<Rightarrow> int \<Rightarrow> u32 \<Rightarrow> nat \<Rightarrow> mm \<Rightarrow> mm exec" where
  "load_phdr f pid elf_fd phs i s =
     (let pdir = kpdir (mprocs s pid); ph = phdr_at (ram s) (phs + 32 * of_nat i) in
      bindE (if ph_memsz ph \<noteq> 0 then load_segment f pdir ph elf_fd s else Inr s) (\<lambda>s.
        Inr (if ph_type ph = 1 then
               let t = ph_vaddr ph + ph_memsz ph in
               set_mproc pid ((mprocs s pid)\<lparr>heap_start := t, heap_top := t\<rparr>) s
             else s)))"

text \<open>The ELF header is read to address 0x8000: \<open>entry\<close> at 24, \<open>phoff\<close> at 28, \<open>phnum\<close> at 44.\<close>

definition load_program :: "fserver \<Rightarrow> int \<Rightarrow> int \<Rightarrow> mm \<Rightarrow> mm exec" where
  "load_program f pid elf_fd s =
     (let pdir = kpdir (mprocs s pid); elf = 0x8000 :: u32 in
      bindE (create_kernel_dir pdir s) (\<lambda>s.
      bindE (create_stack_page pdir s) (\<lambda>s.
      bindE (read_elf f elf_fd True 0 elf 0 4096 s) (\<lambda>s.
        let phs = elf + load32 (ram s) (elf + 28);
            phnum = unat (load32 (ram s) (elf + 44) AND 0xffff) in
        bindE (fold_exec (load_phdr f pid elf_fd phs) [0..<phnum] s) (\<lambda>s.
          Inr (set_mproc pid ((mprocs s pid)\<lparr>cr3 := cr3_of pdir, entry := load32 (ram s) (elf + 24)\<rparr>) s))))))"

section \<open>Copying and giving back an address space\<close>

text \<open>Directory entries 4 to 767 are those of the process.\<close>

definition copy_page :: "u32 \<Rightarrow> u32 \<Rightarrow> nat \<Rightarrow> mm \<Rightarrow> mm exec" where
  "copy_page p_ptable c_ptable i s =
     (let pte = entry_at (ram s) p_ptable (of_nat i) in
      if present pte then
        bindE (get_idle_page s) (\<lambda>(a, s).
          Inr (set_ram (\<lambda>m. make_pte (c_ptable + 4 * of_nat i) a
                 (store_bytes m a (load_bytes m (frame_addr pte) 4096))) s))
      else Inr s)"

definition copy_table :: "u32 \<Rightarrow> u32 \<Rightarrow> nat \<Rightarrow> mm \<Rightarrow> mm exec" where
  "copy_table p_pdir c_pdir i s =
     (let pde = entry_at (ram s) p_pdir (of_nat i) in
      if present pde then
        bindE (get_zero_page s) (\<lambda>(c_ptable, s).
          fold_exec (copy_page (frame_addr pde) c_ptable) [0..<1024]
            (set_ram (make_pde (c_pdir + 4 * of_nat i) c_ptable) s))
      else Inr s)"

definition copy_process :: "int \<Rightarrow> int \<Rightarrow> mm \<Rightarrow> mm exec" where
  "copy_process ppid cpid s =
     (let p_pdir = kpdir (mprocs s ppid); c_pdir = kpdir (mprocs s cpid) in
      fold_exec (copy_table p_pdir c_pdir) [4..<768]
        (set_mproc cpid ((mprocs s cpid)\<lparr>cr3 := cr3_of c_pdir\<rparr>) s))"

definition takeback_kernel :: "u32 \<Rightarrow> nat \<Rightarrow> mm \<Rightarrow> mm exec" where
  "takeback_kernel pdir i s = set_page_idle (frame_addr (entry_at (ram s) pdir (of_nat i))) s"

definition takeback_pte :: "u32 \<Rightarrow> nat \<Rightarrow> mm \<Rightarrow> mm exec" where
  "takeback_pte ptable i s =
     (let pte = entry_at (ram s) ptable (of_nat i) in
      if present pte then
        bindE (set_page_idle (frame_addr pte) s) (\<lambda>s.
          Inr (set_ram (make_invalid_pte (ptable + 4 * of_nat i)) s))
      else Inr s)"

definition takeback_pde :: "u32 \<Rightarrow> nat \<Rightarrow> mm \<Rightarrow> mm exec" where
  "takeback_pde pdir i s =
     (let pde = entry_at (ram s) pdir (of_nat i) in
      if present pde then
        let ptable = frame_addr pde in
        bindE (fold_exec (takeback_pte ptable) [0..<1024] s) (\<lambda>s.
        bindE (set_page_idle ptable s) (\<lambda>s.
          Inr (set_ram (make_invalid_pde (pdir + 4 * of_nat i)) s)))
      else Inr s)"

definition takeback_page :: "u32 \<Rightarrow> mm \<Rightarrow> mm exec" where
  "takeback_page pdir s =
     bindE (fold_exec (takeback_kernel pdir) [0..<4] s) (fold_exec (takeback_pde pdir) [4..<768])"

section \<open>Requests\<close>

text \<open>\<open>pcb_pool[m->i[0]]\<close>\<close>

definition in_pool :: "int \<Rightarrow> 'a exec \<Rightarrow> 'a exec" where
  "in_pool pid c = guardE OutOfRange (0 \<le> pid \<and> pid < POOL_NUM) c"

text \<open>An answer whose \<open>ret\<close> is left as it was, the type of the request.\<close>

definition reply_done :: "int \<Rightarrow> msg \<Rightarrow> msg" where
  "reply_done self m = m\<lparr>dest := src m, src := self\<rparr>"

text \<open>\<open>handle_pcb\<close> does not look whether the program could be opened.\<close>

definition handle_pcb :: "fserver \<Rightarrow> msg \<Rightarrow> mm \<Rightarrow> (msg \<times> mm) exec" where
  "handle_pcb f m s =
     in_pool (i0 m)
       (bindE (load_program f (i0 m) (open_elf_file f (i1 m)) s) (\<lambda>s. Inr (reply_done (mem_pid f) m, s)))"

definition handle_child :: "fserver \<Rightarrow> msg \<Rightarrow> mm \<Rightarrow> (msg \<times> mm) exec" where
  "handle_child f m s =
     in_pool (i0 m) (in_pool (i1 m)
       (bindE (create_kernel_dir (kpdir (mprocs s (i1 m))) s) (\<lambda>s.
        bindE (copy_process (i0 m) (i1 m) s) (\<lambda>s. Inr (reply_done (mem_pid f) m, s)))))"

definition handle_exec :: "fserver \<Rightarrow> msg \<Rightarrow> mm \<Rightarrow> (msg \<times> mm) exec" where
  "handle_exec f m s =
     in_pool (i0 m)
       (let elf_fd = open_elf_file f (i1 m) in
        if elf_fd = - 1 then Inr (reply (mem_pid f) (- 1) m, s)
        else bindE (takeback_page (kpdir (mprocs s (i0 m))) s) (\<lambda>s.
             bindE (load_program f (i0 m) elf_fd s) (\<lambda>s. Inr (reply (mem_pid f) 0 m, s))))"

definition handle_exit :: "fserver \<Rightarrow> msg \<Rightarrow> mm \<Rightarrow> (msg \<times> mm) exec" where
  "handle_exit f m s =
     in_pool (i0 m)
       (bindE (takeback_page (kpdir (mprocs s (i0 m))) s) (\<lambda>s. Inr (reply_done (mem_pid f) m, s)))"

definition memory_thread :: "fserver \<Rightarrow> msg \<Rightarrow> mm \<Rightarrow> (msg \<times> mm) exec" where
  "memory_thread f m s =
     (if mtype m = 1 then handle_pcb f m s
      else if mtype m = 2 then handle_child f m s
      else if mtype m = 4 then handle_exec f m s
      else if mtype m = 5 then handle_exit f m s
      else if mtype m = 6 then sbrk (mem_pid f) m s
      else Inl AssertFail)"

definition init_memory :: "mm \<Rightarrow> mm" where
  "init_memory s = s\<lparr>bitmap_idx := 0\<rparr>"

end
