(* ===== verification/Memory_Safe.thy ===== *)
theory Memory_Safe
  imports Memory
begin

text \<open>
  What the memory manager keeps: its page bitmap is a slot allocator, and building the address
  space of a child writes only to pages that were idle and to the directory of the child.
\<close>

section \<open>The page allocator\<close>

definition page_of :: "nat \<Rightarrow> u32" where
  "page_of i = KERNEL_MEM + of_nat i * 4096"

definition page_slots :: "u32 set" where
  "page_slots = page_of ` {..<PAGE_NUM}"

definition page_no :: "u32 \<Rightarrow> nat" where
  "page_no a = unat ((a - KERNEL_MEM) div 4096)"

definition page_used :: "mm \<Rightarrow> u32 \<Rightarrow> bool" where
  "page_used s a \<longleftrightarrow> page_bitmap s (page_no a) \<noteq> 0"

definition idx_ok :: "mm \<Rightarrow> bool" where
  "idx_ok s \<longleftrightarrow> bitmap_idx s < PAGE_NUM"

lemma unat_small: "n < 2 ^ 32 \<Longrightarrow> unat (of_nat n :: u32) = n"
  by (simp add: unat_of_nat)

lemma unat_offset: "i < PAGE_NUM \<Longrightarrow> unat (of_nat i * 4096 :: u32) = i * 4096"
  using unat_small [of "i * 4096"] by simp

lemma page_no_page_of [simp]: "i < PAGE_NUM \<Longrightarrow> page_no (page_of i) = i"
  by (simp add: page_no_def page_of_def unat_div unat_offset)

lemma page_of_inj: "i < PAGE_NUM \<Longrightarrow> j < PAGE_NUM \<Longrightarrow> page_of i = page_of j \<longleftrightarrow> i = j"
  by (metis page_no_page_of)

interpretation pages: slot_alloc get_idle_page set_page_idle page_used page_slots idx_ok
proof (unfold_locales, goal_cases)
  case 1
  show ?case by (simp add: page_slots_def)
next
  case (2 s)
  then obtain i where "i < PAGE_NUM" "page_bitmap s i = 0" by (auto simp: page_slots_def page_used_def)
  then obtain k where k: "k < PAGE_NUM" "next_idle (\<lambda>i. page_bitmap s i \<noteq> 0) PAGE_NUM (bitmap_idx s) = Some k"
      "page_bitmap s k = 0"
    using next_idle_Some [of "bitmap_idx s" PAGE_NUM i "\<lambda>i. page_bitmap s i \<noteq> 0"] 2
    by (auto simp: idx_ok_def)
  let ?s = "s\<lparr>bitmap_idx := k, page_bitmap := (page_bitmap s)(k := 1)\<rparr>"
  have "get_idle_page s = Inr (page_of k, ?s)" using k 2 by (simp add: get_idle_page_def page_of_def idx_ok_def)
  moreover have "\<forall>j \<in> page_slots. page_used ?s j \<longleftrightarrow> j = page_of k \<or> page_used s j"
    using k(1) by (auto simp: page_slots_def page_used_def page_of_inj)
  ultimately show ?case using k 2 by (auto simp: page_slots_def page_used_def idx_ok_def page_of_inj)
next
  case (3 s)
  then have "\<forall>k < PAGE_NUM. page_bitmap s k \<noteq> 0" by (auto simp: page_slots_def page_used_def)
  with 3 show ?case by (simp add: get_idle_page_def next_idle_None idx_ok_def)
next
  case (4 s k)
  then obtain i where "i < PAGE_NUM" "k = page_of i" by (auto simp: page_slots_def)
  with 4 show ?case
    by (auto simp: set_page_idle_def page_slots_def page_used_def idx_ok_def page_of_inj simp flip: page_no_def)
qed

section \<open>Writes\<close>

text \<open>The \<open>n\<close> bytes from address \<open>a\<close> on; \<open>room D s\<close>: the region \<open>D\<close> and the idle pages.\<close>

definition region :: "u32 \<Rightarrow> nat \<Rightarrow> u32 set" where
  "region a n = {x. unat (x - a) < n}"

definition idle_ram :: "mm \<Rightarrow> u32 set" where
  "idle_ram s = (\<Union>i \<in> {i. i < PAGE_NUM \<and> page_bitmap s i = 0}. region (page_of i) 4096)"

definition confined :: "u32 set \<Rightarrow> mm \<Rightarrow> mm \<Rightarrow> bool" where
  "confined D s s' \<longleftrightarrow> (\<forall>i. page_bitmap s i \<noteq> 0 \<longrightarrow> page_bitmap s' i \<noteq> 0) \<and>
     (\<forall>x. x \<notin> D \<and> x \<notin> idle_ram s \<longrightarrow> ram s' x = ram s x)"

lemma confined_refl [simp]: "confined D s s"
  by (simp add: confined_def)

lemma idle_ram_mono:
  assumes "confined D s s'"
  shows "idle_ram s' \<subseteq> idle_ram s"
proof -
  have "{i. i < PAGE_NUM \<and> page_bitmap s' i = 0} \<subseteq> {i. i < PAGE_NUM \<and> page_bitmap s i = 0}"
    using assms by (auto simp: confined_def)
  then show ?thesis unfolding idle_ram_def by (intro UN_mono) auto
qed

lemma confined_trans:
  assumes "confined D s s1" and "confined D' s1 s2" and "D' \<subseteq> D \<union> idle_ram s"
  shows "confined D s s2"
  unfolding confined_def
proof (intro conjI allI impI)
  show "page_bitmap s i \<noteq> 0 \<Longrightarrow> page_bitmap s2 i \<noteq> 0" for i
    using assms(1,2) by (simp add: confined_def)
next
  fix x assume x: "x \<notin> D \<and> x \<notin> idle_ram s"
  then have "x \<notin> D'" "x \<notin> idle_ram s1" using assms(3) idle_ram_mono [OF assms(1)] by auto
  with x show "ram s2 x = ram s x" using assms(1,2) by (simp add: confined_def)
qed

lemma confined_weaken: "confined D s s' \<Longrightarrow> D \<subseteq> D' \<Longrightarrow> confined D' s s'"
  by (auto simp: confined_def)

lemma store_bytes_other: "x \<notin> region a (length bs) \<Longrightarrow> store_bytes m a bs x = m x"
  by (simp add: store_bytes_def region_def)

lemma confined_store: "region a (length bs) \<subseteq> D \<Longrightarrow> confined D s (set_ram (\<lambda>m. store_bytes m a bs) s)"
  unfolding confined_def set_ram_def using store_bytes_other by fastforce

lemma region_entry:
  assumes "i < 1024"
  shows "region (t + 4 * of_nat i) 4 \<subseteq> region t 4096"
proof
  fix x assume "x \<in> region (t + 4 * of_nat i) 4"
  then have d: "unat (x - t - 4 * of_nat i) < 4" by (simp add: region_def diff_diff_eq)
  define y where "y = x - t - 4 * of_nat i"
  have i: "unat (4 * of_nat i :: u32) = 4 * i"
    using assms unat_small [of "4 * i"] by simp
  have "unat (y + 4 * of_nat i) = unat y + 4 * i"
    using unat_add_lem [of y "4 * of_nat i"] d assms unfolding i y_def [symmetric] by simp
  moreover have "x - t = y + 4 * of_nat i" by (simp add: y_def)
  ultimately show "x \<in> region t 4096" using d assms unfolding region_def y_def [symmetric] by simp
qed

lemma confined_entry:
  assumes "i < 1024"
  shows "confined (region t 4096) s (set_ram (make_pte (t + 4 * of_nat i) a) s)"
    and "confined (region t 4096) s (set_ram (make_pde (t + 4 * of_nat i) a) s)"
    and "confined (region t 4096) s (set_ram (make_invalid_pde (t + 4 * of_nat i)) s)"
    and "confined (region t 4096) s (set_ram (\<lambda>m. store32 m (t + 4 * of_nat i) (f m)) s)"
proof -
  have *: "confined (region t 4096) s (set_ram (\<lambda>m. store32 m (t + 4 * of_nat i) (f m)) s)" for f
    using confined_store [of "t + 4 * of_nat i" "u32_bytes (f (ram s))" "region t 4096" s] region_entry [OF assms, of t]
    by (simp add: set_ram_def store32_def)
  show "confined (region t 4096) s (set_ram (make_pte (t + 4 * of_nat i) a) s)"
    "confined (region t 4096) s (set_ram (make_pde (t + 4 * of_nat i) a) s)"
    "confined (region t 4096) s (set_ram (make_invalid_pde (t + 4 * of_nat i)) s)"
    "confined (region t 4096) s (set_ram (\<lambda>m. store32 m (t + 4 * of_nat i) (f m)) s)"
    unfolding make_pte_def make_pde_def make_invalid_pde_def by (rule *)+
qed

lemma confined_get:
  assumes "get_idle_page s = Inr (a, s')"
  shows "confined D s s'" and "region a 4096 \<subseteq> idle_ram s"
proof -
  obtain i where i: "next_idle (\<lambda>i. page_bitmap s i \<noteq> 0) PAGE_NUM (bitmap_idx s) = Some i" "bitmap_idx s < PAGE_NUM"
    and s': "s' = s\<lparr>bitmap_idx := i, page_bitmap := (page_bitmap s)(i := 1)\<rparr>" "a = page_of i"
    using assms by (auto simp: get_idle_page_def page_of_def split: option.splits)
  from next_idle_sound [OF i(1)] i(2) have "i < PAGE_NUM" "page_bitmap s i = 0" by auto
  then show "region a 4096 \<subseteq> idle_ram s" unfolding idle_ram_def s'(2) by blast
  show "confined D s s'" by (simp add: confined_def s')
qed

lemma confined_zero:
  assumes "get_zero_page s = Inr (a, s')"
  shows "confined D s s'" and "region a 4096 \<subseteq> idle_ram s"
proof -
  obtain t where t: "get_idle_page s = Inr (a, t)" and s': "s' = set_ram (zero_page a) t"
    using assms by (auto simp: get_zero_page_def bindE_eq_Inr_iff)
  show r: "region a 4096 \<subseteq> idle_ram s" by (rule confined_get(2) [OF t])
  have "confined (region a 4096) t s'"
    unfolding s' zero_page_def by (rule confined_store) simp
  then show "confined D s s'" using confined_trans [OF confined_get(1) [OF t]] r by blast
qed

lemma confined_fold:
  assumes "\<And>i s s'. i \<in> set xs \<Longrightarrow> f i s = Inr s' \<Longrightarrow> confined D s s'"
  shows "fold_exec f xs s = Inr s' \<Longrightarrow> confined D s s'"
  using assms
proof (induction xs arbitrary: s)
  case (Cons x xs)
  from Cons.prems(1) obtain t where "f x s = Inr t" "fold_exec f xs t = Inr s'" by (auto simp: bindE_eq_Inr_iff)
  with Cons show ?case using confined_trans [of D s t D s'] by auto
qed simp

lemma confined_step:
  assumes "get_zero_page s = Inr (a, t)" and "confined (D \<union> region a 4096) t s'"
  shows "confined D s s'"
  using confined_trans [OF confined_zero(1) [OF assms(1), of D] assms(2)] confined_zero(2) [OF assms(1)] by auto

text \<open>Changes of the memory alone.\<close>

definition keeps :: "u32 set \<Rightarrow> ram \<Rightarrow> ram \<Rightarrow> bool" where
  "keeps D m m' \<longleftrightarrow> (\<forall>x. x \<notin> D \<longrightarrow> m' x = m x)"

lemma keeps_refl [simp]: "keeps D m m"
  by (simp add: keeps_def)

lemma keeps_trans: "keeps D m m1 \<Longrightarrow> keeps D m1 m2 \<Longrightarrow> keeps D m m2"
  by (simp add: keeps_def)

lemma keeps_weaken: "keeps D m m' \<Longrightarrow> D \<subseteq> D' \<Longrightarrow> keeps D' m m'"
  by (auto simp: keeps_def)

lemma keeps_fold: "(\<And>i m. i \<in> set xs \<Longrightarrow> keeps D m (f i m)) \<Longrightarrow> keeps D m (fold f xs m)"
proof (induction xs arbitrary: m)
  case (Cons x xs)
  have "keeps D m (f x m)" "keeps D (f x m) (fold f xs (f x m))" using Cons by auto
  then show ?case by (simp add: keeps_trans)
qed simp

lemma keeps_store: "region a (length bs) \<subseteq> D \<Longrightarrow> keeps D m (store_bytes m a bs)"
  unfolding keeps_def using store_bytes_other by fastforce

lemma keeps_entry:
  assumes "i < 1024"
  shows "keeps (region t 4096) m (store32 m (t + 4 * of_nat i) w)"
    and "keeps (region t 4096) m (make_pte (t + 4 * of_nat i) a m)"
    and "keeps (region t 4096) m (make_pde (t + 4 * of_nat i) a m)"
    and "keeps (region t 4096) m (make_invalid_pde (t + 4 * of_nat i) m)"
proof -
  have "keeps (region t 4096) m (store32 m (t + 4 * of_nat i) w)" for w
    unfolding store32_def by (rule keeps_store) (use region_entry [OF assms, of t] in simp)
  note * = this
  show "keeps (region t 4096) m (store32 m (t + 4 * of_nat i) w)"
    "keeps (region t 4096) m (make_pte (t + 4 * of_nat i) a m)"
    "keeps (region t 4096) m (make_pde (t + 4 * of_nat i) a m)"
    "keeps (region t 4096) m (make_invalid_pde (t + 4 * of_nat i) m)"
    unfolding make_pte_def make_pde_def make_invalid_pde_def by (rule *)+
qed

lemma keeps_fill_table: "keeps (region t 4096) m (fill_table t n m)"
  unfolding fill_table_def by (rule keeps_fold, rule keeps_entry(2)) simp

lemma keeps_clear_pdes: "keeps (region t 4096) m (clear_pdes t m)"
  unfolding clear_pdes_def by (rule keeps_fold, rule keeps_entry(4)) simp

lemma confined_ram: "keeps D (ram s) m \<Longrightarrow> confined D s (s\<lparr>ram := m\<rparr>)"
  by (auto simp: confined_def keeps_def)

lemma confined_mproc: "confined D s (set_mproc pid p s)"
  by (simp add: confined_def set_mproc_def)

lemma confined_kernel_dir_step:
  assumes "kernel_dir_step pdir i s = Inr s'" and "i < 4"
  shows "confined (region pdir 4096) s s'"
proof -
  let ?D = "region pdir 4096"
  from assms(1) obtain t u where g: "get_zero_page s = Inr (t, u)"
    and s': "s' = u\<lparr>ram := fill_table t (1024 * i) (make_pde (pdir + 4 * of_nat (i + 768)) t
        (store32 (make_pde (pdir + 4 * of_nat i) t (ram u)) (pdir + 4 * of_nat i)
          (load32 (make_pde (pdir + 4 * of_nat i) t (ram u)) (pdir + 4 * of_nat i) AND NOT 4)))\<rparr>"
    by (auto simp: kernel_dir_step_def bindE_eq_Inr_iff Let_def)
  have "confined (?D \<union> region t 4096) u s'"
    unfolding s'
  proof (intro confined_ram keeps_trans [OF _ keeps_weaken [OF keeps_fill_table]]
      keeps_trans [OF _ keeps_weaken [OF keeps_entry(3)]] keeps_trans [OF _ keeps_weaken [OF keeps_entry(1)]]
      keeps_weaken [OF keeps_entry(3)])
  qed (use assms(2) in auto)
  then show ?thesis by (rule confined_step [OF g])
qed

lemma confined_create_kernel_dir:
  assumes "create_kernel_dir pdir s = Inr s'"
  shows "confined (region pdir 4096) s s'"
proof (rule confined_trans [OF _ _ Un_upper1])
  show "confined (region pdir 4096) s (set_ram (clear_pdes pdir) s)"
    unfolding set_ram_def by (rule confined_ram, rule keeps_clear_pdes)
  show "confined (region pdir 4096) (set_ram (clear_pdes pdir) s) s'"
    using assms unfolding create_kernel_dir_def by (rule confined_fold [rotated]) (auto intro: confined_kernel_dir_step)
qed

lemma create_kernel_dir_mprocs: "create_kernel_dir pdir s = Inr s' \<Longrightarrow> mprocs s' = mprocs s"
proof -
  have g: "get_zero_page s = Inr (a, s') \<Longrightarrow> mprocs s' = mprocs s" for s a s'
    by (auto simp: get_zero_page_def bindE_eq_Inr_iff set_ram_def dest: get_idle_page_less(3))
  have "kernel_dir_step pdir i s = Inr s' \<Longrightarrow> mprocs s' = mprocs s" for i s s'
    by (auto simp: kernel_dir_step_def bindE_eq_Inr_iff Let_def dest: g)
  then have "fold_exec (kernel_dir_step pdir) xs s = Inr s' \<Longrightarrow> mprocs s' = mprocs s" for xs s
    by (induction xs arbitrary: s) (auto simp: bindE_eq_Inr_iff)
  from this [of "[0..<4]" "set_ram (clear_pdes pdir) s"]
  show "create_kernel_dir pdir s = Inr s' \<Longrightarrow> mprocs s' = mprocs s"
    by (simp add: create_kernel_dir_def set_ram_def del: upt_rec_numeral)
qed

lemma confined_copy_page:
  assumes "copy_page pt ct i s = Inr s'" and "i < 1024"
  shows "confined (region ct 4096) s s'"
proof (cases "present (entry_at (ram s) pt (of_nat i))")
  case True
  with assms(1) obtain a t where g: "get_idle_page s = Inr (a, t)"
    and s': "s' = t\<lparr>ram := make_pte (ct + 4 * of_nat i) a
        (store_bytes (ram t) a (load_bytes (ram t) (frame_addr (entry_at (ram s) pt (of_nat i))) 4096))\<rparr>"
    by (auto simp: copy_page_def bindE_eq_Inr_iff Let_def set_ram_def)
  have "confined (region ct 4096 \<union> region a 4096) t s'"
    unfolding s'
  proof (intro confined_ram keeps_trans [OF _ keeps_weaken [OF keeps_entry(2)]] keeps_store)
  qed (use assms(2) in \<open>auto simp: load_bytes_def\<close>)
  then show ?thesis
    using confined_trans [OF confined_get(1) [OF g, of "region ct 4096"]] confined_get(2) [OF g] by auto
qed (use assms(1) in \<open>simp add: copy_page_def Let_def\<close>)

lemma confined_copy_table:
  assumes "copy_table pp cp i s = Inr s'" and "i < 1024"
  shows "confined (region cp 4096) s s'"
proof (cases "present (entry_at (ram s) pp (of_nat i))")
  case True
  with assms(1) obtain ct t where g: "get_zero_page s = Inr (ct, t)"
    and f: "fold_exec (copy_page (frame_addr (entry_at (ram s) pp (of_nat i))) ct) [0..<1024]
              (set_ram (make_pde (cp + 4 * of_nat i) ct) t) = Inr s'"
    by (auto simp: copy_table_def bindE_eq_Inr_iff Let_def simp del: upt_rec_numeral)
  have 1: "confined (region cp 4096 \<union> region ct 4096) t (set_ram (make_pde (cp + 4 * of_nat i) ct) t)"
    by (rule confined_weaken [OF confined_entry(2) [OF assms(2)]]) auto
  have 2: "confined (region ct 4096) (set_ram (make_pde (cp + 4 * of_nat i) ct) t) s'"
    using f by (rule confined_fold [rotated]) (auto intro: confined_copy_page)
  show ?thesis by (rule confined_step [OF g], rule confined_trans [OF 1 2]) auto
qed (use assms(1) in \<open>simp add: copy_table_def Let_def del: upt_rec_numeral\<close>)

lemma confined_handle_child:
  assumes "handle_child f m s = Inr (m', s')"
  shows "confined (region (kpdir (mprocs s (i1 m))) 4096) s s'"
proof -
  let ?d = "\<lambda>s. kpdir (mprocs s (i1 m))"
  let ?c = "\<lambda>s. set_mproc (i1 m) ((mprocs s (i1 m))\<lparr>cr3 := cr3_of (?d s)\<rparr>) s"
  obtain t where t: "create_kernel_dir (?d s) s = Inr t" and c: "copy_process (i0 m) (i1 m) t = Inr s'"
    using assms by (auto simp: handle_child_def in_pool_def bindE_eq_Inr_iff)
  have d: "?d t = ?d s" using create_kernel_dir_mprocs [OF t] by simp
  have "fold_exec (copy_table (kpdir (mprocs t (i0 m))) (?d t)) [4..<768] (?c t) = Inr s'"
    using c by (simp only: copy_process_def Let_def)
  then have 2: "confined (region (?d s) 4096) (?c t) s'"
    unfolding d by (rule confined_fold [rotated]) (rule confined_copy_table, assumption, simp del: upt_rec_numeral)
  have 1: "confined (region (?d s) 4096) s (?c t)"
    by (rule confined_trans [OF confined_create_kernel_dir [OF t] confined_mproc Un_upper1])
  show ?thesis by (rule confined_trans [OF 1 2 Un_upper1])
qed

section \<open>A child that succeeds\<close>

lemma get_zero_page_ok:
  assumes "bitmap_idx s < PAGE_NUM" and "idle_pages s \<noteq> 0"
  obtains a s' where "get_zero_page s = Inr (a, s')" and "bitmap_idx s' < PAGE_NUM"
    and "Suc (idle_pages s') = idle_pages s"
proof -
  from assms(2) have "{i. i < PAGE_NUM \<and> page_bitmap s i = 0} \<noteq> {}" unfolding idle_pages_def by fastforce
  then obtain i where "i < PAGE_NUM" "page_bitmap s i = 0" by auto
  then obtain k where k: "k < PAGE_NUM" "next_idle (\<lambda>i. page_bitmap s i \<noteq> 0) PAGE_NUM (bitmap_idx s) = Some k"
      "page_bitmap s k = 0"
    using next_idle_Some [of "bitmap_idx s" PAGE_NUM i "\<lambda>i. page_bitmap s i \<noteq> 0"] assms(1) by auto
  let ?s = "set_ram (zero_page (page_of k)) (s\<lparr>bitmap_idx := k, page_bitmap := (page_bitmap s)(k := 1)\<rparr>)"
  have "{i. i < PAGE_NUM \<and> page_bitmap s i = 0} = insert k {i. i < PAGE_NUM \<and> page_bitmap ?s i = 0}"
    using k by (auto simp: set_ram_def)
  moreover have "k \<notin> {i. i < PAGE_NUM \<and> page_bitmap ?s i = 0}" by (simp add: set_ram_def)
  ultimately have "idle_pages s = Suc (idle_pages ?s)" unfolding idle_pages_def by simp
  moreover have "get_zero_page s = Inr (page_of k, ?s)"
    using k(2) assms(1) by (simp add: get_zero_page_def get_idle_page_def page_of_def)
  ultimately show thesis using k(1) by (intro that [of "page_of k" ?s]) (auto simp: set_ram_def)
qed

lemma kernel_dir_steps_ok:
  "bitmap_idx s < PAGE_NUM \<Longrightarrow> length is \<le> idle_pages s \<Longrightarrow> \<exists>s'. fold_exec (kernel_dir_step pdir) is s = Inr s'"
proof (induction "is" arbitrary: s)
  case (Cons i "is")
  from Cons.prems obtain a t where g: "get_zero_page s = Inr (a, t)" "bitmap_idx t < PAGE_NUM"
      "Suc (idle_pages t) = idle_pages s"
    by (auto elim: get_zero_page_ok [of s])
  obtain f where "kernel_dir_step pdir i s = Inr (t\<lparr>ram := f\<rparr>)"
    using g(1) by (simp add: kernel_dir_step_def Let_def)
  moreover have "idle_pages (t\<lparr>ram := f\<rparr>) = idle_pages t" by (simp add: idle_pages_def)
  ultimately show ?case using Cons g by simp
qed simp

lemma fold_exec_same: "(\<And>x. x \<in> set xs \<Longrightarrow> f x s = Inr s) \<Longrightarrow> fold_exec f xs s = Inr s"
  by (induction xs) simp_all

text \<open>A process without pages of its own, whose memory is all zero and whose directory is at 1 MB.\<close>

definition empty_mm :: mm where
  "empty_mm = \<lparr>ram = \<lambda>_. 0, page_bitmap = \<lambda>_. 0, bitmap_idx = 0,
     mprocs = \<lambda>i. \<lparr>kpdir = if i = 7 then 0x100000 else 0x200000, heap_top = 0, heap_start = 0, cr3 = 0, entry = 0\<rparr>\<rparr>"

lemma idle_low: "unat x < 0x1000000 \<Longrightarrow> x \<notin> idle_ram s"
proof
  assume x: "unat x < 0x1000000" and "x \<in> idle_ram s"
  then obtain i where i: "i < PAGE_NUM" "unat (x - page_of i) < 4096" by (auto simp: idle_ram_def region_def)
  have p: "unat (page_of i) = 0x1000000 + i * 4096"
    using i(1) unat_small [of "0x1000000 + i * 4096"] by (simp add: page_of_def)
  have "unat (page_of i + (x - page_of i)) = unat (page_of i) + unat (x - page_of i)"
    using i p by (intro unat_add_lem [THEN iffD1]) simp
  then show False using x p by simp
qed

lemma fork_sample:
  "\<exists>m' s'. handle_child f (m\<lparr>i0 := 7, i1 := 8\<rparr>) empty_mm = Inr (m', s')"
proof -
  have "{i. i < PAGE_NUM \<and> page_bitmap empty_mm i = 0} = {..<PAGE_NUM}" by (auto simp: empty_mm_def)
  then have n: "idle_pages empty_mm = PAGE_NUM" by (simp add: idle_pages_def)
  let ?s = "set_ram (clear_pdes 0x200000) empty_mm"
  have "idle_pages ?s = PAGE_NUM" using n by (simp add: idle_pages_def set_ram_def)
  then obtain t where t: "create_kernel_dir 0x200000 empty_mm = Inr t"
    using kernel_dir_steps_ok [of ?s "[0..<4]" "0x200000"]
    by (auto simp: create_kernel_dir_def set_ram_def empty_mm_def)
  have d: "mprocs t = mprocs empty_mm" by (rule create_kernel_dir_mprocs [OF t])
  define u where "u = set_mproc 8 ((mprocs t 8)\<lparr>cr3 := cr3_of (kpdir (mprocs t 8))\<rparr>) t"
  have r: "ram u x = 0" if "unat x < 0x101000" for x
  proof -
    have "unat (x - 0x200000) \<ge> 4096" using that by (simp add: unat_sub_if')
    then have "x \<notin> region 0x200000 4096" by (simp add: region_def)
    then show ?thesis using confined_create_kernel_dir [OF t] idle_low [of x empty_mm] that
      by (simp add: confined_def u_def set_mproc_def empty_mm_def)
  qed
  have e: "copy_table 0x100000 0x200000 i u = Inr u" if "i < 1024" for i
  proof -
    have "unat (0x100000 + 4 * of_nat i + of_nat k :: u32) < 0x101000" if "k < 4" for k
      using unat_small [of "0x100000 + 4 * i + k"] \<open>i < 1024\<close> that by simp
    from this [of 0] this [of 1] this [of 2] this [of 3] have "entry_at (ram u) 0x100000 (of_nat i) = 0"
      by (simp add: entry_at_def load32_def r bytes_u32_def)
    then show ?thesis by (simp add: copy_table_def present_def)
  qed
  have "copy_process 7 8 t = fold_exec (copy_table 0x100000 0x200000) [4..<768] u"
    unfolding copy_process_def Let_def u_def [symmetric] by (simp add: d empty_mm_def del: upt_rec_numeral)
  also have "\<dots> = Inr u" by (rule fold_exec_same) (rule e, simp del: upt_rec_numeral)
  finally show ?thesis using t by (simp add: handle_child_def in_pool_def empty_mm_def POOL_NUM_def)
qed

section \<open>Properties\<close>

text \<open>
  C12. Creating the address space of a child leaves the rest of memory alone: every byte that is
  neither in the page directory of the child nor in a page that was idle keeps its value (so the
  parent, the kernel and all other processes keep theirs), and no page that was in use becomes idle.
\<close>

theorem fork_isolated:
  assumes "handle_child f m s = Inr (m', s')"
  shows "(\<forall>x. x \<notin> region (kpdir (mprocs s (i1 m))) 4096 \<longrightarrow> x \<notin> idle_ram s \<longrightarrow> ram s' x = ram s x) \<and>
    (\<forall>i. page_bitmap s i \<noteq> 0 \<longrightarrow> page_bitmap s' i \<noteq> 0)"
  using confined_handle_child [OF assms] by (simp add: confined_def)

theorem fork_isolated_witness:
  "\<exists>f m m' s'. handle_child f (m\<lparr>i0 := 7, i1 := 8\<rparr>) empty_mm = Inr (m', s') \<and> ram s' 0x100000 = 0"
proof -
  fix f :: fserver and m :: msg
  obtain m' s' where h: "handle_child f (m\<lparr>i0 := 7, i1 := 8\<rparr>) empty_mm = Inr (m', s')" using fork_sample by blast
  have "0x100000 \<notin> region (kpdir (mprocs empty_mm (i1 (m\<lparr>i0 := 7, i1 := 8\<rparr>)))) 4096"
    by (simp add: empty_mm_def region_def)
  moreover have "0x100000 \<notin> idle_ram empty_mm" by (rule idle_low) simp
  ultimately have "ram s' 0x100000 = ram empty_mm 0x100000" using fork_isolated [OF h] by blast
  then have "ram s' 0x100000 = 0" by (simp add: empty_mm_def)
  with h show ?thesis by blast
qed




end
