(* ===== verification/Process.thy ===== *)
theory Process
  imports Paging
begin

text \<open>
  Threads and messages: src/kernel/process (schedule.c, semaphore.c, sleep.c, message.c, util.c).
  The three rings of PCBs are lists of pids: \<open>ready\<close> without its head \<open>idle\<close>, \<open>waiting\<close> and
  \<open>free_pcbs\<close>; adding before a head appends, deleting takes the element out (see Ring_List).
  \<open>intr\<close> is the interrupt flag; a thread that is switched away keeps its flag in its frame.
\<close>

section \<open>State\<close>

abbreviation ANY :: int where "ANY \<equiv> - 1"

text \<open>The pid of \<open>idle\<close>.\<close>

definition IDLE :: int where "IDLE = - 5"

record sem =
  token :: int
  block :: "int list"

record mailbox =
  free_queue :: "nat list"
  msg_queue :: "nat list"
  msg_space :: "nat \<Rightarrow> msg"
  pid_sem :: "nat \<Rightarrow> sem"
  any_sem :: sem

record pcb =
  frame_ptr :: u32
  is_used :: bool
  lock_count :: int
  ppid :: int
  parent_wait :: bool
  user_space :: bool
  pcb_cr3 :: u32
  mb :: mailbox

record kernel =
  pool :: "int \<Rightarrow> pcb"
  ready :: "int list"
  waiting :: "int list"
  free_pcbs :: "int list"
  current :: int
  pre_current :: int
  intr :: bool
  saved_intr :: "int \<Rightarrow> bool"
  esp0 :: u32
  cr3_reg :: u32
  kmem :: ram

text \<open>Addresses the linker chooses, and the kernel's page table.\<close>

record layout =
  kstack :: "int \<Rightarrow> u32"
  wrap_addr :: u32
  kcr3 :: u32

definition upd_pcb :: "int \<Rightarrow> (pcb \<Rightarrow> pcb) \<Rightarrow> kernel \<Rightarrow> kernel" where
  "upd_pcb p f s = s\<lparr>pool := (pool s)(p := f (pool s p))\<rparr>"

definition upd_mb :: "int \<Rightarrow> (mailbox \<Rightarrow> mailbox) \<Rightarrow> kernel \<Rightarrow> kernel" where
  "upd_mb p f = upd_pcb p (\<lambda>c. c\<lparr>mb := f (mb c)\<rparr>)"

section \<open>Rings\<close>

definition next_in :: "'a list \<Rightarrow> 'a \<Rightarrow> 'a option" where
  "next_in xs x = (case dropWhile (\<lambda>y. y \<noteq> x) xs of [] \<Rightarrow> None | [_] \<Rightarrow> Some (hd xs) | _ # y # _ \<Rightarrow> Some y)"

definition prev_in :: "'a list \<Rightarrow> 'a \<Rightarrow> 'a option" where
  "prev_in xs x = next_in (rev xs) x"

fun insert_before :: "'a \<Rightarrow> 'a \<Rightarrow> 'a list \<Rightarrow> 'a list" where
  "insert_before x y [] = [y]"
| "insert_before x y (z # zs) = (if z = x then y # z # zs else z # insert_before x y zs)"

lemma next_in_set: "x \<in> set xs \<Longrightarrow> \<exists>y \<in> set xs. next_in xs x = Some y"
proof -
  assume x: "x \<in> set xs"
  then obtain ys zs where xs: "xs = ys @ x # zs" "x \<notin> set ys" by (meson split_list_first)
  then have "dropWhile (\<lambda>y. y \<noteq> x) xs = x # zs" by (induction ys arbitrary: xs) auto
  with xs show ?thesis by (cases ys; cases zs) (auto simp: next_in_def)
qed

lemma next_in_None: "next_in xs x = None \<longleftrightarrow> x \<notin> set xs"
proof
  assume "x \<notin> set xs"
  then have "dropWhile (\<lambda>y. y \<noteq> x) xs = []" by (auto simp: dropWhile_eq_Nil_conv)
  then show "next_in xs x = None" by (simp only: next_in_def list.case)
qed (use next_in_set in fastforce)

lemma set_insert_before [simp]: "set (insert_before x y zs) = insert y (set zs)"
  by (induction zs) auto

lemma distinct_insert_before: "y \<notin> set zs \<Longrightarrow> distinct zs \<Longrightarrow> distinct (insert_before x y zs)"
  by (induction zs) auto

section \<open>Scheduling, locks\<close>

text \<open>
  \<open>schedule\<close>: the element behind \<open>pre_current\<close>, or the one behind that when it is the head of the
  ring; then the kernel stack and the page directory of the processor.
\<close>

definition schedule :: "layout \<Rightarrow> kernel \<Rightarrow> kernel exec" where
  "schedule l s =
     (case next_in (IDLE # ready s) (pre_current s) of
        None \<Rightarrow> Inl NullPointer
      | Some c \<Rightarrow>
          let c = (if c = IDLE then hd (ready s @ [IDLE]) else c) in
          Inr (s\<lparr>current := c, pre_current := c, esp0 := kstack l c + 4095, cr3_reg := pcb_cr3 (pool s c)\<rparr>))"

text \<open>An interrupt or \<open>int $0x80\<close>: the frame keeps the flag, \<open>iret\<close> restores that of the next thread.\<close>

definition switch :: "layout \<Rightarrow> kernel \<Rightarrow> kernel exec" where
  "switch l s =
     bindE (schedule l (s\<lparr>saved_intr := (saved_intr s)(current s := intr s), intr := False\<rparr>))
       (\<lambda>s. Inr (s\<lparr>intr := saved_intr s (current s)\<rparr>))"

definition lock :: "kernel \<Rightarrow> kernel" where
  "lock s = upd_pcb (current s) (\<lambda>c. c\<lparr>lock_count := lock_count c + 1\<rparr>) (s\<lparr>intr := False\<rparr>)"

text \<open>\<open>unlock\<close> enables interrupts when the count is 0 and the flag it reads is set.\<close>

definition unlock :: "kernel \<Rightarrow> kernel" where
  "unlock s =
     (let s = (if 0 < lock_count (pool s (current s))
               then upd_pcb (current s) (\<lambda>c. c\<lparr>lock_count := lock_count c - 1\<rparr>) s else s) in
      if lock_count (pool s (current s)) = 0 then (if intr s then s\<lparr>intr := True\<rparr> else s) else s)"

text \<open>\<open>sleep\<close> up to the switch, and \<open>wakeup\<close>.\<close>

definition sleep :: "layout \<Rightarrow> kernel \<Rightarrow> kernel exec" where
  "sleep l s =
     (let s = lock s; c = current s in
      case prev_in (IDLE # ready s) c of
        None \<Rightarrow> Inl NullPointer
      | Some p \<Rightarrow>
          guardE NullPointer (c \<noteq> IDLE)
            (switch l (s\<lparr>pre_current := p, ready := remove1 c (ready s), waiting := waiting s @ [c]\<rparr>)))"

definition wakeup :: "int \<Rightarrow> kernel \<Rightarrow> kernel" where
  "wakeup p s =
     (let s = lock s in
      unlock (if p \<in> set (waiting s)
              then s\<lparr>waiting := remove1 p (waiting s), ready := insert_before (current s) p (ready s)\<rparr>
              else s))"

section \<open>Semaphores\<close>

definition create_sem :: "int \<Rightarrow> sem" where
  "create_sem n = \<lparr>token = n, block = []\<rparr>"

text \<open>A semaphore of a mailbox: \<open>any_sem\<close> or \<open>pid_sem[i]\<close>.\<close>

datatype semref = AnySem | PidSem nat

fun sem_at :: "semref \<Rightarrow> mailbox \<Rightarrow> sem" where
  "sem_at AnySem b = any_sem b"
| "sem_at (PidSem i) b = pid_sem b i"

fun set_sem :: "semref \<Rightarrow> sem \<Rightarrow> mailbox \<Rightarrow> mailbox" where
  "set_sem AnySem x b = b\<lparr>any_sem := x\<rparr>"
| "set_sem (PidSem i) x b = b\<lparr>pid_sem := (pid_sem b)(i := x)\<rparr>"

text \<open>\<open>P\<close> on a semaphore of the current thread; \<open>True\<close>: the thread sleeps in it.\<close>

definition sem_P :: "layout \<Rightarrow> semref \<Rightarrow> kernel \<Rightarrow> (bool \<times> kernel) exec" where
  "sem_P l r s =
     (let s = lock s; c = current s; x = sem_at r (mb (pool s c)) in
      if token x - 1 < 0
      then bindE (sleep l (upd_mb c (set_sem r \<lparr>token = token x - 1, block = block x @ [c]\<rparr>) s)) (\<lambda>s. Inr (True, s))
      else Inr (False, unlock (upd_mb c (set_sem r (x\<lparr>token := token x - 1\<rparr>)) s)))"

definition sem_V :: "int \<Rightarrow> semref \<Rightarrow> kernel \<Rightarrow> kernel exec" where
  "sem_V d r s =
     (let s = lock s; x = sem_at r (mb (pool s d)) in
      if token x + 1 \<le> 0
      then assertE (block x \<noteq> [])
             (Inr (unlock (wakeup (hd (block x))
                (upd_mb d (set_sem r \<lparr>token = token x + 1, block = tl (block x)\<rparr>) s))))
      else Inr (unlock (upd_mb d (set_sem r (x\<lparr>token := token x + 1\<rparr>)) s)))"

section \<open>Messages\<close>

definition init_msg :: "(nat \<Rightarrow> msg) \<Rightarrow> mailbox" where
  "init_msg ms = \<lparr>free_queue = [0..<100], msg_queue = [], msg_space = ms, pid_sem = \<lambda>_. create_sem 0,
     any_sem = create_sem 0\<rparr>"

text \<open>The index of the semaphore for a source; \<open>-2\<close>, an interrupt, has the last one.\<close>

definition real_src :: "int \<Rightarrow> int" where
  "real_src x = (if x = - 2 then POOL_NUM else x)"

definition src_ok :: "int \<Rightarrow> bool" where
  "src_ok x \<longleftrightarrow> 0 \<le> real_src x \<and> real_src x \<le> POOL_NUM"

definition src_sem :: "int \<Rightarrow> semref" where
  "src_sem x = PidSem (nat (real_src x))"

text \<open>With an empty free queue the code would take the head of the queue for a message.\<close>

definition enqueue :: "msg \<Rightarrow> mailbox \<Rightarrow> mailbox" where
  "enqueue m b =
     (let slot = hd (free_queue b) in
      b\<lparr>free_queue := tl (free_queue b), msg_space := (msg_space b)(slot := m),
        msg_queue := msg_queue b @ [slot]\<rparr>)"

definition send :: "int \<Rightarrow> msg \<Rightarrow> kernel \<Rightarrow> kernel exec" where
  "send d m s =
     guardE OutOfRange (0 \<le> d \<and> d < POOL_NUM \<and> src_ok (src m))
       (let s = lock s in
        guardE NullPointer (free_queue (mb (pool s d)) \<noteq> [])
          (bindE (sem_V d AnySem (upd_mb d (enqueue (m\<lparr>dest := d\<rparr>)) s)) (\<lambda>s.
           bindE (sem_V d (src_sem (src m)) s) (\<lambda>s. Inr (unlock s)))))"

text \<open>
  The end of a \<open>receive\<close>: the first message of the source, or the last message of all when there is
  none; the message leaves the queue.
\<close>

fun pick :: "(nat \<Rightarrow> msg) \<Rightarrow> int \<Rightarrow> nat list \<Rightarrow> nat option \<Rightarrow> nat option" where
  "pick ms w [] p = p"
| "pick ms w (i # is) p = (if src (ms i) = w then Some i else pick ms w is (Some i))"

datatype received = Got msg | Sleeps1 | Sleeps2

definition take_msg :: "nat \<Rightarrow> kernel \<Rightarrow> (received \<times> kernel) exec" where
  "take_msg slot s =
     (let c = current s; b = mb (pool s c) in
      Inr (Got (msg_space b slot),
           unlock (upd_mb c (\<lambda>b. b\<lparr>msg_queue := remove1 slot (msg_queue b),
                                    free_queue := free_queue b @ [slot]\<rparr>) s)))"

definition receive_rest :: "layout \<Rightarrow> int \<Rightarrow> kernel \<Rightarrow> (received \<times> kernel) exec" where
  "receive_rest l w s =
     (let b = mb (pool s (current s)) in
      if w = ANY then
        guardE NullPointer (msg_queue b \<noteq> [])
          (let slot = hd (msg_queue b) in
           guardE OutOfRange (src_ok (src (msg_space b slot)))
             (bindE (sem_P l (src_sem (src (msg_space b slot))) s) (\<lambda>(sleeps, s).
                if sleeps then Inr (Sleeps2, s) else take_msg slot s)))
      else
        bindE (sem_P l AnySem s) (\<lambda>(sleeps, s).
          if sleeps then Inr (Sleeps2, s)
          else let b = mb (pool s (current s)) in
            (case pick (msg_space b) w (msg_queue b) None of
               None \<Rightarrow> Inl AssertFail
             | Some slot \<Rightarrow> take_msg slot s)))"

definition receive :: "layout \<Rightarrow> int \<Rightarrow> kernel \<Rightarrow> (received \<times> kernel) exec" where
  "receive l w s =
     guardE OutOfRange (w = ANY \<or> src_ok w)
       (bindE (sem_P l (if w = ANY then AnySem else src_sem w) (lock s)) (\<lambda>(sleeps, s).
          if sleeps then Inr (Sleeps1, s) else receive_rest l w s))"

text \<open>A thread that slept in its first \<open>P\<close> goes on: the ends of \<open>sleep\<close> and \<open>P\<close>, then the rest.\<close>

definition resume :: "layout \<Rightarrow> int \<Rightarrow> kernel \<Rightarrow> (received \<times> kernel) exec" where
  "resume l w s = receive_rest l w (unlock (unlock s))"

section \<open>Threads\<close>

definition fetch_pcb :: "int \<Rightarrow> int exec" where
  "fetch_pcb pid = assertE (0 \<le> pid \<and> pid < POOL_NUM) (Inr pid)"

text \<open>\<open>struct TrapFrame\<close> of x86/memory.h: 19 words; the offsets of the fields the kernel sets.\<close>

abbreviation tf_ebp :: u32 where "tf_ebp \<equiv> 8"
abbreviation tf_ebx :: u32 where "tf_ebx \<equiv> 16"
abbreviation tf_eax :: u32 where "tf_eax \<equiv> 28"
abbreviation tf_eip :: u32 where "tf_eip \<equiv> 56"
abbreviation tf_cs :: u32 where "tf_cs \<equiv> 60"
abbreviation tf_eflags :: u32 where "tf_eflags \<equiv> 64"
abbreviation tf_esp :: u32 where "tf_esp \<equiv> 68"
abbreviation tf_ss :: u32 where "tf_ss \<equiv> 72"

definition stores :: "(u32 \<times> u32) list \<Rightarrow> ram \<Rightarrow> ram" where
  "stores ws m = fold (\<lambda>(a, w) m. store32 m a w) ws m"

definition kthread_frame :: "layout \<Rightarrow> int \<Rightarrow> u32 \<Rightarrow> int \<Rightarrow> u32 \<Rightarrow> ram \<Rightarrow> ram" where
  "kthread_frame l p fun_addr argc argv =
     (let t = kstack l p + (4096 - 76 - 16 + 8) in
      stores [(t + tf_ebp, 0), (t + tf_esp, t), (t + tf_eflags, 0x206), (t + tf_cs, 8), (t + tf_eip, wrap_addr l),
              (kstack l p + 4092, argv), (kstack l p + 4088, u32_of argc), (kstack l p + 4084, fun_addr)])"

definition create_kthread_1 :: "layout \<Rightarrow> u32 \<Rightarrow> int \<Rightarrow> u32 \<Rightarrow> kernel \<Rightarrow> (int \<times> kernel) exec" where
  "create_kthread_1 l fun_addr argc argv s =
     (let s = lock s in
      case free_pcbs s of
        [] \<Rightarrow> Inl NullPointer
      | p # ps \<Rightarrow>
          let s = upd_pcb p (\<lambda>c. c\<lparr>is_used := True, lock_count := 0,
                    frame_ptr := kstack l p + (4096 - 76 - 16 + 8), pcb_cr3 := kcr3 l, user_space := False,
                    mb := init_msg (msg_space (mb c))\<rparr>) s in
          Inr (p, unlock (s\<lparr>kmem := kthread_frame l p fun_addr argc argv (kmem s), free_pcbs := ps,
                            waiting := waiting s @ [p], saved_intr := (saved_intr s)(p := True)\<rparr>)))"

definition create_kthread :: "layout \<Rightarrow> u32 \<Rightarrow> kernel \<Rightarrow> (int \<times> kernel) exec" where
  "create_kthread l fun_addr s = create_kthread_1 l fun_addr 0 0 s"

text \<open>The end of \<open>wrap\<close>, when the function of a thread has returned.\<close>

definition wrap_end :: "layout \<Rightarrow> kernel \<Rightarrow> kernel exec" where
  "wrap_end l s =
     (let s = lock s; c = current s in
      case prev_in (IDLE # ready s) c of
        None \<Rightarrow> Inl NullPointer
      | Some p \<Rightarrow>
          switch l (unlock ((upd_pcb c (\<lambda>c. c\<lparr>is_used := False\<rparr>) s)
            \<lparr>ready := remove1 c (ready s), free_pcbs := free_pcbs s @ [c], pre_current := p\<rparr>)))"

text \<open>\<open>init_proc\<close>: all PCBs are free, the running context becomes \<open>idle\<close>.\<close>

definition init_proc :: "layout \<Rightarrow> kernel \<Rightarrow> kernel" where
  "init_proc l s =
     upd_pcb IDLE (\<lambda>c. c\<lparr>pcb_cr3 := kcr3 l\<rparr>)
       (s\<lparr>ready := [], waiting := [], free_pcbs := map int [0..<nat POOL_NUM], current := IDLE, pre_current := IDLE\<rparr>)"

end
