(* ===== verification/Process_Msg.thy ===== *)
theory Process_Msg
  imports Process
begin

text \<open>
  Message passing between threads as a step relation, its invariant, and what it gives: a mailbox is
  a queue from which a thread takes the oldest message of the source it asks for; a thread that has
  such a message is not asleep.
\<close>

section \<open>Steps\<close>

text \<open>
  Where a thread is: outside \<open>receive\<close>, or asleep (or just woken) in its first or second \<open>P\<close>. Between
  these points a thread in the kernel runs with interrupts off.
\<close>

datatype pc = Runs | InFirst int | InSecond

fun pc_after :: "int \<Rightarrow> received \<Rightarrow> pc" where
  "pc_after w (Got m) = Runs"
| "pc_after w Sleeps1 = InFirst w"
| "pc_after w Sleeps2 = InSecond"

text \<open>The sources in use: the pids and \<open>-2\<close> for interrupts.\<close>

definition valid_src :: "int \<Rightarrow> bool" where
  "valid_src x \<longleftrightarrow> x = - 2 \<or> 0 \<le> x \<and> x < POOL_NUM"

text \<open>
  The current thread (or an interrupt handler) sends to a thread that exists; a thread receives or goes on in \<open>receive\<close>;
  threads are switched, created, started (or woken for any other reason) and end.
\<close>

inductive step :: "layout \<Rightarrow> kernel \<times> (int \<Rightarrow> pc) \<Rightarrow> kernel \<times> (int \<Rightarrow> pc) \<Rightarrow> bool" for l where
  step_send: "pcs (current s) = Runs \<Longrightarrow> valid_src (src m) \<Longrightarrow> d \<notin> set (free_pcbs s) \<Longrightarrow>
    send d m s = Inr s' \<Longrightarrow> step l (s, pcs) (s', pcs)"
| step_receive: "pcs (current s) = Runs \<Longrightarrow> current s \<noteq> IDLE \<Longrightarrow> w = ANY \<or> valid_src w \<Longrightarrow>
    receive l w s = Inr (r, s') \<Longrightarrow> step l (s, pcs) (s', pcs(current s := pc_after w r))"
| step_resume: "pcs (current s) = InFirst w \<Longrightarrow>
    resume l w s = Inr (r, s') \<Longrightarrow> step l (s, pcs) (s', pcs(current s := pc_after w r))"
| step_switch: "switch l s = Inr s' \<Longrightarrow> step l (s, pcs) (s', pcs)"
| step_create: "pcs (current s) = Runs \<Longrightarrow> create_kthread_1 l f argc argv s = Inr (p, s') \<Longrightarrow>
    step l (s, pcs) (s', pcs(p := Runs))"
| step_start: "pcs (current s) = Runs \<Longrightarrow> pcs p = Runs \<Longrightarrow> step l (s, pcs) (wakeup p s, pcs)"
| step_end: "pcs (current s) = Runs \<Longrightarrow> current s \<noteq> IDLE \<Longrightarrow> wrap_end l s = Inr s' \<Longrightarrow> step l (s, pcs) (s', pcs)"

inductive reachable :: "layout \<Rightarrow> kernel \<Rightarrow> kernel \<times> (int \<Rightarrow> pc) \<Rightarrow> bool" for l s0 where
  reach_init: "reachable l s0 (init_proc l s0, \<lambda>_. Runs)"
| reach_step: "reachable l s0 x \<Longrightarrow> step l x y \<Longrightarrow> reachable l s0 y"

inductive_cases stepE: "step l (s, pcs) y"

section \<open>What the operations change\<close>

lemma lock_simps [simp]:
  "mb (pool (lock s) x) = mb (pool s x)" "ready (lock s) = ready s" "waiting (lock s) = waiting s"
  "free_pcbs (lock s) = free_pcbs s" "current (lock s) = current s" "pre_current (lock s) = pre_current s"
  by (simp_all add: lock_def upd_pcb_def)

lemma unlock_simps [simp]:
  "mb (pool (unlock s) x) = mb (pool s x)" "ready (unlock s) = ready s" "waiting (unlock s) = waiting s"
  "free_pcbs (unlock s) = free_pcbs s" "current (unlock s) = current s" "pre_current (unlock s) = pre_current s"
  by (simp_all add: unlock_def upd_pcb_def Let_def)

lemma upd_mb_simps [simp]:
  "mb (pool (upd_mb p f s) x) = (if x = p then f (mb (pool s p)) else mb (pool s x))"
  "ready (upd_mb p f s) = ready s" "waiting (upd_mb p f s) = waiting s"
  "free_pcbs (upd_mb p f s) = free_pcbs s" "current (upd_mb p f s) = current s"
  "pre_current (upd_mb p f s) = pre_current s"
  by (simp_all add: upd_mb_def upd_pcb_def)

lemma wakeup_simps [simp]:
  "mb (pool (wakeup p s) x) = mb (pool s x)" "free_pcbs (wakeup p s) = free_pcbs s"
  "current (wakeup p s) = current s" "pre_current (wakeup p s) = pre_current s"
  "waiting (wakeup p s) = remove1 p (waiting s)"
  by (simp_all add: wakeup_def Let_def remove1_idem)

lemma set_ready_wakeup [simp]:
  "set (ready (wakeup p s)) = (if p \<in> set (waiting s) then insert p (set (ready s)) else set (ready s))"
  by (simp add: wakeup_def Let_def)

lemma wakeup_union: "set (ready (wakeup p s)) \<union> set (waiting (wakeup p s)) = set (ready s) \<union> set (waiting s)"
proof -
  have "insert p (set (remove1 p ws)) = insert p (set ws)" for ws by (induction ws) auto
  then have "p \<in> set (waiting s) \<Longrightarrow> insert p (set (remove1 p (waiting s))) = set (waiting s)" by (simp add: insert_absorb)
  then show ?thesis by (cases "p \<in> set (waiting s)") (auto simp: remove1_idem)
qed

lemma sem_at_set [simp]: "sem_at r (set_sem r' x b) = (if r = r' then x else sem_at r b)"
  by (cases r; cases r') auto

lemma set_sem_simps [simp]:
  "free_queue (set_sem r x b) = free_queue b" "msg_queue (set_sem r x b) = msg_queue b"
  "msg_space (set_sem r x b) = msg_space b"
  by (cases r; simp)+

lemma sem_at_other [simp]:
  "sem_at r (b\<lparr>free_queue := fq, msg_queue := q, msg_space := sp\<rparr>) = sem_at r b"
  "sem_at r (b\<lparr>msg_queue := q, free_queue := fq\<rparr>) = sem_at r b"
  by (cases r; simp)+

declare sem_at.simps [simp del] set_sem.simps [simp del]

section \<open>Rings\<close>

definition rings_ok :: "kernel \<Rightarrow> bool" where
  "rings_ok s \<longleftrightarrow> distinct (ready s @ waiting s @ free_pcbs s) \<and>
     set (ready s) \<union> set (waiting s) \<union> set (free_pcbs s) \<subseteq> {0..<POOL_NUM} \<and>
     current s \<in> insert IDLE (set (ready s)) \<and> pre_current s \<in> insert IDLE (set (ready s))"

definition same_rings :: "kernel \<Rightarrow> kernel \<Rightarrow> bool" where
  "same_rings s s' \<longleftrightarrow> ready s' = ready s \<and> waiting s' = waiting s \<and> free_pcbs s' = free_pcbs s \<and>
     current s' = current s \<and> pre_current s' = pre_current s"

lemma IDLE_no_pid [simp]: "IDLE \<notin> {0..<POOL_NUM}"
  by (simp add: IDLE_def)

lemma rings_ok_idle: "rings_ok s \<Longrightarrow> IDLE \<notin> set (ready s) \<and> IDLE \<notin> set (waiting s) \<and> IDLE \<notin> set (free_pcbs s)"
  using IDLE_no_pid unfolding rings_ok_def by blast

lemma rings_ok_same: "same_rings s s' \<Longrightarrow> rings_ok s' = rings_ok s"
  by (simp add: same_rings_def rings_ok_def)

lemma rings_ok_wakeup: "rings_ok s \<Longrightarrow> rings_ok (wakeup p s)"
  by (cases "p \<in> set (waiting s)")
    (auto simp: rings_ok_def wakeup_def Let_def remove1_idem intro!: distinct_insert_before)

lemma schedule_ok:
  assumes "pre_current s \<in> insert IDLE (set (ready s))"
  obtains c where "schedule l s = Inr (s\<lparr>current := c, pre_current := c, esp0 := kstack l c + 4095,
      cr3_reg := pcb_cr3 (pool s c)\<rparr>)" and "c \<in> insert IDLE (set (ready s))"
proof -
  obtain y where y: "y \<in> set (IDLE # ready s)" "next_in (IDLE # ready s) (pre_current s) = Some y"
    using next_in_set [of "pre_current s" "IDLE # ready s"] assms by auto
  let ?c = "if y = IDLE then hd (ready s @ [IDLE]) else y"
  have "?c \<in> insert IDLE (set (ready s))" using y(1) by (cases "ready s") auto
  then show thesis using that [of ?c] y(2) by (simp add: schedule_def Let_def)
qed

lemma switch_ok:
  assumes "pre_current s \<in> insert IDLE (set (ready s))"
  obtains s' c where "switch l s = Inr s'" and "current s' = c" and "pre_current s' = c"
    and "c \<in> insert IDLE (set (ready s))" and "ready s' = ready s" and "waiting s' = waiting s"
    and "free_pcbs s' = free_pcbs s" and "pool s' = pool s"
proof -
  let ?s = "s\<lparr>saved_intr := (saved_intr s)(current s := intr s), intr := False\<rparr>"
  obtain c where c: "schedule l ?s = Inr (?s\<lparr>current := c, pre_current := c, esp0 := kstack l c + 4095,
      cr3_reg := pcb_cr3 (pool ?s c)\<rparr>)" "c \<in> insert IDLE (set (ready ?s))"
    by (rule schedule_ok [of ?s l]) (use assms in auto)
  show thesis
    by (rule that [of "(?s\<lparr>current := c, pre_current := c, esp0 := kstack l c + 4095,
      cr3_reg := pcb_cr3 (pool ?s c)\<rparr>)\<lparr>intr := saved_intr ?s c\<rparr>" c])
      (use c in \<open>auto simp: switch_def\<close>)
qed

lemma next_in_other:
  assumes "distinct xs" and "x \<in> set xs" and "y \<in> set xs" and "x \<noteq> y" and "next_in xs x = Some z"
  shows "z \<noteq> x"
proof -
  obtain as bs where xs: "xs = as @ x # bs" using assms(2) by (meson split_list)
  then have "x \<notin> set as" using assms(1) by auto
  then have "dropWhile (\<lambda>y. y \<noteq> x) xs = x # bs" unfolding xs by (induction as) auto
  then show ?thesis using assms xs by (cases as; cases bs) (auto simp: next_in_def)
qed

text \<open>Taking the current thread out of the ready ring leaves a ring to schedule from.\<close>

lemma prev_ok:
  assumes "rings_ok s" and "current s \<noteq> IDLE"
  obtains p where "prev_in (IDLE # ready s) (current s) = Some p"
    and "p \<in> insert IDLE (set (remove1 (current s) (ready s)))"
proof -
  let ?r = "rev (IDLE # ready s)"
  have d: "distinct ?r" "current s \<in> set ?r" "IDLE \<in> set ?r"
    using assms rings_ok_idle [of s] by (auto simp: rings_ok_def)
  obtain p where p: "p \<in> set ?r" "next_in ?r (current s) = Some p" using next_in_set [OF d(2)] by blast
  have "p \<noteq> current s" by (rule next_in_other [OF d assms(2) p(2)])
  with p show thesis using that [of p] assms(1) by (auto simp: prev_in_def rings_ok_def)
qed

lemma sleep_ok:
  assumes "rings_ok s" and "current s \<noteq> IDLE"
  obtains s' where "sleep l s = Inr s'" and "rings_ok s'" and "waiting s' = waiting s @ [current s]"
    and "ready s' = remove1 (current s) (ready s)" and "\<And>x. mb (pool s' x) = mb (pool s x)"
    and "free_pcbs s' = free_pcbs s"
proof -
  obtain p where p: "prev_in (IDLE # ready s) (current s) = Some p"
    "p \<in> insert IDLE (set (remove1 (current s) (ready s)))" by (rule prev_ok [OF assms])
  let ?s = "(lock s)\<lparr>pre_current := p, ready := remove1 (current s) (ready s), waiting := waiting s @ [current s]\<rparr>"
  have "pre_current ?s \<in> insert IDLE (set (ready ?s))" using p(2) by simp
  then obtain s' c where s': "switch l ?s = Inr s'" "current s' = c" "pre_current s' = c"
    "c \<in> insert IDLE (set (ready ?s))" "ready s' = ready ?s" "waiting s' = waiting ?s"
    "free_pcbs s' = free_pcbs ?s" "pool s' = pool ?s"
    by (rule switch_ok)
  show thesis
  proof (rule that [of s'])
    show "sleep l s = Inr s'" using p(1) s'(1) assms(2) by (simp add: sleep_def Let_def)
    show "rings_ok s'" using assms s' by (auto simp: rings_ok_def)
    show "mb (pool s' x) = mb (pool s x)" for x using s'(8) by simp
  qed (use s' in simp_all)
qed

section \<open>Mailboxes\<close>

text \<open>The messages in a mailbox, oldest first, and those a semaphore counts.\<close>

definition inbox :: "mailbox \<Rightarrow> msg list" where
  "inbox b = map (msg_space b) (msg_queue b)"

fun count_for :: "semref \<Rightarrow> msg list \<Rightarrow> nat" where
  "count_for AnySem ms = length ms"
| "count_for (PidSem i) ms = length (filter (\<lambda>m. real_src (src m) = int i) ms)"

fun first_ref :: "int \<Rightarrow> semref" where
  "first_ref w = (if w = ANY then AnySem else src_sem w)"

text \<open>
  What a semaphore holds when \<open>n\<close> messages count for it: one less when the owner \<open>p\<close> has done its
  first \<open>P\<close> on it, and \<open>p\<close> itself when there was none.
\<close>

definition sem_want :: "int \<Rightarrow> nat \<Rightarrow> bool \<Rightarrow> sem" where
  "sem_want p n claimed =
     (if claimed then if n = 0 then \<lparr>token = - 1, block = [p]\<rparr> else \<lparr>token = int n - 1, block = []\<rparr>
      else \<lparr>token = int n, block = []\<rparr>)"

definition sems_ok :: "int \<Rightarrow> mailbox \<Rightarrow> semref option \<Rightarrow> bool" where
  "sems_ok p b claim \<longleftrightarrow> (\<forall>r. sem_at r b = sem_want p (count_for r (inbox b)) (claim = Some r))"

fun claim_of :: "pc \<Rightarrow> semref option" where
  "claim_of Runs = None"
| "claim_of (InFirst w) = Some (first_ref w)"
| "claim_of InSecond = None"

fun pc_ok :: "pc \<Rightarrow> bool" where
  "pc_ok Runs = True"
| "pc_ok (InFirst w) = (w = ANY \<or> valid_src w)"
| "pc_ok InSecond = False"

definition box_ok :: "int \<Rightarrow> mailbox \<Rightarrow> pc \<Rightarrow> bool" where
  "box_ok p b c \<longleftrightarrow> distinct (free_queue b @ msg_queue b) \<and> (\<forall>m \<in> set (inbox b). valid_src (src m)) \<and>
     pc_ok c \<and> sems_ok p b (claim_of c)"

definition asleep :: "mailbox \<Rightarrow> pc \<Rightarrow> bool" where
  "asleep b c \<longleftrightarrow> (\<exists>r. claim_of c = Some r \<and> count_for r (inbox b) = 0)"

definition matches :: "int \<Rightarrow> msg \<Rightarrow> bool" where
  "matches w m \<longleftrightarrow> w = ANY \<or> src m = w"

lemma inbox_set_sem [simp]: "inbox (set_sem r x b) = inbox b"
  by (simp add: inbox_def)

lemma real_src_eq: "valid_src x \<Longrightarrow> valid_src y \<Longrightarrow> real_src x = real_src y \<longleftrightarrow> x = y"
  by (auto simp: valid_src_def real_src_def POOL_NUM_def split: if_splits)

lemma real_src_nat: "valid_src x \<Longrightarrow> int (nat (real_src x)) = real_src x"
  by (auto simp: valid_src_def real_src_def POOL_NUM_def)

lemma src_ok_valid: "valid_src x \<Longrightarrow> src_ok x"
  by (auto simp: valid_src_def src_ok_def real_src_def POOL_NUM_def)

lemma count_src:
  "valid_src w \<Longrightarrow> \<forall>m \<in> set ms. valid_src (src m) \<Longrightarrow> count_for (src_sem w) ms = length (filter (\<lambda>m. src m = w) ms)"
  unfolding src_sem_def count_for.simps real_src_nat
  by (intro arg_cong [where f = length] filter_cong) (auto simp: real_src_eq)

lemma count_first:
  "pc_ok (InFirst w) \<Longrightarrow> \<forall>m \<in> set ms. valid_src (src m) \<Longrightarrow>
     count_for (first_ref w) ms = 0 \<longleftrightarrow> find (matches w) ms = None"
proof (cases "w = ANY")
  case True
  then show ?thesis by (cases ms) (auto simp: matches_def)
next
  case False
  moreover assume "pc_ok (InFirst w)" and "\<forall>m \<in> set ms. valid_src (src m)"
  ultimately show ?thesis by (auto simp: count_src find_None_iff matches_def filter_empty_conv)
qed

lemma count_snoc:
  "valid_src (src m) \<Longrightarrow> count_for r (ms @ [m]) =
     (if r = AnySem \<or> r = src_sem (src m) then Suc (count_for r ms) else count_for r ms)"
  using real_src_nat [of "src m"] by (cases r) (auto simp: src_sem_def)

lemma count_mid:
  "valid_src (src m) \<Longrightarrow> count_for r (xs @ m # ys) =
     (if r = AnySem \<or> r = src_sem (src m) then Suc (count_for r (xs @ ys)) else count_for r (xs @ ys))"
  using real_src_nat [of "src m"] by (cases r) (auto simp: src_sem_def)

subsection \<open>Sending\<close>

definition raised :: "sem \<Rightarrow> sem" where
  "raised x = \<lparr>token = token x + 1, block = if token x + 1 \<le> 0 then tl (block x) else block x\<rparr>"

lemma raised_want [simp]: "raised (sem_want p n c) = sem_want p (Suc n) c"
  by (simp add: raised_def sem_want_def)

lemma sem_V_ok:
  assumes "sem_at r (mb (pool s d)) = sem_want d n c"
  obtains s' where "sem_V d r s = Inr s'" and "rings_ok s \<Longrightarrow> rings_ok s'" and "current s' = current s"
    and "pre_current s' = pre_current s" and "set (ready s') \<union> set (waiting s') = set (ready s) \<union> set (waiting s)"
    and "free_pcbs s' = free_pcbs s"
    and "waiting s' = (if c \<and> n = 0 then remove1 d (waiting s) else waiting s)"
    and "\<And>x. mb (pool s' x) = (if x = d then set_sem r (sem_want d (Suc n) c) (mb (pool s d)) else mb (pool s x))"
proof (cases "c \<and> n = 0")
  case True
  let ?u = "upd_mb d (set_sem r \<lparr>token = 0, block = []\<rparr>) (lock s)"
  have r: "rings_ok (unlock (wakeup d ?u)) = rings_ok (wakeup d ?u)" by (rule rings_ok_same) (simp add: same_rings_def)
  have "rings_ok ?u = rings_ok s" by (rule rings_ok_same) (simp add: same_rings_def)
  with rings_ok_wakeup [of ?u d] r have "rings_ok s \<Longrightarrow> rings_ok (unlock (wakeup d ?u))" by simp
  moreover have "sem_V d r s = Inr (unlock (wakeup d ?u))"
    using assms True by (simp add: sem_V_def sem_want_def Let_def)
  moreover have "set (ready (wakeup d ?u)) \<union> set (waiting (wakeup d ?u)) = set (ready s) \<union> set (waiting s)"
    by (rule wakeup_union [THEN trans]) simp
  ultimately show thesis using that [of "unlock (wakeup d ?u)"] True by (simp add: sem_want_def)
next
  case False
  let ?u = "upd_mb d (set_sem r (sem_want d (Suc n) c)) (lock s)"
  have r: "rings_ok (unlock ?u) = rings_ok s" by (rule rings_ok_same) (simp add: same_rings_def)
  moreover have "sem_V d r s = Inr (unlock ?u)"
    using assms False by (auto simp: sem_V_def sem_want_def Let_def add.commute)
  ultimately show thesis using that [of "unlock ?u"] False by simp
qed

lemma inbox_enqueue:
  "distinct (free_queue b @ msg_queue b) \<Longrightarrow> free_queue b \<noteq> [] \<Longrightarrow> inbox (enqueue m b) = inbox b @ [m]"
  by (cases "free_queue b") (auto simp: inbox_def enqueue_def Let_def)

lemma sem_at_enqueue [simp]: "sem_at r (enqueue m b) = sem_at r b"
  by (cases r) (simp_all add: enqueue_def Let_def sem_at.simps)

lemma send_ok:
  assumes ok: "box_ok d (mb (pool s d)) c" and v: "valid_src (src m)" and d: "0 \<le> d" "d < POOL_NUM"
    and f: "free_queue (mb (pool s d)) \<noteq> []"
  obtains s' where "send d m s = Inr s'"
    and "box_ok d (mb (pool s' d)) c" and "inbox (mb (pool s' d)) = inbox (mb (pool s d)) @ [m\<lparr>dest := d\<rparr>]"
    and "\<And>x. x \<noteq> d \<Longrightarrow> mb (pool s' x) = mb (pool s x)" and "rings_ok s \<Longrightarrow> rings_ok s'"
    and "current s' = current s" and "free_pcbs s' = free_pcbs s" and "set (waiting s') - {d} = set (waiting s) - {d}"
    and "distinct (waiting s) \<Longrightarrow> claim_of c \<noteq> None \<Longrightarrow>
      (asleep (mb (pool s d)) c \<longleftrightarrow> d \<in> set (waiting s)) \<Longrightarrow>
      asleep (mb (pool s' d)) c \<longleftrightarrow> d \<in> set (waiting s')"
    and "pre_current s' = pre_current s" and "set (ready s') \<union> set (waiting s') = set (ready s) \<union> set (waiting s)"
proof -
  define m' where "m' = m\<lparr>dest := d\<rparr>"
  define b where "b = mb (pool s d)"
  define n where "n = count_for AnySem (inbox b)"
  define k where "k = count_for (src_sem (src m)) (inbox b)"
  let ?u = "upd_mb d (enqueue m') (lock s)"
  let ?a = "claim_of c = Some AnySem" and ?p = "claim_of c = Some (src_sem (src m))"
  have v': "valid_src (src m')" and src: "src m' = src m" using v by (simp_all add: m'_def)
  have ne [simp]: "src_sem (src m) \<noteq> AnySem" by (simp add: src_sem_def)
  have f: "free_queue b \<noteq> []" using f by (simp add: b_def)
  have sems: "sem_at r b = sem_want d (count_for r (inbox b)) (claim_of c = Some r)" for r
    using ok by (simp add: box_ok_def sems_ok_def b_def)
  have "sem_at AnySem (mb (pool ?u d)) = sem_want d n ?a"
    using sems [of AnySem] by (simp add: b_def n_def)
  then obtain s1 where s1: "sem_V d AnySem ?u = Inr s1" "rings_ok ?u \<Longrightarrow> rings_ok s1" "current s1 = current s"
    "free_pcbs s1 = free_pcbs s" "waiting s1 = (if ?a \<and> n = 0 then remove1 d (waiting s) else waiting s)"
    "\<And>x. mb (pool s1 x) = (if x = d then set_sem AnySem (sem_want d (Suc n) ?a) (enqueue m' b) else mb (pool s x))"
    "pre_current s1 = pre_current s" "set (ready s1) \<union> set (waiting s1) = set (ready s) \<union> set (waiting s)"
    by (rule sem_V_ok) (auto simp: b_def cong: if_cong)
  have "sem_at (src_sem (src m)) (mb (pool s1 d)) = sem_want d k ?p"
    using sems [of "src_sem (src m)"] by (simp add: s1(6) k_def)
  then obtain s2 where s2: "sem_V d (src_sem (src m)) s1 = Inr s2" "rings_ok s1 \<Longrightarrow> rings_ok s2"
    "current s2 = current s1" "free_pcbs s2 = free_pcbs s1"
    "waiting s2 = (if ?p \<and> k = 0 then remove1 d (waiting s1) else waiting s1)"
    "\<And>x. mb (pool s2 x) = (if x = d then set_sem (src_sem (src m)) (sem_want d (Suc k) ?p) (mb (pool s1 d))
        else mb (pool s1 x))"
    "pre_current s2 = pre_current s1" "set (ready s2) \<union> set (waiting s2) = set (ready s1) \<union> set (waiting s1)"
    by (rule sem_V_ok) auto
  define s' where s'_eq: "s' = unlock s2"
  have send: "send d m s = Inr s'"
    using d f s1(1) s2(1) src_ok_valid [OF v] by (simp add: send_def guardE_def Let_def s'_eq b_def m'_def)
  let ?b = "set_sem (src_sem (src m)) (sem_want d (Suc k) ?p) (set_sem AnySem (sem_want d (Suc n) ?a) (enqueue m' b))"
  have b': "mb (pool s' d) = ?b" by (simp add: s'_eq s2(6) s1(6))
  have dist: "distinct (free_queue b @ msg_queue b)" using ok by (simp add: box_ok_def b_def)
  have ib: "inbox ?b = inbox b @ [m']" using inbox_enqueue [OF dist f] by simp
  have fq: "distinct (free_queue ?b @ msg_queue ?b)"
    using dist f by (cases "free_queue b") (auto simp: enqueue_def Let_def)
  have cnt: "count_for r (inbox ?b) = (if r = AnySem \<or> r = src_sem (src m) then Suc (count_for r (inbox b))
      else count_for r (inbox b))" for r
    unfolding ib using count_snoc [OF v', of r "inbox b"] by (simp add: src)
  have vs: "\<forall>m \<in> set (inbox ?b). valid_src (src m)" unfolding ib using ok v' by (auto simp: box_ok_def b_def)
  have "sems_ok d ?b (claim_of c)"
    unfolding sems_ok_def cnt using sems by (auto simp: n_def k_def)
  then have box: "box_ok d (mb (pool s' d)) c"
    unfolding b' using ok fq vs by (simp add: box_ok_def)
  have "rings_ok ?u = rings_ok s" "rings_ok s' = rings_ok s2"
    unfolding s'_eq by (rule rings_ok_same, simp add: same_rings_def)+
  then have rings: "rings_ok s \<Longrightarrow> rings_ok s'" using s1(2) s2(2) by simp
  have "set (remove1 d ws) - {d} = set ws - {d}" for ws by (induction ws) auto
  then have wait: "set (waiting s') - {d} = set (waiting s) - {d}" by (simp add: s'_eq s2(5) s1(5))
  have sleeps: "asleep (mb (pool s' d)) c \<longleftrightarrow> d \<in> set (waiting s')"
    if ds: "distinct (waiting s)" and cl: "claim_of c \<noteq> None" and w: "asleep (mb (pool s d)) c \<longleftrightarrow> d \<in> set (waiting s)"
  proof -
    obtain r where r: "claim_of c = Some r" using cl by auto
    have old: "d \<in> set (waiting s) \<longleftrightarrow> count_for r (inbox b) = 0" using w r by (simp add: asleep_def b_def)
    have new: "asleep (mb (pool s' d)) c \<longleftrightarrow> count_for r (inbox ?b) = 0" unfolding b' using r by (simp add: asleep_def)
    show ?thesis unfolding new cnt using r ds old by (auto simp: s'_eq s2(5) s1(5) n_def k_def)
  qed
  show thesis
  proof (rule that [OF send box _ _ rings _ _ wait sleeps])
    show "inbox (mb (pool s' d)) = inbox (mb (pool s d)) @ [m\<lparr>dest := d\<rparr>]"
      unfolding b' ib by (simp add: b_def m'_def)
    show "x \<noteq> d \<Longrightarrow> mb (pool s' x) = mb (pool s x)" for x by (simp add: s'_eq s2(6) s1(6))
    show "set (ready s') \<union> set (waiting s') = set (ready s) \<union> set (waiting s)"
      using s1(8) s2(8) by (simp add: s'_eq)
  qed (simp_all add: s'_eq s2 s1)
qed

subsection \<open>Receiving\<close>

lemma sem_P_pos:
  assumes "sem_at r (mb (pool s (current s))) = sem_want p (Suc n) False"
  obtains s' where "sem_P l r s = Inr (False, s')" and "same_rings s s'"
    and "\<And>x. mb (pool s' x) = (if x = current s then set_sem r (sem_want p n False) (mb (pool s (current s)))
      else mb (pool s x))"
proof -
  let ?u = "unlock (upd_mb (current s) (set_sem r (sem_want p n False)) (lock s))"
  show thesis
    by (rule that [of ?u]) (use assms in \<open>auto simp: sem_P_def Let_def sem_want_def same_rings_def\<close>)
qed

lemma sem_P_zero:
  assumes "sem_at r (mb (pool s (current s))) = sem_want p 0 False" and "rings_ok s" and "current s \<noteq> IDLE"
  obtains s' where "sem_P l r s = Inr (True, s')" and "rings_ok s'" and "waiting s' = waiting s @ [current s]"
    and "free_pcbs s' = free_pcbs s" and "ready s' = remove1 (current s) (ready s)"
    and "\<And>x. mb (pool s' x) = (if x = current s then set_sem r (sem_want (current s) 0 True) (mb (pool s (current s)))
      else mb (pool s x))"
proof -
  let ?u = "upd_mb (current s) (set_sem r \<lparr>token = - 1, block = [current s]\<rparr>) (lock s)"
  have "rings_ok ?u = rings_ok s" by (rule rings_ok_same) (simp add: same_rings_def)
  then have "rings_ok ?u" "current ?u \<noteq> IDLE" using assms by simp_all
  then obtain s' where s': "sleep l ?u = Inr s'" "rings_ok s'" "waiting s' = waiting ?u @ [current ?u]"
    "\<And>x. mb (pool s' x) = mb (pool ?u x)" "free_pcbs s' = free_pcbs ?u" "ready s' = remove1 (current ?u) (ready ?u)"
    by (rule sleep_ok) blast
  show thesis
    by (rule that [of s']) (use s' assms in \<open>auto simp: sem_P_def Let_def sem_want_def\<close>)
qed

text \<open>A mailbox without one of its messages.\<close>

lemma box_take:
  assumes ok: "box_ok p b (InFirst w)" and q: "msg_queue b = as @ slot # bs"
    and sems: "\<And>r. sem_at r b' = sem_want p (count_for r (map (msg_space b) (as @ bs))) False"
    and b': "free_queue b' = free_queue b @ [slot]" "msg_queue b' = as @ bs" "msg_space b' = msg_space b"
  shows "box_ok p b' Runs" and "inbox b' = map (msg_space b) (as @ bs)"
proof -
  show i: "inbox b' = map (msg_space b) (as @ bs)" by (simp add: inbox_def b')
  show "box_ok p b' Runs"
    using ok unfolding box_ok_def sems_ok_def i sems by (auto simp: b' q inbox_def)
qed

lemma pick_first:
  "src (ms i) = w \<Longrightarrow> \<forall>k \<in> set as. src (ms k) \<noteq> w \<Longrightarrow> pick ms w (as @ i # bs) p = Some i"
  by (induction as arbitrary: p) auto

lemma find_first: "P x \<Longrightarrow> \<forall>y \<in> set xs. \<not> P y \<Longrightarrow> find P (xs @ x # ys) = Some x"
  by (induction xs) auto

lemma receive_rest_ok:
  assumes ok: "box_ok c (mb (pool s c)) (InFirst w)" and c: "c = current s"
    and n: "find (matches w) (inbox (mb (pool s c))) = Some m"
  obtains s' ms ns where "receive_rest l w s = Inr (Got m, s')" and "same_rings s s'" and "box_ok c (mb (pool s' c)) Runs"
    and "\<And>x. x \<noteq> c \<Longrightarrow> mb (pool s' x) = mb (pool s x)"
    and "inbox (mb (pool s c)) = ms @ m # ns" and "inbox (mb (pool s' c)) = ms @ ns" and "\<forall>m \<in> set ms. \<not> matches w m"
proof -
  define b where "b = mb (pool s c)"
  have "m \<in> set (inbox b)" "matches w m" using n by (auto simp: find_Some_iff b_def)
  then have "find (matches w \<circ> msg_space b) (msg_queue b) \<noteq> None"
    unfolding find_None_iff by (auto simp: inbox_def)
  then obtain as slot bs where q: "msg_queue b = as @ slot # bs" and hit: "matches w (msg_space b slot)"
    and miss: "\<forall>k \<in> set as. \<not> matches w (msg_space b k)"
    unfolding find_None_iff using split_list_first_prop [of "msg_queue b" "matches w \<circ> msg_space b"] by fastforce
  have m: "m = msg_space b slot"
    using n find_first [of "matches w" "msg_space b slot" "map (msg_space b) as" "map (msg_space b) bs"] hit miss
    by (auto simp: inbox_def q simp flip: b_def)
  have dist: "distinct (free_queue b @ msg_queue b)" and src: "valid_src (src m)" and w: "w = ANY \<or> valid_src w"
    and sems: "sem_at r b = sem_want c (count_for r (inbox b)) (Some (first_ref w) = Some r)" for r
    using ok q by (auto simp: box_ok_def sems_ok_def inbox_def m simp flip: b_def)
  let ?k = "\<lambda>r. count_for r (map (msg_space b) (as @ bs))"
  have cnt: "count_for r (inbox b) = (if r = AnySem \<or> r = src_sem (src m) then Suc (?k r) else ?k r)" for r
    using count_mid [OF src, of r "map (msg_space b) as" "map (msg_space b) bs"] by (simp add: inbox_def q m)
  let ?r2 = "if w = ANY then src_sem (src m) else AnySem"
  have "?r2 \<noteq> first_ref w" and r12: "{?r2, first_ref w} = {AnySem, src_sem (src m)}"
    using hit by (auto simp: src_sem_def matches_def m)
  then have "sem_at ?r2 (mb (pool s (current s))) = sem_want c (Suc (?k ?r2)) False"
    using sems [of ?r2] cnt [of ?r2] by (auto simp: c b_def)
  then obtain s1 where s1: "sem_P l ?r2 s = Inr (False, s1)" "same_rings s s1"
    "\<And>x. mb (pool s1 x) = (if x = c then set_sem ?r2 (sem_want c (?k ?r2) False) b else mb (pool s x))"
    by (rule sem_P_pos [where l = l]) (auto simp: c b_def)
  have r1: "remove1 slot (msg_queue b) = as @ bs" using dist by (simp add: q remove1_append)
  have t: "take_msg slot s1 = Inr (Got m, unlock (upd_mb c (\<lambda>b. b\<lparr>msg_queue := remove1 slot (msg_queue b),
      free_queue := free_queue b @ [slot]\<rparr>) s1))" (is "_ = Inr (Got m, ?s)")
    using s1(2) by (simp add: take_msg_def s1(3) Let_def m same_rings_def c)
  have rest: "receive_rest l w s = Inr (Got m, ?s)"
  proof (cases "w = ANY")
    case True
    with miss have "as = []" by (cases as) (auto simp: matches_def)
    with True t s1(1) src_ok_valid [OF src] q m show ?thesis
      by (simp add: receive_rest_def guardE_def Let_def c b_def)
  next
    case False
    then have "pick (msg_space b) w (msg_queue b) None = Some slot"
      using hit miss unfolding q by (intro pick_first) (auto simp: matches_def)
    with False t s1 show ?thesis by (simp add: receive_rest_def Let_def c same_rings_def)
  qed
  have box: "mb (pool ?s c) = (set_sem ?r2 (sem_want c (?k ?r2) False) b)\<lparr>msg_queue := as @ bs, free_queue := free_queue b @ [slot]\<rparr>"
    by (simp add: s1(3) r1)
  have "sem_at r (mb (pool ?s c)) = sem_want c (?k r) False" for r
  proof (cases "w = ANY")
    case True
    then show ?thesis unfolding box by (auto simp: sems cnt sem_want_def src_sem_def)
  next
    case False
    then have "src_sem w = src_sem (src m)" using hit by (simp add: matches_def m)
    with False show ?thesis unfolding box by (auto simp: sems cnt sem_want_def src_sem_def)
  qed
  note * = box_take [OF ok [folded b_def] q this]
  show thesis
  proof (rule that [OF rest])
    show "same_rings s ?s" using s1(2) by (simp add: same_rings_def)
    show "box_ok c (mb (pool ?s c)) Runs" by (rule *(1)) (simp_all add: s1(3) r1)
    show "inbox (mb (pool s c)) = map (msg_space b) as @ m # map (msg_space b) bs"
      by (simp add: inbox_def q m flip: b_def)
    show "inbox (mb (pool ?s c)) = map (msg_space b) as @ map (msg_space b) bs"
      by (subst *(2)) (simp_all add: s1(3) r1)
    show "mb (pool ?s x) = mb (pool s x)" if "x \<noteq> c" for x using that by (simp add: s1(3))
    show "\<forall>m \<in> set (map (msg_space b) as). \<not> matches w m" using miss by auto
  qed
qed

section \<open>The invariant\<close>

definition msg_inv :: "kernel \<times> (int \<Rightarrow> pc) \<Rightarrow> bool" where
  "msg_inv = (\<lambda>(s, pcs). rings_ok s \<and> pcs IDLE = Runs \<and>
     (\<forall>p \<in> {0..<POOL_NUM} - set (free_pcbs s). box_ok p (mb (pool s p)) (pcs p) \<and>
        (claim_of (pcs p) \<noteq> None \<longrightarrow> (asleep (mb (pool s p)) (pcs p) \<longleftrightarrow> p \<in> set (waiting s)))))"

lemma msg_inv_at:
  assumes "msg_inv (s, pcs)" and "p \<in> {0..<POOL_NUM}" and "p \<notin> set (free_pcbs s)"
  shows "box_ok p (mb (pool s p)) (pcs p)"
    and "claim_of (pcs p) \<noteq> None \<Longrightarrow> asleep (mb (pool s p)) (pcs p) \<longleftrightarrow> p \<in> set (waiting s)"
  using assms unfolding msg_inv_def by blast+

lemma msg_invD:
  assumes "msg_inv (s, pcs)" and "current s \<noteq> IDLE"
  shows "box_ok (current s) (mb (pool s (current s))) (pcs (current s))"
    and "\<not> asleep (mb (pool s (current s))) (pcs (current s))"
    and "current s \<in> {0..<POOL_NUM} - set (free_pcbs s)"
proof -
  have r: "current s \<in> set (ready s)" "rings_ok s" using assms by (auto simp: msg_inv_def rings_ok_def)
  then show c: "current s \<in> {0..<POOL_NUM} - set (free_pcbs s)" by (auto simp: rings_ok_def)
  have "current s \<notin> set (waiting s)" using r by (auto simp: rings_ok_def)
  then show "box_ok (current s) (mb (pool s (current s))) (pcs (current s))"
    "\<not> asleep (mb (pool s (current s))) (pcs (current s))"
    using assms(1) c by (auto simp: msg_inv_def asleep_def)
qed

text \<open>A step that only changes the mailbox and the point of the current thread.\<close>

lemma msg_inv_current:
  assumes "msg_inv (s, pcs)" and "current s \<noteq> IDLE" and "rings_ok s'" and "free_pcbs s' = free_pcbs s"
    and "set (waiting s') - {current s} = set (waiting s) - {current s}" and "\<And>x. x \<noteq> current s \<Longrightarrow> mb (pool s' x) = mb (pool s x)"
    and "box_ok (current s) (mb (pool s' (current s))) c"
    and "claim_of c \<noteq> None \<Longrightarrow> asleep (mb (pool s' (current s))) c \<longleftrightarrow> current s \<in> set (waiting s')"
  shows "msg_inv (s', pcs(current s := c))"
proof -
  have "x \<in> set (waiting s') \<longleftrightarrow> x \<in> set (waiting s)" if "x \<noteq> current s" for x using assms(5) that by blast
  with assms show ?thesis unfolding msg_inv_def by auto
qed

lemma find_Some_first:
  "xs = ms @ m # ns \<Longrightarrow> \<forall>x \<in> set ms. \<not> P x \<Longrightarrow> P m \<Longrightarrow> find P xs = Some m"
  using find_first by metis

text \<open>What a thread that may go on in \<open>receive\<close> gets.\<close>

lemma resume_ok:
  assumes inv: "msg_inv (s, pcs)" and pc: "pcs (current s) = InFirst w"
  obtains s' m ms ns where "resume l w s = Inr (Got m, s')" and "msg_inv (s', pcs(current s := Runs))"
    and "inbox (mb (pool s (current s))) = ms @ m # ns" and "inbox (mb (pool s' (current s))) = ms @ ns"
    and "matches w m" and "\<forall>x \<in> set ms. \<not> matches w x"
proof -
  let ?c = "current s" and ?t = "unlock (unlock s)"
  have c: "?c \<noteq> IDLE" using inv pc by (auto simp: msg_inv_def)
  note box = msg_invD(1) [OF inv c, unfolded pc] and awake = msg_invD(2) [OF inv c, unfolded pc]
  have "count_for (first_ref w) (inbox (mb (pool s ?c))) \<noteq> 0" using awake by (simp add: asleep_def)
  moreover have "pc_ok (InFirst w)" "\<forall>m \<in> set (inbox (mb (pool s ?c))). valid_src (src m)"
    using box by (simp_all add: box_ok_def)
  ultimately have "find (matches w) (inbox (mb (pool s ?c))) \<noteq> None"
    using count_first [of w "inbox (mb (pool s ?c))"]
    by (simp del: pc_ok.simps first_ref.simps not_None_eq)
  then obtain m where m: "find (matches w) (inbox (mb (pool s ?c))) = Some m" by (rule not_None_eq [THEN iffD1, THEN exE])
  have "box_ok ?c (mb (pool ?t ?c)) (InFirst w)" "?c = current ?t" "find (matches w) (inbox (mb (pool ?t ?c))) = Some m"
    using box m by simp_all
  then obtain s' ms ns where s': "receive_rest l w ?t = Inr (Got m, s')" "same_rings ?t s'"
    "box_ok ?c (mb (pool s' ?c)) Runs" "\<And>x. x \<noteq> ?c \<Longrightarrow> mb (pool s' x) = mb (pool ?t x)"
    "inbox (mb (pool ?t ?c)) = ms @ m # ns" "inbox (mb (pool s' ?c)) = ms @ ns" "\<forall>m \<in> set ms. \<not> matches w m"
    by (rule receive_rest_ok [where l = l]) blast
  have "same_rings s s'" using s'(2) by (simp add: same_rings_def)
  then have "msg_inv (s', pcs(?c := Runs))"
    using inv rings_ok_same [of s s'] s'
    by (intro msg_inv_current [OF inv c]) (auto simp: same_rings_def msg_inv_def asleep_def)
  moreover have "matches w m" using m by (auto simp: find_Some_iff)
  ultimately show thesis using that [of m s' ms ns] s' by (simp add: resume_def)
qed

text \<open>A thread that asks for a message: the oldest one that matches, or it goes to sleep.\<close>

lemma receive_ok:
  assumes inv: "msg_inv (s, pcs)" and pc: "pcs (current s) = Runs" and c: "current s \<noteq> IDLE"
    and w: "w = ANY \<or> valid_src w"
  shows "case find (matches w) (inbox (mb (pool s (current s)))) of
      None \<Rightarrow> \<exists>s'. receive l w s = Inr (Sleeps1, s') \<and> msg_inv (s', pcs(current s := InFirst w)) \<and>
        waiting s' = waiting s @ [current s] \<and> ready s' = remove1 (current s) (ready s) \<and>
        free_pcbs s' = free_pcbs s \<and> (\<forall>x. inbox (mb (pool s' x)) = inbox (mb (pool s x)) \<and>
          free_queue (mb (pool s' x)) = free_queue (mb (pool s x)))
    | Some m \<Rightarrow> \<exists>s' ms ns. receive l w s = Inr (Got m, s') \<and> msg_inv (s', pcs) \<and>
        inbox (mb (pool s (current s))) = ms @ m # ns \<and> inbox (mb (pool s' (current s))) = ms @ ns \<and>
        (\<forall>x \<in> set ms. \<not> matches w x)"
proof -
  let ?c = "current s" and ?r = "first_ref w"
  define b where "b = mb (pool s ?c)"
  note box = msg_invD(1) [OF inv c, unfolded pc, folded b_def]
  have sems: "sem_at r b = sem_want ?c (count_for r (inbox b)) False" for r
    using box by (simp add: box_ok_def sems_ok_def)
  have vs: "\<forall>m \<in> set (inbox b). valid_src (src m)" using box by (simp add: box_ok_def)
  have rings: "rings_ok (lock s) = rings_ok s" by (rule rings_ok_same) (simp add: same_rings_def)
  have g: "w = ANY \<or> src_ok w" using w src_ok_valid by blast
  have "distinct (free_queue b @ msg_queue b)" using box by (simp add: box_ok_def)
  then have claimed: "box_ok ?c (set_sem ?r (sem_want ?c (count_for ?r (inbox b)) True) b) (InFirst w)"
    using w vs by (auto simp: box_ok_def sems_ok_def sems)
  show ?thesis
  proof (cases "find (matches w) (inbox b)")
    case None
    then have n: "count_for ?r (inbox b) = 0" using count_first [of w "inbox b"] w vs by simp
    have "sem_at ?r (mb (pool (lock s) (current (lock s)))) = sem_want ?c 0 False" "rings_ok (lock s)"
      "current (lock s) \<noteq> IDLE"
      using sems [of ?r] inv c rings n by (auto simp: msg_inv_def b_def)
    then obtain s' where s': "sem_P l ?r (lock s) = Inr (True, s')" "rings_ok s'" "waiting s' = waiting s @ [?c]"
      "free_pcbs s' = free_pcbs s"
      "\<And>x. mb (pool s' x) = (if x = ?c then set_sem ?r (sem_want ?c 0 True) b else mb (pool s x))"
      "ready s' = remove1 ?c (ready s)"
      by (rule sem_P_zero [where l = l]) (auto simp: b_def)
    have "msg_inv (s', pcs(?c := InFirst w))"
      by (rule msg_inv_current [OF inv c]) (use s' claimed n in \<open>auto simp: asleep_def\<close>)
    moreover have "receive l w s = Inr (Sleeps1, s')" using s'(1) g by (auto simp: receive_def guardE_def)
    moreover have "inbox (mb (pool s' x)) = inbox (mb (pool s x)) \<and>
      free_queue (mb (pool s' x)) = free_queue (mb (pool s x))" for x by (simp add: s'(5) b_def)
    ultimately show ?thesis using None s'(3,4,6) by (simp add: b_def)
  next
    case (Some m)
    then obtain n where n: "count_for ?r (inbox b) = Suc n"
      using count_first [of w "inbox b"] w vs by (cases "count_for ?r (inbox b)") auto
    have "sem_at ?r (mb (pool (lock s) (current (lock s)))) = sem_want ?c (Suc n) False"
      using sems [of ?r] n by (simp add: b_def)
    then obtain t where t: "sem_P l ?r (lock s) = Inr (False, t)" "same_rings (lock s) t"
      "\<And>x. mb (pool t x) = (if x = ?c then set_sem ?r (sem_want ?c n False) b else mb (pool s x))"
      by (rule sem_P_pos [where l = l]) (auto simp: b_def)
    have "sem_want ?c n False = sem_want ?c (Suc n) True" by (simp add: sem_want_def)
    then have "box_ok ?c (mb (pool t ?c)) (InFirst w)" "?c = current t"
      "find (matches w) (inbox (mb (pool t ?c))) = Some m"
      using claimed n Some t(2) by (simp_all add: t(3) same_rings_def)
    then obtain s' ms ns where s': "receive_rest l w t = Inr (Got m, s')" "same_rings t s'"
      "box_ok ?c (mb (pool s' ?c)) Runs" "\<And>x. x \<noteq> ?c \<Longrightarrow> mb (pool s' x) = mb (pool t x)"
      "inbox (mb (pool t ?c)) = ms @ m # ns" "inbox (mb (pool s' ?c)) = ms @ ns" "\<forall>m \<in> set ms. \<not> matches w m"
      by (rule receive_rest_ok [where l = l]) blast
    have "same_rings s s'" using s'(2) t(2) by (simp add: same_rings_def)
    then have "msg_inv (s', pcs(?c := Runs))"
      using inv rings_ok_same [of s s'] s' t(3)
      by (intro msg_inv_current [OF inv c]) (auto simp: same_rings_def msg_inv_def asleep_def)
    moreover have "pcs(?c := Runs) = pcs" using pc by auto
    moreover have "receive l w s = Inr (Got m, s')" using t(1) s'(1) g by (auto simp: receive_def guardE_def)
    ultimately show ?thesis using Some s' t(3) by (auto simp: b_def)
  qed
qed

subsection \<open>Every step keeps it\<close>

lemma inv_send:
  assumes inv: "msg_inv (s, pcs)" and v: "valid_src (src m)" and d: "d \<notin> set (free_pcbs s)"
    and s': "send d m s = Inr s'"
  shows "msg_inv (s', pcs)"
proof -
  have dr: "0 \<le> d" "d < POOL_NUM" and f: "free_queue (mb (pool s d)) \<noteq> []"
    using s' by (auto simp: send_def guardE_def Let_def split: if_splits)
  then have ok: "box_ok d (mb (pool s d)) (pcs d)" "distinct (waiting s)"
    "claim_of (pcs d) \<noteq> None \<Longrightarrow> asleep (mb (pool s d)) (pcs d) \<longleftrightarrow> d \<in> set (waiting s)"
    using inv d by (auto simp: msg_inv_def rings_ok_def)
  obtain t where t: "send d m s = Inr t"
    "box_ok d (mb (pool t d)) (pcs d)" "\<And>x. x \<noteq> d \<Longrightarrow> mb (pool t x) = mb (pool s x)" "rings_ok s \<Longrightarrow> rings_ok t"
    "free_pcbs t = free_pcbs s" "set (waiting t) - {d} = set (waiting s) - {d}"
    "distinct (waiting s) \<Longrightarrow> claim_of (pcs d) \<noteq> None \<Longrightarrow>
      (asleep (mb (pool s d)) (pcs d) \<longleftrightarrow> d \<in> set (waiting s)) \<Longrightarrow>
      asleep (mb (pool t d)) (pcs d) \<longleftrightarrow> d \<in> set (waiting t)"
    by (rule send_ok [OF ok(1) v dr f]) (rule that)
  have "t = s'" using t(1) s' by simp
  note * = t(2-7) [unfolded this]
  show ?thesis
    unfolding msg_inv_def
  proof (intro case_prodI conjI ballI impI)
    show "rings_ok s'" "pcs IDLE = Runs" using *(3) inv by (auto simp: msg_inv_def)
    fix p assume p: "p \<in> {0..<POOL_NUM} - set (free_pcbs s')"
    show "box_ok p (mb (pool s' p)) (pcs p)"
      using *(1) inv p by (cases "p = d") (auto simp: *(2,4) msg_inv_def)
    assume cl: "claim_of (pcs p) \<noteq> None"
    show "asleep (mb (pool s' p)) (pcs p) \<longleftrightarrow> p \<in> set (waiting s')"
    proof (cases "p = d")
      case True
      then show ?thesis using *(6) [OF ok(2)] ok(3) cl by blast
    next
      case False
      then have "p \<in> set (waiting s') \<longleftrightarrow> p \<in> set (waiting s)" using *(5) by blast
      with False show ?thesis using inv p cl by (simp add: *(2,4) msg_inv_def)
    qed
  qed
qed

lemma inv_switch:
  assumes inv: "msg_inv (s, pcs)" and s': "switch l s = Inr s'"
  shows "msg_inv (s', pcs)"
proof -
  have "pre_current s \<in> insert IDLE (set (ready s))" using inv by (simp add: msg_inv_def rings_ok_def)
  then obtain t c where t: "switch l s = Inr t" "current t = c" "pre_current t = c"
    "c \<in> insert IDLE (set (ready s))" "ready t = ready s" "waiting t = waiting s"
    "free_pcbs t = free_pcbs s" "pool t = pool s" by (rule switch_ok [where l = l]) blast
  have "rings_ok t" using inv t by (auto simp: msg_inv_def rings_ok_def)
  then show ?thesis using inv t s' by (auto simp: msg_inv_def)
qed

lemma box_ok_init: "box_ok p (init_msg ms) Runs"
proof -
  have "sem_at r (init_msg ms) = \<lparr>token = 0, block = []\<rparr>" for r
    by (cases r) (simp_all add: init_msg_def create_sem_def sem_at.simps)
  moreover have "count_for r [] = 0" for r by (cases r) simp_all
  moreover have i: "inbox (init_msg ms) = []" by (simp add: inbox_def init_msg_def)
  ultimately have "sems_ok p (init_msg ms) None" unfolding sems_ok_def i by (simp add: sem_want_def)
  with i show ?thesis by (simp add: box_ok_def init_msg_def del: upt_rec_numeral)
qed

lemma inv_create:
  assumes inv: "msg_inv (s, pcs)" and s': "create_kthread_1 l f argc argv s = Inr (p, s')"
  shows "msg_inv (s', pcs(p := Runs))"
proof -
  obtain ps where f: "free_pcbs s = p # ps"
    using s' by (auto simp: create_kthread_1_def Let_def split: list.splits)
  have rings: "ready s' = ready s" "waiting s' = waiting s @ [p]" "free_pcbs s' = ps" "current s' = current s"
    "pre_current s' = pre_current s"
    using s' f by (auto simp: create_kthread_1_def Let_def upd_pcb_def)
  have mb: "mb (pool s' x) = (if x = p then init_msg (msg_space (mb (pool s p))) else mb (pool s x))" for x
    using s' f by (auto simp: create_kthread_1_def Let_def upd_pcb_def)
  have "p \<noteq> IDLE" using inv f rings_ok_idle [of s] by (auto simp: msg_inv_def)
  moreover have "rings_ok s'" using inv f by (auto simp: msg_inv_def rings_ok_def rings)
  moreover have "\<not> asleep b Runs" for b by (simp add: asleep_def)
  ultimately show ?thesis using inv f box_ok_init by (auto simp: msg_inv_def rings mb)
qed

lemma inv_start:
  assumes inv: "msg_inv (s, pcs)" and p: "pcs p = Runs"
  shows "msg_inv (wakeup p s, pcs)"
  unfolding msg_inv_def
proof (intro case_prodI conjI ballI impI)
  show "rings_ok (wakeup p s)" "pcs IDLE = Runs" using inv rings_ok_wakeup by (auto simp: msg_inv_def)
  fix q assume q: "q \<in> {0..<POOL_NUM} - set (free_pcbs (wakeup p s))"
  then show "box_ok q (mb (pool (wakeup p s) q)) (pcs q)" using inv by (simp add: msg_inv_def)
  assume a: "claim_of (pcs q) \<noteq> None"
  then have "q \<noteq> p" using p by auto
  with a q show "asleep (mb (pool (wakeup p s) q)) (pcs q) \<longleftrightarrow> q \<in> set (waiting (wakeup p s))"
    using inv by (simp add: msg_inv_def)
qed

lemma inv_end:
  assumes inv: "msg_inv (s, pcs)" and c: "current s \<noteq> IDLE" and s': "wrap_end l s = Inr s'"
  shows "msg_inv (s', pcs)"
proof -
  have rings: "rings_ok s" using inv by (simp add: msg_inv_def)
  obtain p where p: "prev_in (IDLE # ready s) (current s) = Some p"
    "p \<in> insert IDLE (set (remove1 (current s) (ready s)))" by (rule prev_ok [OF rings c])
  let ?u = "unlock ((upd_pcb (current s) (\<lambda>c. c\<lparr>is_used := False\<rparr>) (lock s))
    \<lparr>ready := remove1 (current s) (ready s), free_pcbs := free_pcbs s @ [current s], pre_current := p\<rparr>)"
  have u: "ready ?u = remove1 (current s) (ready s)" "waiting ?u = waiting s" "pre_current ?u = p"
    "free_pcbs ?u = free_pcbs s @ [current s]" "mb (pool ?u x) = mb (pool s x)" for x
    by (simp_all add: upd_pcb_def)
  have sw: "switch l ?u = Inr s'" using s' p(1) by (simp add: wrap_end_def Let_def upd_pcb_def)
  have "pre_current ?u \<in> insert IDLE (set (ready ?u))" unfolding u by (rule p(2))
  then obtain t c where t: "switch l ?u = Inr t" "current t = c" "pre_current t = c"
    "c \<in> insert IDLE (set (ready ?u))" "ready t = ready ?u" "waiting t = waiting ?u"
    "free_pcbs t = free_pcbs ?u" "pool t = pool ?u" by (rule switch_ok [where l = l]) blast
  have "t = s'" using sw t(1) by simp
  moreover have "current s \<in> set (ready s)" using rings c by (auto simp: rings_ok_def)
  then have "rings_ok t" using rings t unfolding rings_ok_def u by auto
  moreover have "mb (pool t x) = mb (pool s x)" for x using t(8) u(5) by simp
  ultimately show ?thesis using inv t unfolding msg_inv_def u by auto
qed

lemma inv_step: "step l x y \<Longrightarrow> msg_inv x \<Longrightarrow> msg_inv y"
proof (induction rule: step.induct)
  case (step_receive pcs s w r s')
  show ?case
  proof (cases "find (matches w) (inbox (mb (pool s (current s))))")
    case None
    then show ?thesis using receive_ok [OF step_receive.prems step_receive(1-3), of l] step_receive(4) by auto
  next
    case (Some m)
    moreover have "pcs(current s := Runs) = pcs" using step_receive(1) by auto
    ultimately show ?thesis using receive_ok [OF step_receive.prems step_receive(1-3), of l] step_receive(4) by auto
  qed
next
  case (step_resume pcs s w r s')
  from resume_ok [OF step_resume(3,1), of l] step_resume(2) show ?case by fastforce
qed (blast intro: inv_send inv_switch inv_create inv_start inv_end)+

lemma reachable_inv: "reachable l s0 x \<Longrightarrow> msg_inv x"
proof (induction rule: reachable.induct)
  case reach_init
  have "set (map int [0..<nat POOL_NUM]) = {0..<POOL_NUM}"
    using image_int_atLeastLessThan [of 0 "nat POOL_NUM"] by (simp add: POOL_NUM_def del: upt_rec_numeral)
  then show ?case
    by (simp add: msg_inv_def rings_ok_def init_proc_def upd_pcb_def distinct_map del: upt_rec_numeral)
qed (blast intro: inv_step)

section \<open>Two runs\<close>

text \<open>The first thread is created, started and scheduled; then it waits for a message and gets one.\<close>

lemma pcbs_from_0: "map int [0..<nat POOL_NUM] = 0 # map int [1..<50]"
  by (simp add: POOL_NUM_def upt_conv_Cons del: upt_rec_numeral)

lemma run_first:
  obtains s ms where "reachable l s0 (s, \<lambda>_. Runs)" and "current s = 0" and "ready s = [0]" and "waiting s = []"
    and "free_pcbs s = map int [1..<50]" and "mb (pool s 0) = init_msg ms"
proof -
  let ?i = "init_proc l s0"
  have i: "ready ?i = []" "waiting ?i = []" "free_pcbs ?i = 0 # map int [1..<50]" "current ?i = IDLE" "pre_current ?i = IDLE"
    using pcbs_from_0 by (simp_all add: init_proc_def upd_pcb_def del: upt_rec_numeral)
  obtain s1 ms where s1: "create_kthread_1 l 0 0 0 ?i = Inr (0, s1)" "ready s1 = []" "waiting s1 = [0]"
    "free_pcbs s1 = map int [1..<50]" "current s1 = IDLE" "pre_current s1 = IDLE" "mb (pool s1 0) = init_msg ms"
    using i by (simp add: create_kthread_1_def Let_def upd_pcb_def del: upt_rec_numeral)
  have pcs: "(\<lambda>_. Runs)(0 := Runs) = (\<lambda>_. Runs)" by auto
  have r1: "reachable l s0 (s1, \<lambda>_. Runs)"
    using reach_step [OF reach_init step_create [OF _ s1(1), of "\<lambda>_. Runs"]] unfolding pcs by simp
  let ?w = "wakeup 0 s1"
  have w: "ready ?w = [0]" "waiting ?w = []" "pre_current ?w = IDLE" "free_pcbs ?w = map int [1..<50]"
    "mb (pool ?w 0) = init_msg ms"
    using s1 by (simp_all add: wakeup_def Let_def del: upt_rec_numeral)
  have r2: "reachable l s0 (?w, \<lambda>_. Runs)" by (rule reach_step [OF r1 step_start]) simp_all
  have "next_in [IDLE, 0] IDLE = Some 0" by (simp add: next_in_def IDLE_def)
  then obtain s2 where s2: "switch l ?w = Inr s2" "current s2 = 0" "ready s2 = [0]" "waiting s2 = []"
    "free_pcbs s2 = map int [1..<50]" "mb (pool s2 0) = init_msg ms"
    using w by (auto simp: switch_def schedule_def Let_def IDLE_def simp del: upt_rec_numeral)
  show thesis by (rule that [OF reach_step [OF r2 step_switch [OF s2(1)]] s2(2-6)])
qed

definition tick_msg :: msg where
  "tick_msg = \<lparr>src = - 2, dest = 0, mtype = 7, i0 = 0, i1 = 0, i2 = 0, i3 = 0, i4 = 0\<rparr>"

text \<open>The thread 0 is asleep in \<open>receive\<close>, and no other thread exists.\<close>

lemma run_asleep:
  obtains t where "reachable l s0 (t, (\<lambda>_. Runs)(0 := InFirst ANY))" and "waiting t = [0]" and "ready t = []"
    and "free_pcbs t = map int [1..<50]" and "0 \<notin> set (free_pcbs t)" and "current t = IDLE" and "pre_current t = IDLE"
    and "inbox (mb (pool t 0)) = []" and "free_queue (mb (pool t 0)) \<noteq> []"
proof -
  obtain s ms where s: "reachable l s0 (s, \<lambda>_. Runs)" "current s = 0" "ready s = [0]" "waiting s = []"
    "free_pcbs s = map int [1..<50]" "mb (pool s 0) = init_msg ms" by (rule run_first)
  let ?pcs = "(\<lambda>_. Runs)(0 := InFirst ANY)"
  have ne: "(0::int) \<noteq> IDLE" by (simp add: IDLE_def)
  have "inbox (mb (pool s (current s))) = []" by (simp add: s init_msg_def inbox_def)
  then obtain t where t: "receive l ANY s = Inr (Sleeps1, t)" "waiting t = [0]" "ready t = []"
    "free_pcbs t = map int [1..<50]" "\<And>x. inbox (mb (pool t x)) = inbox (mb (pool s x))"
    "\<And>x. free_queue (mb (pool t x)) = free_queue (mb (pool s x))"
    using receive_ok [OF reachable_inv [OF s(1)], of ANY l] s(2-5) ne by auto
  have r: "reachable l s0 (t, ?pcs)"
    using reach_step [OF s(1) step_receive [OF _ _ _ t(1)]] s(2) ne by simp
  have "rings_ok t" using reachable_inv [OF r] by (simp add: msg_inv_def)
  then have cur: "current t = IDLE" "pre_current t = IDLE" by (auto simp: rings_ok_def t(3))
  have "(0::int) \<notin> set (map int [1..<50])" by auto
  then have fresh: "0 \<notin> set (free_pcbs t)" by (simp only: t(4) not_False_eq_True)
  have "inbox (mb (pool t 0)) = []" using t(5) s(6) by (simp add: init_msg_def inbox_def)
  moreover have "free_queue (mb (pool t 0)) \<noteq> []" by (simp add: t(6) s(6) init_msg_def)
  ultimately show thesis using that r t(2-4) fresh cur by blast
qed

lemma run_woken:
  obtains s where "reachable l s0 (s, (\<lambda>_. Runs)(0 := InFirst ANY))" and "current s = 0"
    and "inbox (mb (pool s 0)) = [tick_msg]" and "free_pcbs s = map int [1..<50]"
proof -
  let ?pcs = "(\<lambda>_. Runs)(0 := InFirst ANY)"
  obtain t where r: "reachable l s0 (t, ?pcs)" and t: "waiting t = [0]" "ready t = []"
    "free_pcbs t = map int [1..<50]" and fresh: "0 \<notin> set (free_pcbs t)" and cur: "current t = IDLE" "pre_current t = IDLE"
    and q: "inbox (mb (pool t 0)) = []" and f: "free_queue (mb (pool t 0)) \<noteq> []" by (rule run_asleep)
  have ne: "(0::int) \<noteq> IDLE" by (simp add: IDLE_def)
  have z: "0 \<le> (0::int)" "0 < POOL_NUM" by (simp_all add: POOL_NUM_def)
  have box: "box_ok 0 (mb (pool t 0)) (?pcs 0)" using msg_inv_at(1) [OF reachable_inv [OF r], of 0] fresh z by simp
  have v: "valid_src (src tick_msg)" by (simp add: valid_src_def tick_msg_def)
  obtain u where u: "send 0 tick_msg t = Inr u" "inbox (mb (pool u 0)) = [tick_msg]" "current u = IDLE"
    "free_pcbs u = map int [1..<50]" "pre_current u = IDLE" "set (ready u) \<union> set (waiting u) = {0}"
    by (rule send_ok [OF box v z f]) (use q t cur in \<open>auto simp: tick_msg_def\<close>)
  have ru: "reachable l s0 (u, ?pcs)"
    by (rule reach_step [OF r step_send [OF _ v fresh u(1)]]) (simp add: cur ne [symmetric])
  note invu = reachable_inv [OF ru]
  have "\<not> asleep (mb (pool u 0)) (InFirst ANY)" using u(2) by (simp add: asleep_def)
  moreover have "0 \<notin> set (free_pcbs u)" using fresh by (simp only: u(4) t(3) not_False_eq_True)
  ultimately have "0 \<notin> set (waiting u)" using msg_inv_at(2) [OF invu, of 0] z by simp
  then have "set (ready u) = {0}" using u(6) by blast
  moreover have "distinct (ready u)" using invu by (simp add: msg_inv_def rings_ok_def)
  ultimately have rdy: "ready u = [0]" by (cases "ready u"; cases "tl (ready u)") auto
  have "next_in [IDLE, 0] IDLE = Some 0" by (simp add: next_in_def IDLE_def)
  then obtain s2 where s2: "switch l u = Inr s2" "current s2 = 0" "free_pcbs s2 = map int [1..<50]"
    "mb (pool s2 0) = mb (pool u 0)"
    using u rdy by (auto simp: switch_def schedule_def Let_def IDLE_def simp del: upt_rec_numeral)
  show thesis by (rule that [OF reach_step [OF ru step_switch [OF s2(1)]]]) (use s2 u in auto)
qed

section \<open>Properties\<close>

text \<open>
  C4. In every reachable state, \<open>receive\<close> takes the oldest message of the source asked for out of the
  thread's queue, in which all others keep their order, and returns it; when there is none the thread
  goes to sleep and no queue changes.
\<close>

theorem receive_oldest:
  assumes "reachable l s0 (s, pcs)" and "pcs (current s) = Runs" and "current s \<noteq> IDLE" and "w = ANY \<or> valid_src w"
  shows "case find (matches w) (inbox (mb (pool s (current s)))) of
      None \<Rightarrow> \<exists>s'. receive l w s = Inr (Sleeps1, s') \<and> current s \<in> set (waiting s') \<and>
        (\<forall>x. inbox (mb (pool s' x)) = inbox (mb (pool s x)))
    | Some m \<Rightarrow> \<exists>s' ms ns. receive l w s = Inr (Got m, s') \<and> inbox (mb (pool s (current s))) = ms @ m # ns \<and>
        inbox (mb (pool s' (current s))) = ms @ ns \<and> (\<forall>x \<in> set ms. \<not> matches w x)"
  using receive_ok [OF reachable_inv [OF assms(1)] assms(2-4), of l]
  by (cases "find (matches w) (inbox (mb (pool s (current s))))") auto

theorem receive_oldest_witness:
  "\<exists>l s0 s s'. reachable l s0 (s, \<lambda>_. Runs) \<and> current s = 0 \<and> receive l ANY s = Inr (Sleeps1, s') \<and> 0 \<in> set (waiting s')"
proof -
  obtain s ms where s: "reachable l s0 (s, \<lambda>_. Runs)" "current s = 0" "mb (pool s 0) = init_msg ms"
    by (rule run_first)
  then have "inbox (mb (pool s (current s))) = []" by (simp add: inbox_def init_msg_def)
  then show ?thesis using receive_oldest [OF s(1), of ANY] s(1,2) by (auto simp: IDLE_def)
qed

text \<open>
  C9. A thread that slept in \<open>receive\<close> and runs again gets a message: it is not put to sleep a second
  time, no assertion fails, and the message is the oldest one of the source it asked for.
\<close>

theorem resumed_receives:
  assumes "reachable l s0 (s, pcs)" and "pcs (current s) = InFirst w"
  shows "\<exists>s' m ms ns. resume l w s = Inr (Got m, s') \<and> inbox (mb (pool s (current s))) = ms @ m # ns \<and>
    inbox (mb (pool s' (current s))) = ms @ ns \<and> matches w m \<and> (\<forall>x \<in> set ms. \<not> matches w x)"
  by (rule resume_ok [OF reachable_inv [OF assms(1)] assms(2), of l]) blast

theorem resumed_receives_witness:
  "\<exists>l s0 s s'. reachable l s0 (s, (\<lambda>_. Runs)(0 := InFirst ANY)) \<and> resume l ANY s = Inr (Got tick_msg, s')"
proof -
  obtain s where s: "reachable l s0 (s, (\<lambda>_. Runs)(0 := InFirst ANY))" "current s = 0" "inbox (mb (pool s 0)) = [tick_msg]"
    by (rule run_woken)
  from resumed_receives [OF s(1), of ANY] s obtain s' m ms ns where "resume l ANY s = Inr (Got m, s')" "[tick_msg] = ms @ m # ns"
    by auto
  then show ?thesis using s(1) by (cases ms) auto
qed

text \<open>
  C7. No wakeup is lost: in every reachable state a thread that is inside \<open>receive\<close> is in the waiting
  ring exactly as long as its queue has no message of the source it asks for.
\<close>

theorem no_lost_wakeup:
  assumes "reachable l s0 (s, pcs)" and "p \<in> {0..<POOL_NUM}" and "p \<notin> set (free_pcbs s)" and "pcs p = InFirst w"
  shows "p \<in> set (waiting s) \<longleftrightarrow> (\<forall>m \<in> set (inbox (mb (pool s p))). \<not> matches w m)"
proof -
  have box: "box_ok p (mb (pool s p)) (InFirst w)"
    and wait: "asleep (mb (pool s p)) (InFirst w) \<longleftrightarrow> p \<in> set (waiting s)"
    using msg_inv_at [OF reachable_inv [OF assms(1)] assms(2,3)] assms(4) by simp_all
  have "asleep (mb (pool s p)) (InFirst w) \<longleftrightarrow> find (matches w) (inbox (mb (pool s p))) = None"
    using count_first [of w "inbox (mb (pool s p))"] box by (simp add: asleep_def box_ok_def)
  then show ?thesis using wait by (auto simp: find_None_iff)
qed

theorem no_lost_wakeup_witness:
  "\<exists>l s0 s. reachable l s0 (s, (\<lambda>_. Runs)(0 := InFirst ANY)) \<and> 0 \<notin> set (waiting s)"
proof -
  obtain s where s: "reachable l s0 (s, (\<lambda>_. Runs)(0 := InFirst ANY))" "inbox (mb (pool s 0)) = [tick_msg]"
    "free_pcbs s = map int [1..<50]"
    by (rule run_woken)
  moreover have "(0::int) \<notin> set (map int [1..<50])" by auto
  then have "0 \<notin> set (free_pcbs s)" by (simp only: s(3) not_False_eq_True)
  ultimately show ?thesis using no_lost_wakeup [OF s(1), of 0 ANY] by (auto simp: POOL_NUM_def matches_def)
qed

text \<open>A pair of \<open>lock\<close> and \<open>unlock\<close> leaves interrupts off, also when they were on before.\<close>

lemma unlock_keeps_off: "\<not> intr (unlock (lock s))"
  by (simp add: unlock_def lock_def upd_pcb_def Let_def)

end
