(* ===== verification/Pcb_Manager.thy ===== *)
theory Pcb_Manager
  imports Process Memory Fs_Handlers
begin

text \<open>
  The process manager (src/kernel/manager_server/pcb_manager.c) on top of the threads, the memory
  manager and the file server. A \<open>send\<close> to a server followed by the \<open>receive\<close> of its answer is the
  reaction of that server to the request: the manager runs again only when the answer is there, and it
  takes the oldest message of that server (see Process_Msg).
\<close>

section \<open>State\<close>

record sys =
  kern :: kernel
  mem :: mm
  files :: fs

text \<open>
  \<open>elfs\<close>: the file server as the memory manager sees it, for the name of a program; \<open>stack_msg\<close>: what
  is on the stack where the code declares a message without initialising it.
\<close>

record world =
  lay :: layout
  mgr_pid :: int
  elfs :: "u8 list \<Rightarrow> fserver"
  fclient :: client
  stack_msg :: msg
  name_buf :: int

definition on_kern :: "(kernel \<Rightarrow> kernel) \<Rightarrow> sys \<Rightarrow> sys" where
  "on_kern f s = s\<lparr>kern := f (kern s)\<rparr>"

definition on_pcb :: "int \<Rightarrow> (pcb \<Rightarrow> pcb) \<Rightarrow> sys \<Rightarrow> sys" where
  "on_pcb p f = on_kern (upd_pcb p f)"

definition pool_entry :: "int \<Rightarrow> 'a exec \<Rightarrow> 'a exec" where
  "pool_entry pid c = guardE OutOfRange (0 \<le> pid \<and> pid < POOL_NUM) c"

definition ask_memory :: "world \<Rightarrow> u8 list \<Rightarrow> msg \<Rightarrow> sys \<Rightarrow> (msg \<times> sys) exec" where
  "ask_memory g name m s = bindE (memory_thread (elfs g name) m (mem s)) (\<lambda>(r, mm). Inr (r, s\<lparr>mem := mm\<rparr>))"

text \<open>A request that the file server does not answer blocks the manager for ever.\<close>

definition ask_file :: "world \<Rightarrow> msg \<Rightarrow> sys \<Rightarrow> (msg \<times> sys) exec" where
  "ask_file g m s =
     bindE (file_thread (fclient g) m (files s)) (\<lambda>(ans, st, fs).
       case ans of None \<Rightarrow> Inl Loops | Some (d, r) \<Rightarrow> Inr (r, s\<lparr>files := fs\<rparr>))"

definition send_to :: "int \<Rightarrow> msg \<Rightarrow> sys \<Rightarrow> sys exec" where
  "send_to d m s = bindE (send d m (kern s)) (\<lambda>k. Inr (s\<lparr>kern := k\<rparr>))"

text \<open>The memory manager writes \<open>cr3\<close> into the PCB.\<close>

definition share_cr3 :: "int \<Rightarrow> sys \<Rightarrow> sys" where
  "share_cr3 p s = on_pcb p (\<lambda>c. c\<lparr>pcb_cr3 := cr3 (mprocs (mem s) p)\<rparr>) s"

section \<open>Requests to the servers\<close>

definition create_process_space :: "world \<Rightarrow> int \<Rightarrow> int \<Rightarrow> sys \<Rightarrow> sys exec" where
  "create_process_space g pid file_name s =
     bindE (ask_memory g (load_bytes (kmem (kern s)) (u32_of file_name) 256)
              ((stack_msg g)\<lparr>src := mgr_pid g, mtype := 1, i0 := pid, i1 := file_name\<rparr>) s)
       (\<lambda>(r, s). Inr (share_cr3 pid s))"

definition create_child_space :: "world \<Rightarrow> int \<Rightarrow> int \<Rightarrow> sys \<Rightarrow> sys exec" where
  "create_child_space g parent child s =
     bindE (ask_memory g [] ((stack_msg g)\<lparr>src := mgr_pid g, mtype := 2, i0 := parent, i1 := child\<rparr>) s)
       (\<lambda>(r, s). Inr (share_cr3 child s))"

definition exec_memory_manager :: "world \<Rightarrow> int \<Rightarrow> u8 list \<Rightarrow> sys \<Rightarrow> (int \<times> sys) exec" where
  "exec_memory_manager g pid name s =
     bindE (ask_memory g name ((stack_msg g)\<lparr>src := mgr_pid g, i0 := pid, i1 := name_buf g, mtype := 4\<rparr>) s)
       (\<lambda>(r, s). Inr (ret r, share_cr3 pid s))"

definition exit_memory :: "world \<Rightarrow> int \<Rightarrow> sys \<Rightarrow> sys exec" where
  "exit_memory g pid s =
     bindE (ask_memory g [] ((stack_msg g)\<lparr>src := mgr_pid g, mtype := 5, i0 := pid\<rparr>) s) (\<lambda>(r, s). Inr s)"

definition ask_init_fd_table :: "world \<Rightarrow> int \<Rightarrow> sys \<Rightarrow> sys exec" where
  "ask_init_fd_table g pid s =
     bindE (ask_file g ((stack_msg g)\<lparr>dest := fpid (fclient g), src := mgr_pid g, mtype := 15, i0 := pid\<rparr>) s)
       (\<lambda>(r, s). Inr s)"

definition ask_copy_fd_table :: "world \<Rightarrow> int \<Rightarrow> int \<Rightarrow> sys \<Rightarrow> sys exec" where
  "ask_copy_fd_table g child parent s =
     bindE (ask_file g ((stack_msg g)\<lparr>src := mgr_pid g, mtype := 14, i0 := child, i1 := parent\<rparr>) s)
       (\<lambda>(r, s). Inr s)"

definition exit_file :: "world \<Rightarrow> int \<Rightarrow> sys \<Rightarrow> sys exec" where
  "exit_file g pid s =
     bindE (ask_file g ((stack_msg g)\<lparr>src := mgr_pid g, mtype := 13, i0 := pid\<rparr>) s) (\<lambda>(r, s). Inr s)"

section \<open>Creating a process\<close>

text \<open>The first free PCB; \<open>e\<close>: what happens when there is none.\<close>

definition take_pcb :: "fault \<Rightarrow> sys \<Rightarrow> (int \<times> sys) exec" where
  "take_pcb e s =
     (let k = lock (kern s) in
      case free_pcbs k of
        [] \<Rightarrow> Inl e
      | p # ps \<Rightarrow> Inr (p, s\<lparr>kern := unlock (k\<lparr>free_pcbs := ps\<rparr>)\<rparr>))"

text \<open>The frame from which a process enters user mode: selectors 35 (data) and 27 (code).\<close>

definition user_frame :: "u32 \<Rightarrow> u32 \<Rightarrow> u32 \<Rightarrow> ram \<Rightarrow> ram" where
  "user_frame t ip sp =
     stores [(t + tf_ebp, 0), (t + tf_ss, 35), (t + tf_esp, sp), (t + tf_eflags, 0x206), (t + tf_cs, 27), (t + tf_eip, ip)]"

definition frame_at_top :: "world \<Rightarrow> int \<Rightarrow> u32" where
  "frame_at_top g p = kstack (lay g) p + (4096 - 76)"

definition enter_user :: "world \<Rightarrow> int \<Rightarrow> u32 \<Rightarrow> u32 \<Rightarrow> kernel \<Rightarrow> kernel" where
  "enter_user g p ip sp k =
     upd_pcb p (\<lambda>c. c\<lparr>frame_ptr := frame_at_top g p\<rparr>)
       (k\<lparr>kmem := user_frame (frame_at_top g p) ip sp (kmem k), saved_intr := (saved_intr k)(p := True)\<rparr>)"

definition reset_msgs :: "int \<Rightarrow> kernel \<Rightarrow> kernel" where
  "reset_msgs p = upd_mb p (\<lambda>b. init_msg (msg_space b))"

definition init_pcb :: "world \<Rightarrow> int \<Rightarrow> sys \<Rightarrow> sys" where
  "init_pcb g p s =
     (let s = on_kern lock s;
          s = on_pcb p (\<lambda>c. c\<lparr>is_used := True, lock_count := 0, parent_wait := False, user_space := True\<rparr>) s;
          s = s\<lparr>files := set_proc p ((fprocs (files s) p)\<lparr>current_dir := root_dir (files s), is_kernel := False\<rparr>) (files s)\<rparr>;
          s = on_kern (enter_user g p (entry (mprocs (mem s) p)) 0xbfffffff) s;
          s = on_kern (reset_msgs p) s in
      on_kern (\<lambda>k. unlock (k\<lparr>waiting := waiting k @ [p]\<rparr>)) s)"

definition create_process :: "world \<Rightarrow> msg \<Rightarrow> sys \<Rightarrow> sys exec" where
  "create_process g m s =
     bindE (take_pcb NullPointer s) (\<lambda>(p, s).
     bindE (create_process_space g p (buf m) s) (\<lambda>s.
     bindE (ask_init_fd_table g p s) (\<lambda>s.
       send_to (src m) (reply (mgr_pid g) p m) (on_kern (wakeup p) (init_pcb g p s)))))"

section \<open>Fork\<close>

text \<open>
  The chain of frame pointers that lead into the parent's kernel stack is moved by \<open>offset\<close>, which at
  this point is the distance of the two stacks, whichever is below.
\<close>

partial_function (option) move_frames :: "u32 \<Rightarrow> u32 \<Rightarrow> u32 \<Rightarrow> ram \<Rightarrow> ram option" where
  "move_frames base offs ebp_ptr m =
     (let v = load32 m ebp_ptr in
      if base \<le> v \<and> v < base + 4096 then move_frames base offs (v + offs) (store32 m ebp_ptr (v + offs))
      else Some m)"

definition copy_stack :: "u32 \<Rightarrow> u32 \<Rightarrow> u32 \<Rightarrow> ram \<Rightarrow> (u32 \<times> ram) exec" where
  "copy_stack child parent frame m =
     (let d = child - parent;
          (offs, t) = (if 0 < sint d then (d, frame + d) else (- d, frame - (- d)));
          m = store_bytes m child (load_bytes m parent 4096);
          m = store32 m (t + tf_eax) 0 in
      case move_frames parent offs (t + tf_ebp) m of None \<Rightarrow> Inl Loops | Some m \<Rightarrow> Inr (t, m))"

definition fork_pcb :: "world \<Rightarrow> int \<Rightarrow> int \<Rightarrow> sys \<Rightarrow> sys" where
  "fork_pcb g parent child s =
     (let s = on_kern lock s;
          s = on_pcb child (\<lambda>c. c\<lparr>lock_count := lock_count (pool (kern s) parent), is_used := True, user_space := True,
                ppid := parent, parent_wait := False\<rparr>) s;
          s = s\<lparr>files := set_proc child ((fprocs (files s) child)\<lparr>current_dir := current_dir (fprocs (files s) parent),
                is_kernel := False\<rparr>) (files s)\<rparr>;
          s = on_kern (reset_msgs child) s in
      on_kern (\<lambda>k. unlock (k\<lparr>waiting := waiting k @ [child]\<rparr>)) s)"

definition fork :: "world \<Rightarrow> msg \<Rightarrow> sys \<Rightarrow> sys exec" where
  "fork g m s =
     bindE (take_pcb AssertFail s) (\<lambda>(p, s).
     pool_entry (src m)
       (bindE (copy_stack (kstack (lay g) p) (kstack (lay g) (src m)) (u32_of (buf m)) (kmem (kern s))) (\<lambda>(t, km).
        let s = on_pcb p (\<lambda>c. c\<lparr>frame_ptr := t\<rparr>) (on_kern (\<lambda>k. k\<lparr>kmem := km, saved_intr := (saved_intr k)(p := saved_intr k (src m))\<rparr>) s) in
        bindE (create_child_space g (src m) p s) (\<lambda>s.
        bindE (ask_copy_fd_table g p (src m) (fork_pcb g (src m) p s)) (\<lambda>s.
          send_to (src m) (reply (mgr_pid g) p m) s)))))"

section \<open>Exec\<close>

text \<open>
  The address of the copied argument string, "aligned to 4"; the word before it holds this address.
\<close>

definition args_addr :: "nat \<Rightarrow> u32" where
  "args_addr args_len = (0xbfffffff - of_nat args_len) XOR 3"

definition user_string :: "int \<Rightarrow> int \<Rightarrow> sys \<Rightarrow> u8 list exec" where
  "user_string pid va s =
     strcpy_to_kernel (\<not> user_space (pool (kern s) pid)) (kpdir (mprocs (mem s) pid)) (u32_of va) (ram (mem s))"

text \<open>The two buffers of the manager have 256 bytes; a longer string runs over its stack.\<close>

definition exec_args :: "int \<Rightarrow> msg \<Rightarrow> sys \<Rightarrow> (u8 list \<times> u8 list) exec" where
  "exec_args pid m s =
     bindE (user_string pid (i0 m) s) (\<lambda>name. guardE OutOfRange (length name \<le> 256)
       (bindE (user_string pid (i1 m) s) (\<lambda>args. guardE OutOfRange (length args \<le> 252) (Inr (name, args)))))"

definition exec_program :: "world \<Rightarrow> msg \<Rightarrow> sys \<Rightarrow> sys exec" where
  "exec_program g m s =
     pool_entry (src m)
       (let pid = src m in
        bindE (exec_args pid m s) (\<lambda>(name, args).
        bindE (strlen args) (\<lambda>args_len.
        bindE (exec_memory_manager g pid name s) (\<lambda>(r, s).
          if r = - 1 then send_to pid (reply (mgr_pid g) (- 1) m) s
          else
            let new_args = args_addr args_len; stack_head = new_args - 4 in
            bindE (copy_from_kernel (\<not> user_space (pool (kern s) pid)) (kpdir (mprocs (mem s) pid)) stack_head
                     (u32_bytes new_args @ take (args_len + 1) args) (ram (mem s))) (\<lambda>ram'.
              let s = s\<lparr>mem := (mem s)\<lparr>ram := ram'\<rparr>\<rparr>;
                  s = on_pcb pid (\<lambda>c. c\<lparr>lock_count := 0, user_space := True\<rparr>) s;
                  s = on_kern (enter_user g pid (entry (mprocs (mem s) pid)) (stack_head - 4)) s in
              Inr (on_kern (\<lambda>k. wakeup pid (reset_msgs pid k)) s))))))"

section \<open>Exit and wait\<close>

definition exit_process :: "world \<Rightarrow> msg \<Rightarrow> sys \<Rightarrow> sys exec" where
  "exit_process g m s =
     pool_entry (src m)
       (let pid = src m in
        bindE (exit_memory g pid s) (\<lambda>s.
        bindE (exit_file g pid s) (\<lambda>s.
          let s = on_pcb pid (\<lambda>c. c\<lparr>is_used := False\<rparr>) (on_kern lock s);
              s = on_kern (\<lambda>k. unlock (k\<lparr>ready := remove1 pid (ready k), waiting := remove1 pid (waiting k),
                    free_pcbs := free_pcbs k @ [pid]\<rparr>)) s;
              c = pool (kern s) pid in
          if parent_wait c then send_to (ppid c) (m\<lparr>src := mgr_pid g, mtype := i0 m\<rparr>) s else Inr s)))"

text \<open>The branch of a valid child returns without \<open>unlock\<close>.\<close>

definition handle_waitpid :: "world \<Rightarrow> msg \<Rightarrow> sys \<Rightarrow> sys exec" where
  "handle_waitpid g m s =
     pool_entry (src m) (pool_entry (i0 m)
       (let s = on_kern lock s; c = pool (kern s) (i0 m) in
        if src m = ppid c \<and> is_used c
        then Inr (on_pcb (i0 m) (\<lambda>c. c\<lparr>parent_wait := True\<rparr>) s)
        else send_to (src m) (reply (mgr_pid g) (- 1) m) (on_kern unlock s)))"

definition pcb_manager_thread :: "world \<Rightarrow> msg \<Rightarrow> sys \<Rightarrow> sys exec" where
  "pcb_manager_thread g m s =
     (if mtype m = 1 then create_process g m s
      else if mtype m = 2 then fork g m s
      else if mtype m = 3 then exec_program g m s
      else if mtype m = 4 then exit_process g m s
      else if mtype m = 5 then handle_waitpid g m s
      else Inl AssertFail)"

end
