(* ===== verification/Pcb_Safe.thy ===== *)
theory Pcb_Safe
  imports Pcb_Manager Memory_Safe
begin

text \<open>
  What the process manager does: the frame of a forked child, where the arguments of a new program
  end up, and what a process that ends leaves in its descriptor table.
\<close>

section \<open>The argument string of exec\<close>

lemma args_addr_table:
  "list_all (\<lambda>n. (KOFFSET \<le> args_addr n + of_nat n \<longleftrightarrow> n mod 4 = 2 \<or> n mod 4 = 3) \<and>
     (unat (args_addr n) mod 4 = n mod 4)) [2..<252]"
  by (simp add: args_addr_def)

text \<open>
  The new address of the argument string of exec is aligned to 4 only when the length of the string
  is a multiple of 4, and when the length is 2 or 3 above one, its terminating NUL is written to the
  first bytes of kernel space, behind the user stack.
\<close>

theorem exec_args_overrun:
  assumes "n < 252"
  shows "(KOFFSET \<le> args_addr n + of_nat n \<longleftrightarrow> n mod 4 = 2 \<or> n mod 4 = 3) \<and>
    (unat (args_addr n) mod 4 = 0 \<longleftrightarrow> n mod 4 = 0)"
proof -
  consider "n = 0" | "n = 1" | "n \<in> set [2..<252]" using assms
    by (cases "n < 2") (auto simp: less_2_cases_iff simp del: upt_rec_numeral)
  then show ?thesis
  proof cases
    case 3
    then show ?thesis using args_addr_table by (auto simp: list_all_iff simp del: upt_rec_numeral)
  qed (simp_all add: args_addr_def)
qed

theorem exec_args_overrun_witness: "KOFFSET \<le> args_addr 7 + of_nat 7"
  using exec_args_overrun [of 7] by simp

section \<open>The frame of a child\<close>

lemma load_copied:
  assumes "k + 4 \<le> n" and "n \<le> 4096"
  shows "load32 (store_bytes m a (load_bytes m' b n)) (a + of_nat k) = load32 m' (b + of_nat k)"
proof -
  have "store_bytes m a (load_bytes m' b n) (a + of_nat k + of_nat j) = m' (b + of_nat k + of_nat j)" if "j < 4" for j
  proof -
    have "unat (of_nat (k + j) :: u32) = k + j" by (rule unat_small) (use assms that in simp)
    then show ?thesis using assms that by (simp add: store_bytes_def load_bytes_def add.assoc)
  qed
  from this [of 0] this [of 1] this [of 2] this [of 3] show ?thesis by (simp add: load32_def)
qed

lemma load_store32_apart:
  assumes "i < 19" and "j < 19" and "i \<noteq> j"
  shows "load32 (store32 m (t + 4 * of_nat j) w) (t + 4 * of_nat i) = load32 m (t + 4 * of_nat i)"
proof -
  have "\<not> unat (4 * of_nat i + of_nat b - 4 * of_nat j :: u32) < 4" if "b < 4" for b
  proof
    let ?d = "4 * of_nat i + of_nat b - 4 * of_nat j :: u32"
    assume d: "unat ?d < 4"
    have j: "unat (4 * of_nat j :: u32) = 4 * j" using unat_small [of "4 * j"] assms by simp
    have "unat (?d + 4 * of_nat j) = unat ?d + 4 * j"
      using d assms by (subst unat_add_lem [THEN iffD1]) (simp_all add: j)
    moreover have "unat (4 * of_nat i + of_nat b :: u32) = 4 * i + b"
      using unat_small [of "4 * i + b"] assms that by simp
    ultimately have "4 * i + b = unat ?d + 4 * j" by simp
    with d that assms(3) show False by presburger
  qed
  from this [of 0] this [of 1] this [of 2] this [of 3] show ?thesis
    by (simp add: load32_def store32_def store_bytes_def add_diff_eq)
qed

lemma load_store32_same: "load32 (store32 m a w) a = w"
  by (simp add: load32_def store32_def store_bytes_def u32_bytes_def bytes_u32_roundtrip)

text \<open>
  C25. The kernel stack of a forked child is a copy of the parent's one: when the frame of the system
  call lies in the parent's stack and its saved frame pointer is a user address, the frame of the child
  is at the same place of its own stack, has the same 19 words except that \<open>eax\<close> is 0, and the
  parent's stack is unchanged; this holds whichever of the two stacks is below the other.
\<close>

theorem fork_child_frame:
  assumes off: "off + 76 \<le> 4096" and frame: "frame = parent + of_nat off"
    and user: "\<not> (parent \<le> load32 m (frame + tf_ebp) \<and> load32 m (frame + tf_ebp) < parent + 4096)"
    and apart: "\<forall>x. unat (x - parent) < 4096 \<longrightarrow> 4096 \<le> unat (x - child)"
  shows "\<exists>m'. copy_stack child parent frame m = Inr (child + of_nat off, m') \<and>
    (\<forall>i < 19. load32 m' (child + of_nat off + 4 * of_nat i) =
       (if i = 7 then 0 else load32 m (frame + 4 * of_nat i))) \<and>
    (\<forall>x. unat (x - parent) < 4096 \<longrightarrow> m' x = m x)"
proof -
  let ?t = "child + of_nat off"
  let ?m1 = "store_bytes m child (load_bytes m parent 4096)"
  let ?m2 = "store32 ?m1 (?t + tf_eax) 0"
  have copied: "load32 ?m1 (?t + 4 * of_nat i) = load32 m (frame + 4 * of_nat i)" if "i < 19" for i
    using load_copied [of "off + 4 * i" 4096 m child m parent] that off by (simp add: frame add.assoc)
  have word: "load32 ?m2 (?t + 4 * of_nat i) = (if i = 7 then 0 else load32 m (frame + 4 * of_nat i))" if "i < 19" for i
    using load_store32_apart [of i 7 ?m1 ?t 0] load_store32_same [of ?m1 "?t + 28" 0] copied [OF that] that
    by auto
  have t: "frame + (child - parent) = ?t" "frame - (parent - child) = ?t" by (simp_all add: frame)
  have "load32 ?m2 (?t + tf_ebp) = load32 m (frame + tf_ebp)" using word [of 2] by simp
  then have mv: "move_frames parent offs (?t + tf_ebp) ?m2 = Some ?m2" for offs
    using user by (subst move_frames.simps) (auto simp: Let_def)
  have "copy_stack child parent frame m = Inr (?t, ?m2)"
    using mv by (simp add: copy_stack_def Let_def t)
  moreover have "?m2 x = m x" if x: "unat (x - parent) < 4096" for x
  proof -
    have c: "4096 \<le> unat (x - child)" using apart x by blast
    have u: "unat (of_nat off + tf_eax) = off + 28" using off by (simp add: unat_word_ariths unat_of_nat)
    have "\<not> unat (x - (?t + tf_eax)) < 4"
    proof
      assume l: "unat (x - (?t + tf_eax)) < 4"
      have "x - child = (x - (?t + tf_eax)) + (of_nat off + tf_eax)" by simp
      also have "unat \<dots> = unat (x - (?t + tf_eax)) + (off + 28)"
        using l u off by (subst unat_add_lem [THEN iffD1]) simp_all
      finally show False using c l off by simp
    qed
    then show ?thesis using c by (simp add: store32_def store_bytes_def load_bytes_def)
  qed
  ultimately show ?thesis using word by blast
qed

text \<open>A child below its parent.\<close>

theorem fork_child_frame_witness:
  "\<exists>m'. copy_stack 0xC0200000 0xC0210000 (0xC0210000 + 4020) (\<lambda>_. 5) = Inr (0xC0200000 + 4020, m') \<and>
     load32 m' (0xC0200000 + 4020 + 28) = 0 \<and> load32 m' (0xC0200000 + 4020 + 56) = 0x05050505"
proof -
  have "4096 \<le> unat (x - 0xC0200000)" if "unat (x - 0xC0210000) < 4096" for x :: u32
  proof -
    have "unat ((x - 0xC0210000) + 0x10000) = unat (x - 0xC0210000) + 0x10000"
      using that by (subst unat_add_lem [THEN iffD1]) simp_all
    then show ?thesis by (simp add: algebra_simps)
  qed
  moreover have "load32 (\<lambda>_. 5) a = 0x05050505" for a by (simp add: load32_def bytes_u32_def)
  ultimately have "\<exists>m'. copy_stack 0xC0200000 0xC0210000 (0xC0210000 + 4020) (\<lambda>_. 5) = Inr (0xC0200000 + of_nat 4020, m') \<and>
    (\<forall>i < 19. load32 m' (0xC0200000 + of_nat 4020 + 4 * of_nat i) = (if i = 7 then 0 else 0x05050505))"
    using fork_child_frame [of 4020 "0xC0210000 + 4020" "0xC0210000" "\<lambda>_. 5" "0xC0200000"] by fastforce
  then obtain m' where m': "copy_stack 0xC0200000 0xC0210000 (0xC0210000 + 4020) (\<lambda>_. 5) = Inr (0xC0200000 + of_nat 4020, m')"
    and w: "\<forall>i < 19. load32 m' (0xC0200000 + of_nat 4020 + 4 * of_nat i) = (if i = 7 then 0 else 0x05050505)" by blast
  from w [rule_format, of 7] w [rule_format, of 14] m' show ?thesis by simp
qed

end
