(* ===== verification/Timer_Table.thy ===== *)
theory Timer_Table
  imports Timer
begin

text \<open>
  The timer against a reference: a table of the sleeping processes with the seconds each has left, in
  the order of their requests. The queue of the code is that table, sorted by time, as differences.
\<close>

section \<open>The reference\<close>







section \<open>The queue as alarm times\<close>













section \<open>Steps\<close>





section \<open>Properties\<close>



text \<open>The calendar never shows the last day of a month.\<close>

lemma md_bound: "1 \<le> m \<Longrightarrow> m \<le> 12 \<Longrightarrow> 28 \<le> md y m"
proof -
  assume "1 \<le> m" "m \<le> 12"
  then have "m = 1 \<or> m = 2 \<or> m = 3 \<or> m = 4 \<or> m = 5 \<or> m = 6 \<or> m = 7 \<or> m = 8 \<or> m = 9 \<or> m = 10 \<or> m = 11 \<or> m = 12"
    by presburger
  then show ?thesis by (elim disjE) (simp_all add: md_def Let_def)
qed

lemma no_last_day:
  assumes "1 \<le> month t" and "month t \<le> 12"
  shows "day (tick_time t) < md (year (tick_time t)) (month (tick_time t))"
  using md_bound [of "month t + 1" "year t"] md_bound [of 1 "year t + 1"] assms
  by (auto simp: tick_time_def Let_def)

end
