(* ===== verification/Syscall.thy ===== *)
theory Syscall
  imports Pcb_Manager Timer
begin

text \<open>
  System calls and interrupts: src/kernel/system_call/sys_call_intr.c, irq/irq_handle.c, irq/idt.c,
  irq/i8259.c, and the requests of process/util.c that load and start the shell. A system call builds a
  message, sends it to a server and waits for the answer; the servers are their models.
\<close>

section \<open>State\<close>

text \<open>The words of the trap frame that the system calls read and write.\<close>

record trapframe =
  t_eax :: u32
  t_ebx :: u32
  t_ecx :: u32
  t_edx :: u32
  t_irq :: int

text \<open>
  A byte of the memory of a process, as the file server sees it through the page table of the process;
  a byte that is not mapped counts as 0.
\<close>

definition user_byte :: "sys \<Rightarrow> int \<Rightarrow> int \<Rightarrow> u8" where
  "user_byte s pid a =
     (if user_space (pool (kern s) pid)
      then (case physical_addr (ram (mem s)) (kpdir (mprocs (mem s) pid)) (u32_of a) of
              Inl e \<Rightarrow> 0 | Inr pa \<Rightarrow> ram (mem s) pa)
      else ram (mem s) (kernel_pa (u32_of a)))"

text \<open>The bytes a server copies into the memory of a process.\<close>

definition deliver :: "store \<Rightarrow> sys \<Rightarrow> sys exec" where
  "deliver = (\<lambda>(pid, a, bs) s.
     bindE (copy_from_kernel (\<not> user_space (pool (kern s) pid)) (kpdir (mprocs (mem s) pid)) (u32_of a) bs (ram (mem s)))
       (\<lambda>m. Inr (s\<lparr>mem := (mem s)\<lparr>ram := m\<rparr>\<rparr>)))"

text \<open>\<open>send(FILE, &m); receive(FILE, &m)\<close>\<close>

definition call_file :: "world \<Rightarrow> msg \<Rightarrow> sys \<Rightarrow> (msg \<times> sys) exec" where
  "call_file g m s =
     bindE (file_thread ((fclient g)\<lparr>umem := user_byte s\<rparr>) m (files s)) (\<lambda>(ans, st, fs).
     bindE (fold_exec deliver st (s\<lparr>files := fs\<rparr>)) (\<lambda>s.
       case ans of None \<Rightarrow> Inl Loops | Some (d, r) \<Rightarrow> Inr (r, s)))"

text \<open>
  \<open>send(PCB_MANAGER, &m); receive(PCB_MANAGER, &m)\<close>: the reaction of the manager, and then what the
  calling process receives; \<open>None\<close>: it sleeps.
\<close>

definition call_manager :: "world \<Rightarrow> msg \<Rightarrow> sys \<Rightarrow> (msg option \<times> sys) exec" where
  "call_manager g m s =
     bindE (pcb_manager_thread g m s) (\<lambda>s.
     bindE (receive (lay g) (mgr_pid g) (kern s)) (\<lambda>(r, k).
       Inr (case r of Got a \<Rightarrow> Some a | _ \<Rightarrow> None, s\<lparr>kern := k\<rparr>)))"

section \<open>Calls of the process manager\<close>

definition request :: "world \<Rightarrow> int \<Rightarrow> sys \<Rightarrow> msg" where
  "request g t s = (stack_msg g)\<lparr>src := current (kern s), mtype := t\<rparr>"

text \<open>A call that is answered goes on with its frame; \<open>None\<close>: it has not returned.\<close>

definition answered :: "(msg \<Rightarrow> sys \<Rightarrow> trapframe \<times> sys) \<Rightarrow> (msg option \<times> sys) exec \<Rightarrow> (trapframe option \<times> sys) exec" where
  "answered f r =
     bindE r (\<lambda>(a, s). case a of None \<Rightarrow> Inr (None, s) | Some m \<Rightarrow> (case f m s of (tf, s) \<Rightarrow> Inr (Some tf, s)))"

definition set_eax :: "int \<Rightarrow> trapframe \<Rightarrow> trapframe" where
  "set_eax x tf = tf\<lparr>t_eax := u32_of x\<rparr>"

definition syscall_fork :: "world \<Rightarrow> int \<Rightarrow> trapframe \<Rightarrow> sys \<Rightarrow> (trapframe option \<times> sys) exec" where
  "syscall_fork g addr tf s =
     answered (\<lambda>m s. (set_eax (ret m) tf, on_kern (wakeup (ret m)) s))
       (call_manager g ((request g 2 s)\<lparr>i2 := addr\<rparr>) s)"

definition syscall_exec :: "world \<Rightarrow> trapframe \<Rightarrow> sys \<Rightarrow> (trapframe option \<times> sys) exec" where
  "syscall_exec g tf s =
     answered (\<lambda>m s. (set_eax (ret m) tf, s))
       (call_manager g ((request g 3 s)\<lparr>i0 := sint (t_ebx tf), i1 := sint (t_ecx tf)\<rparr>) s)"

definition syscall_exit :: "world \<Rightarrow> trapframe \<Rightarrow> sys \<Rightarrow> (trapframe option \<times> sys) exec" where
  "syscall_exit g tf s =
     answered (\<lambda>m s. (tf, s)) (call_manager g ((request g 4 s)\<lparr>i0 := sint (t_ebx tf)\<rparr>) s)"

definition syscall_getpid :: "trapframe \<Rightarrow> sys \<Rightarrow> (trapframe option \<times> sys) exec" where
  "syscall_getpid tf s = Inr (Some (set_eax (current (kern s)) tf), s)"

definition syscall_waitpid :: "world \<Rightarrow> trapframe \<Rightarrow> sys \<Rightarrow> (trapframe option \<times> sys) exec" where
  "syscall_waitpid g tf s =
     answered (\<lambda>m s. (set_eax (ret m) tf, s))
       (call_manager g ((request g 5 s)\<lparr>i0 := sint (t_ebx tf)\<rparr>) s)"

section \<open>Calls of the file server\<close>

text \<open>The calls that return what the file server answers.\<close>

definition file_call :: "world \<Rightarrow> msg \<Rightarrow> trapframe \<Rightarrow> sys \<Rightarrow> (trapframe option \<times> sys) exec" where
  "file_call g m tf s = bindE (call_file g m s) (\<lambda>(r, s). Inr (Some (set_eax (ret r) tf), s))"

text \<open>The characters before the NUL of a string in user memory.\<close>

partial_function (option) user_strlen :: "(int \<Rightarrow> u8) \<Rightarrow> int \<Rightarrow> int \<Rightarrow> int option" where
  "user_strlen f a n = (if f a = 0 then Some n else user_strlen f (a + 1) (n + 1))"

definition syscall_puts :: "world \<Rightarrow> trapframe \<Rightarrow> sys \<Rightarrow> (trapframe option \<times> sys) exec" where
  "syscall_puts g tf s =
     (let p = current (kern s); a = sint (t_ebx tf) in
      case user_strlen (user_byte s p) a 0 of
        None \<Rightarrow> Inl Loops
      | Some n \<Rightarrow> file_call g ((request g 2 s)\<lparr>i0 := p, i1 := 1, i2 := a, i3 := n\<rparr>) tf s)"

text \<open>The line is read to the address in \<open>ebx\<close> and terminated at the index the answer gives, \<open>-1\<close> included.\<close>

definition syscall_read_line :: "world \<Rightarrow> trapframe \<Rightarrow> sys \<Rightarrow> (trapframe option \<times> sys) exec" where
  "syscall_read_line g tf s =
     (let p = current (kern s) in
      bindE (call_file g ((request g 1 s)\<lparr>i0 := p, i1 := 0, i2 := sint (t_ebx tf), i3 := 256\<rparr>) s) (\<lambda>(m, s).
      bindE (physical_addr (ram (mem s)) (kpdir (mprocs (mem s) p)) (u32_of (i2 m + ret m))) (\<lambda>pa.
        Inr (Some tf, s\<lparr>mem := set_ram (\<lambda>r. store_bytes r pa [0]) (mem s)\<rparr>))))"

definition syscall_open :: "world \<Rightarrow> trapframe \<Rightarrow> sys \<Rightarrow> (trapframe option \<times> sys) exec" where
  "syscall_open g tf s =
     file_call g ((request g 0 s)\<lparr>i0 := sint (t_ebx tf), i1 := sint (t_ecx tf), i2 := sint (t_edx tf)\<rparr>) tf s"

definition syscall_read :: "world \<Rightarrow> trapframe \<Rightarrow> sys \<Rightarrow> (trapframe option \<times> sys) exec" where
  "syscall_read g tf s =
     file_call g ((request g 1 s)\<lparr>i0 := current (kern s), i1 := sint (t_ebx tf), i2 := sint (t_ecx tf),
       i3 := sint (t_edx tf)\<rparr>) tf s"

definition syscall_write :: "world \<Rightarrow> trapframe \<Rightarrow> sys \<Rightarrow> (trapframe option \<times> sys) exec" where
  "syscall_write g tf s =
     file_call g ((request g 2 s)\<lparr>i0 := current (kern s), i1 := sint (t_ebx tf), i2 := sint (t_ecx tf),
       i3 := sint (t_edx tf)\<rparr>) tf s"

definition syscall_create :: "world \<Rightarrow> trapframe \<Rightarrow> sys \<Rightarrow> (trapframe option \<times> sys) exec" where
  "syscall_create g tf s = file_call g ((request g 4 s)\<lparr>i0 := sint (t_ebx tf), i1 := sint (t_ecx tf)\<rparr>) tf s"

definition syscall_close :: "world \<Rightarrow> trapframe \<Rightarrow> sys \<Rightarrow> (trapframe option \<times> sys) exec" where
  "syscall_close g tf s = file_call g ((request g 3 s)\<lparr>i0 := sint (t_ebx tf)\<rparr>) tf s"

definition syscall_delete :: "world \<Rightarrow> trapframe \<Rightarrow> sys \<Rightarrow> (trapframe option \<times> sys) exec" where
  "syscall_delete g tf s = file_call g ((request g 5 s)\<lparr>i0 := sint (t_ebx tf)\<rparr>) tf s"

definition syscall_lseek :: "world \<Rightarrow> trapframe \<Rightarrow> sys \<Rightarrow> (trapframe option \<times> sys) exec" where
  "syscall_lseek g tf s =
     file_call g ((request g 6 s)\<lparr>i0 := sint (t_ebx tf), i1 := sint (t_ecx tf), i2 := sint (t_edx tf)\<rparr>) tf s"

definition syscall_dup :: "world \<Rightarrow> trapframe \<Rightarrow> sys \<Rightarrow> (trapframe option \<times> sys) exec" where
  "syscall_dup g tf s = file_call g ((request g 7 s)\<lparr>i0 := sint (t_ebx tf)\<rparr>) tf s"

definition syscall_dup2 :: "world \<Rightarrow> trapframe \<Rightarrow> sys \<Rightarrow> (trapframe option \<times> sys) exec" where
  "syscall_dup2 g tf s = file_call g ((request g 8 s)\<lparr>i0 := sint (t_ebx tf), i1 := sint (t_ecx tf)\<rparr>) tf s"

definition syscall_mkdir :: "world \<Rightarrow> trapframe \<Rightarrow> sys \<Rightarrow> (trapframe option \<times> sys) exec" where
  "syscall_mkdir g tf s = file_call g ((request g 9 s)\<lparr>i0 := sint (t_ebx tf)\<rparr>) tf s"

definition syscall_rmdir :: "world \<Rightarrow> trapframe \<Rightarrow> sys \<Rightarrow> (trapframe option \<times> sys) exec" where
  "syscall_rmdir g tf s = file_call g ((request g 10 s)\<lparr>i0 := sint (t_ebx tf)\<rparr>) tf s"

definition syscall_lsdir :: "world \<Rightarrow> trapframe \<Rightarrow> sys \<Rightarrow> (trapframe option \<times> sys) exec" where
  "syscall_lsdir g tf s = file_call g ((request g 11 s)\<lparr>i0 := sint (t_ebx tf), i1 := sint (t_ecx tf)\<rparr>) tf s"

definition syscall_chdir :: "world \<Rightarrow> trapframe \<Rightarrow> sys \<Rightarrow> (trapframe option \<times> sys) exec" where
  "syscall_chdir g tf s = file_call g ((request g 12 s)\<lparr>i0 := sint (t_ebx tf)\<rparr>) tf s"

section \<open>Dispatch\<close>

text \<open>
  \<open>addr\<close> is the address of the frame. \<open>SYS_sleep\<close> gives the request to the timer; its answer
  comes when the time has passed (see Timer) and changes nothing in the frame. \<open>SYS_puts1\<close> only prints.
\<close>

definition sleep_request :: "world \<Rightarrow> trapframe \<Rightarrow> sys \<Rightarrow> msg" where
  "sleep_request g tf s = (request g (- 1) s)\<lparr>i0 := sint (t_ebx tf)\<rparr>"

definition syscall_sleep :: "world \<Rightarrow> int \<Rightarrow> trapframe \<Rightarrow> sys \<Rightarrow> timer \<Rightarrow> (trapframe option \<times> sys \<times> sends \<times> timer) exec" where
  "syscall_sleep g timer_pid tf s t =
     bindE (timer_driver_thread timer_pid (sleep_request g tf s) t) (\<lambda>(out, t).
       Inr (if out = [] then None else Some tf, s, out, t))"

definition do_syscall :: "world \<Rightarrow> int \<Rightarrow> int \<Rightarrow> trapframe \<Rightarrow> sys \<times> timer \<Rightarrow> (trapframe option \<times> sys \<times> timer) exec" where
  "do_syscall g timer_pid addr tf st =
     (let (s, t) = st; n = sint (t_eax tf); with_t = (\<lambda>r. bindE r (\<lambda>(x, s). Inr (x, s, t))) in
      if n = 1 then with_t (syscall_fork g addr tf s)
      else if n = 2 then with_t (syscall_exec g tf s)
      else if n = 3 then with_t (syscall_exit g tf s)
      else if n = 4 then with_t (syscall_getpid tf s)
      else if n = 5 then with_t (syscall_waitpid g tf s)
      else if n = 6 then with_t (syscall_puts g tf s)
      else if n = 9 then with_t (syscall_read_line g tf s)
      else if n = 10 then bindE (syscall_sleep g timer_pid tf s t) (\<lambda>(x, s, out, t). Inr (x, s, t))
      else if n = 11 then with_t (syscall_open g tf s)
      else if n = 12 then with_t (syscall_read g tf s)
      else if n = 13 then with_t (syscall_write g tf s)
      else if n = 14 then with_t (syscall_create g tf s)
      else if n = 15 then with_t (syscall_close g tf s)
      else if n = 16 then with_t (syscall_delete g tf s)
      else if n = 17 then with_t (syscall_lseek g tf s)
      else if n = 18 then with_t (syscall_dup g tf s)
      else if n = 19 then with_t (syscall_dup2 g tf s)
      else if n = 20 then with_t (syscall_mkdir g tf s)
      else if n = 21 then with_t (syscall_rmdir g tf s)
      else if n = 22 then with_t (syscall_lsdir g tf s)
      else if n = 23 then with_t (syscall_chdir g tf s)
      else Inr (Some tf, s, t))"

section \<open>Interrupts\<close>

type_synonym routine = nat

record irqs =
  handle_pool :: "nat \<Rightarrow> routine \<times> nat option"
  handles :: "nat \<Rightarrow> nat option"
  handle_count :: nat

text \<open>The test for a full pool lets one registration too many through.\<close>

definition add_irq_handle :: "int \<Rightarrow> routine \<Rightarrow> irqs \<Rightarrow> irqs exec" where
  "add_irq_handle irq f h =
     assertE (irq < 16) (guardE OutOfRange (0 \<le> irq)
       (if 32 < handle_count h then Inl Panic
        else guardE OutOfRange (handle_count h < 32)
          (let n = handle_count h in
           Inr (h\<lparr>handle_count := n + 1, handle_pool := (handle_pool h)(n := (f, handles h (nat irq))),
                  handles := (handles h)(nat irq := Some n)\<rparr>))))"

text \<open>The routines of an interrupt in the order they are called; the list follows \<open>fuel\<close> links at most.\<close>

fun routines :: "irqs \<Rightarrow> nat \<Rightarrow> nat option \<Rightarrow> routine list" where
  "routines h 0 p = []"
| "routines h (Suc fuel) p =
     (case p of None \<Rightarrow> [] | Some n \<Rightarrow> (case handle_pool h n of (f, q) \<Rightarrow> f # routines h fuel q))"

text \<open>
  What an interrupt leads to: a system call with the frame, the routines of a device, or a panic. A
  fault of a user process is turned into its exit.
\<close>

datatype action = Syscall trapframe | Routines "routine list"

definition irq_handle :: "irqs \<Rightarrow> int \<Rightarrow> trapframe \<Rightarrow> action exec" where
  "irq_handle h pid tf =
     (let irq = t_irq tf in
      if irq < 0 then Inl Panic
      else if irq = 0x80 then Inr (Syscall tf)
      else if irq < 1000 then
        (if 11 < pid then Inr (Syscall (tf\<lparr>t_eax := 3, t_ebx := 8\<rparr>)) else Inl Panic)
      else
        (let irq_id = irq - 1000 in
         assertE (irq_id < 16) (Inr (Routines (routines h 33 (handles h (nat irq_id)))))))"

section \<open>The interrupt descriptor table\<close>

record gate =
  offset_15_0 :: u16
  segment :: u16
  gtype :: u8
  system :: bool
  gprivilege :: nat
  gpresent :: bool
  offset_31_16 :: u16

definition set_gate :: "u8 \<Rightarrow> u32 \<Rightarrow> u32 \<Rightarrow> nat \<Rightarrow> gate" where
  "set_gate ty selector off dpl =
     \<lparr>offset_15_0 = ucast (off AND 0xFFFF), segment = ucast selector, gtype = ty, system = False,
      gprivilege = dpl, gpresent = True, offset_31_16 = ucast (drop_bit 16 off AND 0xFFFF)\<rparr>"

definition set_intr :: "u32 \<Rightarrow> u32 \<Rightarrow> nat \<Rightarrow> gate" where
  "set_intr = set_gate 0xE"

definition set_trap :: "u32 \<Rightarrow> u32 \<Rightarrow> nat \<Rightarrow> gate" where
  "set_trap = set_gate 0xF"

text \<open>The entry points in do_irq.S, whose addresses the linker chooses.\<close>

record entries =
  irq_empty :: u32
  vec :: "nat \<Rightarrow> u32"
  vecsys :: u32
  irq_entry :: "nat \<Rightarrow> u32"

definition init_idt :: "entries \<Rightarrow> gate list" where
  "init_idt e =
     (let idt = map (\<lambda>i. set_trap 8 (irq_empty e) 0) [0..<256];
          idt = fold (\<lambda>i idt. idt[i := set_trap 8 (vec e i) 0]) [0..<15] idt;
          idt = idt[0x80 := set_trap 8 (vecsys e) 3];
          idt = idt[32 := set_intr 8 (irq_entry e 0) 0];
          idt = idt[33 := set_intr 8 (irq_entry e 1) 0] in
      idt[46 := set_intr 8 (irq_entry e 14) 0])"

definition gate_target :: "gate \<Rightarrow> u32" where
  "gate_target d = ucast (offset_15_0 d) OR push_bit 16 (ucast (offset_31_16 d))"

text \<open>\<open>init_intr\<close>: the bytes written to the two interrupt controllers.\<close>

definition init_intr :: "(u16 \<times> u8) list" where
  "init_intr =
     [(0x21, 0xFF), (0xA1, 0xFF), (0x20, 0x11), (0x21, 32), (0x21, 4), (0x21, 3), (0xA0, 0x11), (0xA1, 40),
      (0xA1, 2), (0xA1, 3), (0x20, 0x68), (0x20, 0x0A), (0xA0, 0x68), (0xA0, 0x0A)]"

text \<open>The entry point the hardware is to call for a vector.\<close>

definition entry_of :: "entries \<Rightarrow> nat \<Rightarrow> u32" where
  "entry_of e i =
     (if i < 15 then vec e i else if i = 32 then irq_entry e 0 else if i = 33 then irq_entry e 1
      else if i = 46 then irq_entry e 14 else if i = 0x80 then vecsys e else irq_empty e)"

lemma gate_target_set: "gate_target (set_gate ty sel off dpl) = off"
proof (rule bit_word_eqI)
  fix n assume n: "n < LENGTH(32)"
  have m: "(0xFFFF :: u32) = mask 16" by (simp add: mask_eq_exp_minus_1)
  show "bit (gate_target (set_gate ty sel off dpl)) n = bit off n"
    using n unfolding gate_target_def set_gate_def m
    by (cases "n < 16") (auto simp: bit_or_iff bit_and_iff bit_push_bit_iff bit_ucast_iff bit_drop_bit_eq bit_mask_iff)
qed

lemma nth_vecs:
  "length idt = 256 \<Longrightarrow> length (fold (\<lambda>i idt. idt[i := f i]) ks idt) = 256 \<and>
    (\<forall>i < 256. fold (\<lambda>i idt. idt[i := f i]) ks idt ! i = (if i \<in> set ks then f i else idt ! i))"
  by (induction ks arbitrary: idt) (auto simp: nth_list_update)

text \<open>
  C37. The descriptor table is well formed: it has 256 present gates, all of them into the kernel's code
  segment; each leads to the entry point of its vector; only the gate of the system call may be used by
  user programs, and exactly the three device interrupts enter with interrupts off.
\<close>

theorem init_idt_gates:
  assumes "i < 256"
  shows "length (init_idt e) = 256 \<and> gpresent (init_idt e ! i) \<and> segment (init_idt e ! i) = 8 \<and>
    gate_target (init_idt e ! i) = entry_of e i \<and>
    gprivilege (init_idt e ! i) = (if i = 0x80 then 3 else 0) \<and>
    gtype (init_idt e ! i) = (if i \<in> {32, 33, 46} then 0xE else 0xF)"
proof -
  define b where "b = fold (\<lambda>i idt. idt[i := set_trap 8 (vec e i) 0]) [0..<15] (map (\<lambda>i. set_trap 8 (irq_empty e) 0) [0..<256])"
  have b: "length b = 256" "b ! i = (if i < 15 then set_trap 8 (vec e i) 0 else set_trap 8 (irq_empty e) 0)"
    using nth_vecs [of "map (\<lambda>i. set_trap 8 (irq_empty e) 0) [0..<256]" "\<lambda>i. set_trap 8 (vec e i) 0" "[0..<15]"] assms
    unfolding b_def by (auto simp del: upt_rec_numeral)
  have idt: "init_idt e = b[0x80 := set_trap 8 (vecsys e) 3, 32 := set_intr 8 (irq_entry e 0) 0,
      33 := set_intr 8 (irq_entry e 1) 0, 46 := set_intr 8 (irq_entry e 14) 0]"
    unfolding init_idt_def Let_def b_def ..
  have "init_idt e ! i = (if i \<in> {32, 33, 46} then set_intr else set_trap) 8 (entry_of e i) (if i = 0x80 then 3 else 0)"
    using b assms unfolding idt by (auto simp: nth_list_update entry_of_def)
  then show ?thesis using b(1) idt
    by (auto simp: set_trap_def set_intr_def gate_target_set simp del: upt_rec_numeral) (simp_all add: set_gate_def)
qed

theorem init_idt_gates_witness:
  "gate_target (init_idt \<lparr>irq_empty = 7, vec = of_nat, vecsys = 0xC0101234, irq_entry = of_nat\<rparr> ! 0x80) = 0xC0101234"
  using init_idt_gates [of 128 "\<lparr>irq_empty = 7, vec = of_nat, vecsys = 0xC0101234, irq_entry = of_nat\<rparr>"]
  by (simp add: entry_of_def)

section \<open>Starting the shell\<close>

text \<open>
  \<open>write_shell_program_to_file\<close> and \<open>write_first_program_to_file\<close> with the addresses of a name and of a
  program in kernel memory: open with creation, write, close.
\<close>

definition write_program :: "world \<Rightarrow> int \<Rightarrow> int \<Rightarrow> int \<Rightarrow> sys \<Rightarrow> sys exec" where
  "write_program g name text n s =
     (let p = current (kern s); m = (stack_msg g)\<lparr>src := p, i0 := name, i1 := 1, mtype := 0\<rparr> in
      bindE (call_file g m s) (\<lambda>(m, s).
        let fd = ret m; m = m\<lparr>src := p, i0 := p, i1 := fd, i2 := text, i3 := n, mtype := 2\<rparr> in
        bindE (call_file g m s) (\<lambda>(m, s).
        bindE (call_file g (m\<lparr>src := p, i0 := fd, mtype := 3\<rparr>) s) (\<lambda>(m, s). Inr s))))"

definition start_shell :: "world \<Rightarrow> int \<Rightarrow> sys \<Rightarrow> (msg option \<times> sys) exec" where
  "start_shell g shell_name s = call_manager g ((request g 1 s)\<lparr>i2 := shell_name\<rparr>) s"

definition create_shell :: "world \<Rightarrow> int \<Rightarrow> int \<times> int \<Rightarrow> int \<Rightarrow> int \<times> int \<Rightarrow> sys \<Rightarrow> (msg option \<times> sys) exec" where
  "create_shell g shell_name shell_prog first_name first_prog s =
     bindE (write_program g shell_name (fst shell_prog) (snd shell_prog) s) (\<lambda>s.
     bindE (write_program g first_name (fst first_prog) (snd first_prog) s) (start_shell g shell_name))"

end
