(* ===== verification/Console.thy ===== *)
theory Console
  imports Timer
begin

text \<open>
  The terminals (src/kernel/drivers/tty): consoles with a screen buffer of two screens, the line that is
  being edited, the queue of finished lines and the stack of waiting reads (console.c), the keyboard
  (keyboard.c), the banner (banner.c) and the server (tty.c). The four screen buffers lie one behind the
  other in one array \<open>vbuf\<close>; \<open>scr\<close> and \<open>pos\<close> are offsets from the buffer of the console, and an access
  behind the last buffer is \<open>OutOfRange\<close>.
\<close>

section \<open>State\<close>

abbreviation SCR_W :: int where "SCR_W \<equiv> 80"
abbreviation WH :: int where "WH \<equiv> 1920"
abbreviation VSIZE :: int where "VSIZE \<equiv> 3840"
abbreviation NR_TTY :: int where "NR_TTY \<equiv> 4"

record console =
  scr :: int
  pos :: int
  lbuf :: "u8 list"
  cbuf :: "u8 list"
  ci :: int
  cf :: int
  crr :: int
  rtop :: int
  rstk :: "msg list"

record ttys =
  consoles :: "nat \<Rightarrow> console"
  vbuf :: "nat \<Rightarrow> u16"
  vmem :: "nat \<Rightarrow> u16"
  cursor :: int
  current_consl :: nat
  banner :: "u8 list"
  tsc :: nat
  caps :: int
  ctrl :: int
  alt :: int
  shft :: int

definition upd_consl :: "nat \<Rightarrow> (console \<Rightarrow> console) \<Rightarrow> ttys \<Rightarrow> ttys" where
  "upd_consl t f s = s\<lparr>consoles := (consoles s)(t := f (consoles s t))\<rparr>"

text \<open>Cell \<open>k\<close> of the buffer of console \<open>t\<close>.\<close>

definition cell_at :: "nat \<Rightarrow> int \<Rightarrow> int" where
  "cell_at t k = VSIZE * int t + k"

definition get_cell :: "nat \<Rightarrow> int \<Rightarrow> ttys \<Rightarrow> u16 exec" where
  "get_cell t k s = guardE OutOfRange (0 \<le> cell_at t k \<and> cell_at t k < NR_TTY * VSIZE) (Inr (vbuf s (nat (cell_at t k))))"

definition set_cell :: "nat \<Rightarrow> int \<Rightarrow> u16 \<Rightarrow> ttys \<Rightarrow> ttys exec" where
  "set_cell t k x s =
     guardE OutOfRange (0 \<le> cell_at t k \<and> cell_at t k < NR_TTY * VSIZE)
       (Inr (s\<lparr>vbuf := (vbuf s)(nat (cell_at t k) := x)\<rparr>))"

section \<open>The screen\<close>

text \<open>White on black; a \<open>char\<close> is signed.\<close>

definition draw :: "u8 \<Rightarrow> u16" where
  "draw ch = 0x700 OR scast ch"

definition shift_cell :: "nat \<Rightarrow> int \<Rightarrow> ttys \<Rightarrow> ttys exec" where
  "shift_cell t i s = bindE (get_cell t i s) (\<lambda>x. set_cell t (i - SCR_W) x s)"

definition scrup :: "nat \<Rightarrow> ttys \<Rightarrow> ttys exec" where
  "scrup t s =
     bindE (if scr (consoles s t) + WH \<ge> VSIZE
            then bindE (fold_exec (shift_cell t) [SCR_W..VSIZE - 1] s) (\<lambda>s.
                   Inr (upd_consl t (\<lambda>c. c\<lparr>scr := scr c - SCR_W, pos := pos c - SCR_W\<rparr>) s))
            else Inr s)
       (\<lambda>s. bindE (fold_exec (\<lambda>i s. set_cell t (scr (consoles s t) + WH + i) (draw 32) s) [0..SCR_W - 1] s)
          (\<lambda>s. Inr (upd_consl t (\<lambda>c. c\<lparr>scr := scr c + SCR_W\<rparr>) s)))"

definition next_pos :: "nat \<Rightarrow> ttys \<Rightarrow> ttys exec" where
  "next_pos t s =
     bindE (if pos (consoles s t) = scr (consoles s t) + WH - 1 then scrup t s else Inr s)
       (\<lambda>s. Inr (upd_consl t (\<lambda>c. c\<lparr>pos := pos c + 1\<rparr>) s))"

definition putc :: "nat \<Rightarrow> u8 \<Rightarrow> ttys \<Rightarrow> ttys exec" where
  "putc t ch s = set_cell t (pos (consoles s t)) (draw ch) s"

definition cr :: "nat \<Rightarrow> ttys \<Rightarrow> ttys" where
  "cr t = upd_consl t (\<lambda>c. c\<lparr>pos := pos c - cmod (pos c) SCR_W\<rparr>)"

definition lf :: "nat \<Rightarrow> ttys \<Rightarrow> ttys exec" where
  "lf t s =
     (let s = upd_consl t (\<lambda>c. c\<lparr>pos := pos c + SCR_W\<rparr>) s in
      if pos (consoles s t) \<ge> scr (consoles s t) + WH then scrup t s else Inr s)"

definition del :: "nat \<Rightarrow> ttys \<Rightarrow> ttys exec" where
  "del t s = putc t 32 (upd_consl t (\<lambda>c. c\<lparr>pos := pos c - 1\<rparr>) s)"

text \<open>The visible part of the current console goes to the video memory, under the banner.\<close>

definition consl_sync :: "nat \<Rightarrow> ttys \<Rightarrow> ttys exec" where
  "consl_sync t s =
     (let s = s\<lparr>vmem := (\<lambda>i. if i < 80 then 0x1F00 OR scast (banner s ! i) else vmem s i)\<rparr>; c = consoles s t in
      if current_consl s = t then
        guardE OutOfRange (0 \<le> cell_at t (scr c) \<and> cell_at t (scr c) + WH \<le> NR_TTY * VSIZE)
          (Inr (s\<lparr>vmem := (\<lambda>i. if 80 \<le> i \<and> i < 80 + 1920 then vbuf s (nat (cell_at t (scr c)) + (i - 80)) else vmem s i),
                  cursor := (pos c - scr c + SCR_W) mod 65536\<rparr>))
      else Inr s)"

definition consl_writec :: "nat \<Rightarrow> u8 \<Rightarrow> ttys \<Rightarrow> ttys exec" where
  "consl_writec t ch s =
     (if ch = 13 then Inr (cr t s)
      else if ch = 10 then lf t (cr t s)
      else bindE (putc t ch s) (next_pos t))"

section \<open>The line\<close>

definition lbuf_at :: "nat \<Rightarrow> int \<Rightarrow> ttys \<Rightarrow> u8 exec" where
  "lbuf_at t k s =
     (let b = lbuf (consoles s t) in guardE OutOfRange (0 \<le> k \<and> k < int (length b)) (Inr (b ! nat k)))"

definition set_lbuf :: "nat \<Rightarrow> int \<Rightarrow> u8 \<Rightarrow> ttys \<Rightarrow> ttys exec" where
  "set_lbuf t k x s =
     guardE OutOfRange (0 \<le> k \<and> k < int (length (lbuf (consoles s t))))
       (Inr (upd_consl t (\<lambda>c. c\<lparr>lbuf := (lbuf c)[nat k := x]\<rparr>) s))"

definition movl :: "nat \<Rightarrow> ttys \<Rightarrow> bool \<times> ttys" where
  "movl t s =
     (if ci (consoles s t) \<noteq> 0 then (True, upd_consl t (\<lambda>c. c\<lparr>ci := ci c - 1, pos := pos c - 1\<rparr>) s) else (False, s))"

definition movr :: "nat \<Rightarrow> ttys \<Rightarrow> (bool \<times> ttys) exec" where
  "movr t s =
     bindE (lbuf_at t (ci (consoles s t)) s) (\<lambda>x.
       Inr (if x \<noteq> 0 then (True, upd_consl t (\<lambda>c. c\<lparr>ci := ci c + 1, pos := pos c + 1\<rparr>) s) else (False, s)))"

text \<open>\<open>while (movl(c))\<close>, \<open>while (movr(c))\<close>: \<open>HOME\<close> and \<open>END\<close>.\<close>

partial_function (option) home :: "nat \<Rightarrow> ttys \<Rightarrow> ttys option" where
  "home t s = (case movl t s of (b, s) \<Rightarrow> if b then home t s else Some s)"

partial_function (option) to_end :: "nat \<Rightarrow> ttys \<Rightarrow> ttys exec option" where
  "to_end t s =
     (case movr t s of Inl e \<Rightarrow> Some (Inl e) | Inr (b, s) \<Rightarrow> if b then to_end t s else Some (Inr s))"

text \<open>The loop of \<open>removec\<close> with the indices of \<open>ptr\<close> and \<open>scr\<close>; it ends at the end of \<open>lbuf\<close> at the latest.\<close>

function removec_loop :: "nat \<Rightarrow> int \<Rightarrow> int \<Rightarrow> ttys \<Rightarrow> ttys exec" where
  "removec_loop t p q s =
     bindE (lbuf_at t p s) (\<lambda>x.
       if x \<noteq> 0 then
         bindE (lbuf_at t (p + 1) s) (\<lambda>y.
         bindE (set_lbuf t p y s) (\<lambda>s.
         bindE (get_cell t (q + 1) s) (\<lambda>z.
         bindE (set_cell t q z s) (removec_loop t (p + 1) (q + 1)))))
       else Inr s)"
  by pat_completeness auto
termination
  by (relation "measure (\<lambda>(t, p, q, s). nat (int (length (lbuf (consoles s t))) - p))")
    (auto simp: lbuf_at_def set_lbuf_def get_cell_def set_cell_def upd_consl_def guardE_def Let_def split: if_splits)

declare removec_loop.simps [simp del]

definition removec :: "nat \<Rightarrow> ttys \<Rightarrow> ttys exec" where
  "removec t s =
     (let s = upd_consl t (\<lambda>c. c\<lparr>ci := ci c - 1\<rparr>) s in removec_loop t (ci (consoles s t)) (pos (consoles s t) - 1) s)"

definition backsp :: "nat \<Rightarrow> ttys \<Rightarrow> ttys exec" where
  "backsp t s =
     (if 0 < ci (consoles s t) then
        bindE (removec t s) (\<lambda>s.
        bindE (lbuf_at t (ci (consoles s t)) s) (\<lambda>x.
          if x = 0 then del t s else Inr (upd_consl t (\<lambda>c. c\<lparr>pos := pos c - 1\<rparr>) s)))
      else Inr s)"

text \<open>
  The shifting loop of \<open>consl_accept\<close>, for \<open>i\<close> down to 1: a character of the line and a cell of the screen;
  the screen scrolls when the last cell has been passed.
\<close>

definition accept_step :: "nat \<Rightarrow> int \<Rightarrow> ttys \<Rightarrow> ttys exec" where
  "accept_step t i s =
     guardE Panic (ci (consoles s t) + i < 256)
       (bindE (lbuf_at t (ci (consoles s t) + i - 1) s) (\<lambda>x.
        bindE (set_lbuf t (ci (consoles s t) + i) x s) (\<lambda>s.
        bindE (if pos (consoles s t) + i = scr (consoles s t) + WH + 1 then scrup t s else Inr s) (\<lambda>s.
        bindE (get_cell t (pos (consoles s t) + i - 1) s) (\<lambda>z.
          set_cell t (pos (consoles s t) + i) z s)))))"

definition consl_accept :: "nat \<Rightarrow> u8 \<Rightarrow> ttys \<Rightarrow> ttys exec" where
  "consl_accept t ch s =
     (let c = consoles s t in
      guardE OutOfRange (0 \<le> ci c)
        (bindE (strlen (drop (nat (ci c)) (lbuf c))) (\<lambda>cc.
         bindE (fold_exec (accept_step t) (rev [1..int cc + 1]) s) (\<lambda>s.
         bindE (putc t ch s) (\<lambda>s.
         bindE (next_pos t s) (\<lambda>s.
         guardE Panic (ci (consoles s t) < 256)
           (bindE (set_lbuf t (ci (consoles s t)) ch s) (\<lambda>s.
             consl_sync t (upd_consl t (\<lambda>c. c\<lparr>ci := ci c + 1\<rparr>) s)))))))))"

section \<open>Finished lines\<close>

text \<open>
  \<open>get_cooked\<close> for \<open>n\<close> rounds of its loop: the bytes up to the end of the line, which are copied to the
  reader one by one.
\<close>

fun cooked_loop :: "u8 list \<Rightarrow> nat \<Rightarrow> int \<Rightarrow> (u8 list \<times> int) exec" where
  "cooked_loop b 0 f = Inr ([], f)"
| "cooked_loop b (Suc n) f =
     guardE OutOfRange (0 \<le> f \<and> f < int (length b))
       (if b ! nat f = 0 then Inr ([], (f + 1) mod 1024)
        else bindE (cooked_loop b n ((f + 1) mod 1024)) (\<lambda>(bs, f'). Inr (b ! nat f # bs, f')))"

definition get_cooked :: "nat \<Rightarrow> int \<Rightarrow> ttys \<Rightarrow> (u8 list \<times> ttys) exec" where
  "get_cooked t count s =
     (let c = consoles s t in
      assertE (cf c \<noteq> crr c)
        (bindE (cooked_loop (cbuf c) (unat (u32_of count)) (cf c)) (\<lambda>(bs, f).
          Inr (bs, upd_consl t (\<lambda>c. c\<lparr>cf := f\<rparr>) s))))"

text \<open>An answer: receiver, message, and the bytes stored in the memory of the requesting process.\<close>

type_synonym tty_answer = "(int \<times> msg \<times> u8 list) option"

definition read_request :: "int \<Rightarrow> msg \<Rightarrow> ttys \<Rightarrow> (tty_answer \<times> ttys) exec" where
  "read_request self m s =
     guardE OutOfRange (0 \<le> dev_id m \<and> dev_id m < NR_TTY)
       (let t = nat (dev_id m); c = consoles s t in
        if cf c = crr c then
          (if rtop c = 16 then Inl Panic
           else guardE OutOfRange (0 \<le> rtop c \<and> rtop c < int (length (rstk c)))
             (Inr (None, upd_consl t (\<lambda>c. c\<lparr>rstk := (rstk c)[nat (rtop c) := m], rtop := rtop c + 1\<rparr>) s)))
        else assertE (0 \<le> req_pid m \<and> req_pid m < POOL_NUM)
          (bindE (get_cooked t (i4 m) s) (\<lambda>(bs, s).
            Inr (Some (src m, m\<lparr>mtype := int (length bs), src := self\<rparr>, bs), s))))"

text \<open>The copying loop of \<open>cook\<close>, with its test for a full queue behind every character.\<close>

fun cook_loop :: "nat \<Rightarrow> u8 list \<Rightarrow> ttys \<Rightarrow> ttys exec" where
  "cook_loop t [] s = Inl OutOfRange"
| "cook_loop t (x # xs) s =
     (let c = consoles s t in
      guardE OutOfRange (0 \<le> crr c \<and> crr c < int (length (cbuf c)))
        (let s = upd_consl t (\<lambda>c. c\<lparr>cbuf := (cbuf c)[nat (crr c) := x], crr := (crr c + 1) mod 1024\<rparr>) s in
         if crr (consoles s t) = cf (consoles s t) then Inl Panic
         else if x \<noteq> 0 then cook_loop t xs s else Inr s))"

definition cook :: "int \<Rightarrow> nat \<Rightarrow> ttys \<Rightarrow> (tty_answer \<times> ttys) exec" where
  "cook self t s =
     bindE (cook_loop t (lbuf (consoles s t)) s) (\<lambda>s.
     bindE (set_lbuf t 0 0 (upd_consl t (\<lambda>c. c\<lparr>ci := 0\<rparr>) s)) (\<lambda>s.
     bindE (lf t (cr t s)) (\<lambda>s.
       if rtop (consoles s t) \<noteq> 0 then
         let s = upd_consl t (\<lambda>c. c\<lparr>rtop := rtop c - 1\<rparr>) s; c = consoles s t in
         guardE OutOfRange (0 \<le> rtop c \<and> rtop c < int (length (rstk c)))
           (read_request self (rstk c ! nat (rtop c)) s)
       else Inr (None, s))))"

section \<open>Keys\<close>

text \<open>\<open>consl_feed\<close>: the scan codes of term.h.\<close>

definition consl_feed :: "int \<Rightarrow> nat \<Rightarrow> int \<Rightarrow> ttys \<Rightarrow> (tty_answer \<times> ttys) exec" where
  "consl_feed self t key s =
     (let plain = (\<lambda>r. bindE r (\<lambda>s. Inr (None, t, s))) in
      bindE (if key = 28 then bindE (cook self t s) (\<lambda>(a, s). Inr (a, t, s))
             else if key = 83 then plain (bindE (movr t s) (\<lambda>(b, s). backsp t s))
             else if key = 14 then plain (backsp t s)
             else if key = 75 then Inr (None, t, snd (movl t s))
             else if key = 77 then plain (bindE (movr t s) (\<lambda>(b, s). Inr s))
             else if key = 71 then (case home t s of None \<Rightarrow> Inl Loops | Some s \<Rightarrow> Inr (None, t, s))
             else if key = 79 then (case to_end t s of None \<Rightarrow> Inl Loops | Some r \<Rightarrow> plain r)
             else if 59 \<le> key \<and> key \<le> 64 \<and> key - 59 < NR_TTY
                  then Inr (None, nat (key - 59), s\<lparr>current_consl := nat (key - 59)\<rparr>)
             else Inr (None, t, s))
        (\<lambda>(a, t, s). bindE (consl_sync t s) (\<lambda>s. Inr (a, s))))"

definition chars :: "string \<Rightarrow> int list" where
  "chars = map of_char"

definition keychar :: "int list list" where
  "keychar =
     [[0, 0] @ chars ''1234567890-='' @ [0, 0] @ chars ''qwertyuiop[]'' @ [0, 0] @ chars ''asdfghjkl;'' @ [39] @
        chars ''`'' @ [0, 92] @ chars ''zxcvbnm,./'' @ [0, 0, 0] @ chars '' '' @ replicate 70 0,
      [0, 0] @ chars ''!@#$%^&*()_+'' @ [0, 0] @ chars ''QWERTYUIOP{}'' @ [0, 0] @ chars ''ASDFGHJKL:'' @ [34] @
        chars ''~'' @ [0] @ chars ''|'' @ chars ''ZXCVBNM<>?'' @ [0, 0, 0] @ chars '' '' @ replicate 70 0]"

text \<open>The lowest bit of a counter of pressed keys, as \<open>& 1\<close> takes it.\<close>

definition low_bit :: "int \<Rightarrow> int" where
  "low_bit x = x mod 2"

definition release_key :: "int \<Rightarrow> ttys \<Rightarrow> ttys" where
  "release_key code s =
     (if code = 42 then s\<lparr>shft := i32 (shft s - 1)\<rparr>
      else if code = 54 then s\<lparr>shft := i32 (shft s - 1)\<rparr>
      else if code = 29 then s\<lparr>ctrl := i32 (ctrl s - 1)\<rparr>
      else if code = 56 then s\<lparr>alt := i32 (alt s - 1)\<rparr>
      else if code = 58 then s\<lparr>caps := low_bit (caps s)\<rparr>
      else s)"

definition key_of :: "int \<Rightarrow> ttys \<Rightarrow> int" where
  "key_of code s =
     (let c = keychar ! 0 ! nat code in
      if 97 \<le> c \<and> c \<le> 122 then keychar ! nat (if low_bit (shft s) = low_bit (caps s) then 0 else 1) ! nat code
      else keychar ! nat (low_bit (shft s)) ! nat code)"

text \<open>\<open>code\<close> is the byte of the keyboard port; \<open>F12\<close> stops the kernel.\<close>

definition readkey :: "int \<Rightarrow> u8 \<Rightarrow> ttys \<Rightarrow> (tty_answer \<times> ttys) exec" where
  "readkey self byte s =
     (let code = uint byte in
      if 128 \<le> code then Inr (None, release_key (code - 128) s)
      else
        bindE (if key_of code s \<noteq> 0 then consl_accept (current_consl s) (word_of_int (key_of code s)) s else Inr s) (\<lambda>s.
          if code \<in> {28, 14, 75, 77, 71, 79, 83, 59, 60, 61, 62, 63, 64}
          then consl_feed self (current_consl s) code s
          else if code = 88 then Inl AssertFail
          else Inr (None,
            if code = 42 \<or> code = 54 then s\<lparr>shft := i32 (shft s + 1)\<rparr>
            else if code = 29 then s\<lparr>ctrl := i32 (ctrl s + 1)\<rparr>
            else if code = 56 then s\<lparr>alt := i32 (alt s + 1)\<rparr>
            else if code = 58 then s\<lparr>caps := i32 (caps s + 1)\<rparr>
            else s)))"

section \<open>The banner\<close>

definition draw2 :: "int \<Rightarrow> u8 list" where
  "draw2 q = [word_of_int (q div 10 + 48), word_of_int (q mod 10 + 48)]"

definition put_at :: "nat \<Rightarrow> u8 list \<Rightarrow> u8 list \<Rightarrow> u8 list" where
  "put_at n xs b = take n b @ xs @ drop (n + length xs) b"

definition update_banner :: "time \<Rightarrow> ttys \<Rightarrow> ttys exec" where
  "update_banner tm s =
     (let b = put_at 1 [[45, 92, 124, 47] ! tsc s] (banner s);
          b = put_at 60 ([50, 48] @ draw2 (year tm mod 100) @ [47] @ draw2 (month tm) @ [47] @ draw2 (day tm) @ [32] @
                draw2 (hour tm) @ [58] @ draw2 (minute tm) @ [58] @ draw2 (second tm)) b;
          b = put_at 3 [116, 116, 121, 49 + of_nat (current_consl s)] b in
      consl_sync (current_consl s) (s\<lparr>tsc := (tsc s + 1) mod 4, banner := b\<rparr>))"

section \<open>The server\<close>

definition write_chars :: "nat \<Rightarrow> u8 list \<Rightarrow> ttys \<Rightarrow> ttys exec" where
  "write_chars t = fold_exec (consl_writec t)"

text \<open>\<open>mem\<close>: the bytes from \<open>m.buf\<close> on in the memory of the requesting process.\<close>

definition tty_write :: "int \<Rightarrow> msg \<Rightarrow> (nat \<Rightarrow> u8) \<Rightarrow> ttys \<Rightarrow> (tty_answer \<times> ttys) exec" where
  "tty_write self m mem s =
     assertE (0 \<le> dev_id m \<and> dev_id m < NR_TTY)
       (assertE (i4 m \<le> 0 \<or> 0 \<le> req_pid m \<and> req_pid m < POOL_NUM)
         (bindE (write_chars (nat (dev_id m)) (map mem [0..<nat (i4 m)]) s) (\<lambda>s.
          bindE (consl_sync (nat (dev_id m)) s) (\<lambda>s.
            Inr (Some (src m, m\<lparr>mtype := i4 m, src := self\<rparr>, []), s)))))"

definition ttyd :: "int \<Rightarrow> u8 \<Rightarrow> time \<Rightarrow> (nat \<Rightarrow> u8) \<Rightarrow> msg \<Rightarrow> ttys \<Rightarrow> (tty_answer \<times> ttys) exec" where
  "ttyd self byte tm mem m s =
     (if src m = MSG_HARD_INTR then
        (if mtype m = 1 then readkey self byte s
         else if mtype m = 2 then bindE (update_banner tm s) (\<lambda>s. Inr (None, s))
         else Inl AssertFail)
      else if mtype m = DEV_READ then read_request self m s
      else if mtype m = DEV_WRITE then tty_write self m mem s
      else Inl AssertFail)"

text \<open>\<open>init_consl\<close> clears the first screen of a console; \<open>init_console\<close> does so for all of them.\<close>

definition init_consl :: "nat \<Rightarrow> ttys \<Rightarrow> ttys exec" where
  "init_consl t s =
     (let s = upd_consl t (\<lambda>c. c\<lparr>scr := 0, pos := 0, lbuf := (lbuf c)[0 := 0], ci := 0, cf := 0, crr := 0, rtop := 0\<rparr>) s in
      bindE (fold_exec (\<lambda>i. set_cell t i (draw 32)) [0..WH - 1] s) (consl_sync t))"

definition init_console :: "ttys \<Rightarrow> ttys exec" where
  "init_console s =
     bindE (fold_exec init_consl [0..<4] (s\<lparr>banner := replicate 80 32 @ [0]\<rparr>)) (\<lambda>s. Inr (s\<lparr>current_consl := 0\<rparr>))"

text \<open>\<open>getty\<close>: what it writes back for a line it has read.\<close>

definition upcase :: "u8 \<Rightarrow> u8" where
  "upcase x = (if 97 \<le> x \<and> x \<le> 122 then x - 32 else x)"

definition getty_line :: "u8 list \<Rightarrow> u8 list" where
  "getty_line = map upcase"

end
