(* ===== verification/Console_Line.thy ===== *)
theory Console_Line
  imports Console
begin

text \<open>
  The line editor of a terminal against a reference: a pair of the text in front of the cursor and the
  text behind it.
\<close>

section \<open>The reference\<close>

datatype key = Type u8 | Back | Del | Left | Right | Home | End

type_synonym zipper = "u8 list \<times> u8 list"

fun edit :: "key \<Rightarrow> zipper \<Rightarrow> zipper" where
  "edit (Type c) (l, r) = (l @ [c], r)"
| "edit Back (l, r) = (butlast l, r)"
| "edit Del (l, r) = (if r = [] then (butlast l, []) else (l, tl r))"
| "edit Left (l, r) = (if l = [] then (l, r) else (butlast l, last l # r))"
| "edit Right (l, r) = (if r = [] then (l, r) else (l @ [hd r], tl r))"
| "edit Home (l, r) = ([], l @ r)"
| "edit End (l, r) = (l @ r, [])"

fun press :: "int \<Rightarrow> nat \<Rightarrow> key \<Rightarrow> ttys \<Rightarrow> ttys exec" where
  "press self t (Type c) s = consl_accept t c s"
| "press self t Back s = bindE (consl_feed self t 14 s) (\<lambda>(a, s). Inr s)"
| "press self t Del s = bindE (consl_feed self t 83 s) (\<lambda>(a, s). Inr s)"
| "press self t Left s = bindE (consl_feed self t 75 s) (\<lambda>(a, s). Inr s)"
| "press self t Right s = bindE (consl_feed self t 77 s) (\<lambda>(a, s). Inr s)"
| "press self t Home s = bindE (consl_feed self t 71 s) (\<lambda>(a, s). Inr s)"
| "press self t End s = bindE (consl_feed self t 79 s) (\<lambda>(a, s). Inr s)"

fun fits :: "key \<Rightarrow> zipper \<Rightarrow> bool" where
  "fits (Type c) (l, r) \<longleftrightarrow> c \<noteq> 0 \<and> length l + length r < 255"
| "fits k z \<longleftrightarrow> True"

section \<open>The line in the buffer\<close>

text \<open>
  The line lies in \<open>lbuf\<close> with the cursor \<open>ci\<close> between its halves; the screen has whole rows, and the
  line ends inside the window or in the cell behind it.
\<close>

definition window :: "console \<Rightarrow> bool" where
  "window c \<longleftrightarrow> 80 dvd scr c \<and> 0 \<le> scr c \<and> scr c \<le> 1920"

definition holds_line :: "zipper \<Rightarrow> console \<Rightarrow> bool" where
  "holds_line z c \<longleftrightarrow>
     (\<exists>rest. lbuf c = fst z @ snd z @ 0 # rest) \<and> length (lbuf c) = 257 \<and>
     ci c = int (length (fst z)) \<and> 0 \<notin> set (fst z @ snd z) \<and> length (fst z) + length (snd z) \<le> 255 \<and>
     window c \<and> int (length (fst z)) \<le> pos c \<and> pos c + int (length (snd z)) \<le> scr c + 1920"

text \<open>
  What the editing keys leave alone: the queue of finished lines, the waiting reads, and the column of the
  screen where the line begins, so that the screen's cursor moves with the line's.
\<close>

definition kept :: "console \<Rightarrow> u8 list \<times> int \<times> int \<times> int \<times> msg list \<times> int" where
  "kept c = (cbuf c, cf c, crr c, rtop c, rstk c, (pos c - ci c) mod 80)"

section \<open>Operations that do not stop\<close>

named_theorems tty_simps

lemma consoles_upd [simp]: "consoles (upd_consl t f s) = (consoles s)(t := f (consoles s t))"
  by (simp add: upd_consl_def)

lemma upd_vbuf [simp]: "upd_consl t f (s\<lparr>vbuf := v\<rparr>) = (upd_consl t f s)\<lparr>vbuf := v\<rparr>"
  by (simp add: upd_consl_def)

lemma vbuf_last [simp]: "s\<lparr>vbuf := v, consoles := f\<rparr> = s\<lparr>consoles := f, vbuf := v\<rparr>"
  by simp

lemma vbuf_upd [simp]: "vbuf (upd_consl t f s) = vbuf s"
  by (simp add: upd_consl_def)

lemma upd_upd [simp]: "upd_consl t f (upd_consl t g s) = upd_consl t (\<lambda>c. f (g c)) s"
  by (simp add: upd_consl_def)

lemma in_cells:
  assumes "t < 3" and "0 \<le> k" and "k \<le> 3840"
  shows "0 \<le> cell_at t k \<and> cell_at t k < NR_TTY * VSIZE"
  using assms by (simp add: cell_at_def)

lemma get_cell_ok: "t < 3 \<Longrightarrow> 0 \<le> k \<Longrightarrow> k \<le> 3840 \<Longrightarrow> \<exists>x. get_cell t k s = Inr x"
  using in_cells [of t k] by (simp add: get_cell_def)

lemma set_cell_ok: "t < 3 \<Longrightarrow> 0 \<le> k \<Longrightarrow> k \<le> 3840 \<Longrightarrow> \<exists>v. set_cell t k x s = Inr (s\<lparr>vbuf := v\<rparr>)"
  using in_cells [of t k] by (auto simp: set_cell_def)

lemma putc_ok:
  "t < 3 \<Longrightarrow> 0 \<le> pos (consoles s t) \<Longrightarrow> pos (consoles s t) \<le> 3840 \<Longrightarrow> \<exists>v. putc t ch s = Inr (s\<lparr>vbuf := v\<rparr>)"
  by (simp add: putc_def set_cell_ok)

lemma fold_vbuf_ok:
  assumes "\<And>x v. x \<in> set xs \<Longrightarrow> \<exists>w. f x (s\<lparr>vbuf := v\<rparr>) = Inr (s\<lparr>vbuf := w\<rparr>)"
  shows "\<exists>w. fold_exec f xs (s\<lparr>vbuf := v\<rparr>) = Inr (s\<lparr>vbuf := w\<rparr>)"
  using assms
proof (induction xs arbitrary: v)
  case (Cons x xs)
  obtain w where w: "f x (s\<lparr>vbuf := v\<rparr>) = Inr (s\<lparr>vbuf := w\<rparr>)" using Cons.prems [of x v] by auto
  have "\<exists>u. fold_exec f xs (s\<lparr>vbuf := w\<rparr>) = Inr (s\<lparr>vbuf := u\<rparr>)" using Cons by auto
  with w show ?case by simp
qed auto

lemma shift_cell_ok:
  assumes "t < 3" and "80 \<le> i" and "i \<le> 3839"
  shows "\<exists>v. shift_cell t i s = Inr (s\<lparr>vbuf := v\<rparr>)"
proof -
  obtain x where "get_cell t i s = Inr x" using get_cell_ok [of t i s] assms by auto
  then show ?thesis using set_cell_ok [of t "i - 80"] assms by (simp add: shift_cell_def)
qed

lemma set_cell_v:
  assumes "t < 3" and "0 \<le> k" and "k \<le> 3840"
  shows "\<exists>w. set_cell t k x (s\<lparr>vbuf := v\<rparr>) = Inr (s\<lparr>vbuf := w\<rparr>)"
  using set_cell_ok [OF assms, of x "s\<lparr>vbuf := v\<rparr>"] by simp

text \<open>The screen scrolls by a row: the window moves, or the text below it does.\<close>

definition scrolled :: "console \<Rightarrow> console" where
  "scrolled c = (if scr c = 1920 then c\<lparr>pos := pos c - 80\<rparr> else c\<lparr>scr := scr c + 80\<rparr>)"

lemma scrup_ok:
  assumes t: "t < 3" and a: "80 dvd scr (consoles s t)" "0 \<le> scr (consoles s t)" "scr (consoles s t) \<le> 1920"
  shows "\<exists>v. scrup t s = Inr (upd_consl t scrolled (s\<lparr>vbuf := v\<rparr>))"
proof -
  define f where "f = (\<lambda>c :: console. if scr c = 1920 then c\<lparr>scr := scr c - 80, pos := pos c - 80\<rparr> else c)"
  have "\<exists>v. (if scr (consoles s t) + WH \<ge> VSIZE
            then bindE (fold_exec (shift_cell t) [SCR_W..VSIZE - 1] s) (\<lambda>s.
                   Inr (upd_consl t (\<lambda>c. c\<lparr>scr := scr c - SCR_W, pos := pos c - SCR_W\<rparr>) s))
            else Inr s) = Inr ((upd_consl t f s)\<lparr>vbuf := v\<rparr>)"
  proof (cases "scr (consoles s t) = 1920")
    case True
    have sh: "\<exists>w. shift_cell t i (s\<lparr>vbuf := v\<rparr>) = Inr (s\<lparr>vbuf := w\<rparr>)" if "i \<in> set [SCR_W..VSIZE - 1]" for i v
    proof -
      from that have "80 \<le> i \<and> i \<le> 3839" by (simp only: set_upto atLeastAtMost_iff) auto
      then show ?thesis using shift_cell_ok [of t i "s\<lparr>vbuf := v\<rparr>"] t by auto
    qed
    have "\<exists>w. fold_exec (shift_cell t) [SCR_W..VSIZE - 1] (s\<lparr>vbuf := vbuf s\<rparr>) = Inr (s\<lparr>vbuf := w\<rparr>)"
      by (rule fold_vbuf_ok) (rule sh)
    moreover have "s\<lparr>vbuf := vbuf s\<rparr> = s" by simp
    ultimately obtain w where w: "fold_exec (shift_cell t) [SCR_W..VSIZE - 1] s = Inr (s\<lparr>vbuf := w\<rparr>)"
      by (elim exE) (simp only:)
    have "upd_consl t (\<lambda>c. c\<lparr>scr := scr c - SCR_W, pos := pos c - SCR_W\<rparr>) s = upd_consl t f s"
      using True by (simp add: f_def upd_consl_def)
    then show ?thesis using True w by (auto simp del: One_nat_def)
  next
    case False
    then have "upd_consl t f s = s" by (simp add: f_def upd_consl_def)
    then show ?thesis using False a(3) by (auto intro: exI [of _ "vbuf s"])
  qed
  then obtain v where v: "(if scr (consoles s t) + WH \<ge> VSIZE
            then bindE (fold_exec (shift_cell t) [SCR_W..VSIZE - 1] s) (\<lambda>s.
                   Inr (upd_consl t (\<lambda>c. c\<lparr>scr := scr c - SCR_W, pos := pos c - SCR_W\<rparr>) s))
            else Inr s) = Inr ((upd_consl t f s)\<lparr>vbuf := v\<rparr>)" ..
  have r: "0 \<le> scr (f (consoles s t))" "scr (f (consoles s t)) \<le> 1840"
    using a by (auto simp: f_def dvd_def)
  have bl: "\<exists>w. set_cell t (scr (consoles (upd_consl t f s\<lparr>vbuf := v\<rparr>) t) + WH + i) (draw 32) (upd_consl t f s\<lparr>vbuf := v\<rparr>)
      = Inr (upd_consl t f s\<lparr>vbuf := w\<rparr>)" if "i \<in> set [0..SCR_W - 1]" for i v
  proof -
    from that have "0 \<le> i \<and> i \<le> 79" by (simp only: set_upto atLeastAtMost_iff) auto
    then show ?thesis using set_cell_v [of t "scr (f (consoles s t)) + 1920 + i"] t r by simp
  qed
  have "\<exists>w. fold_exec (\<lambda>i s. set_cell t (scr (consoles s t) + WH + i) (draw 32) s) [0..SCR_W - 1]
    (upd_consl t f s\<lparr>vbuf := v\<rparr>) = Inr (upd_consl t f s\<lparr>vbuf := w\<rparr>)" by (rule fold_vbuf_ok) (rule bl)
  then obtain w where w: "fold_exec (\<lambda>i s. set_cell t (scr (consoles s t) + WH + i) (draw 32) s) [0..SCR_W - 1]
    (upd_consl t f s\<lparr>vbuf := v\<rparr>) = Inr (upd_consl t f s\<lparr>vbuf := w\<rparr>)" ..
  have e: "(f c)\<lparr>scr := scr (f c) + SCR_W\<rparr> = scrolled c" for c
    by (simp add: f_def scrolled_def)
  show ?thesis unfolding scrup_def v using w by (auto simp: e)
qed

lemma scrolled_simps [simp]:
  "lbuf (scrolled c) = lbuf c" "ci (scrolled c) = ci c" "cbuf (scrolled c) = cbuf c" "cf (scrolled c) = cf c"
  "crr (scrolled c) = crr c" "rtop (scrolled c) = rtop c" "rstk (scrolled c) = rstk c"
  by (simp_all add: scrolled_def)

lemma scrolled_lbuf [simp]: "scrolled (c\<lparr>lbuf := b\<rparr>) = (scrolled c)\<lparr>lbuf := b\<rparr>"
  by (simp add: scrolled_def)

lemma window_scrolled: "window c \<Longrightarrow> window (scrolled c)"
  by (auto simp: window_def scrolled_def; presburger)

lemma scrup_window: "t < 3 \<Longrightarrow> window (consoles s t) \<Longrightarrow> \<exists>v. scrup t s = Inr (upd_consl t scrolled (s\<lparr>vbuf := v\<rparr>))"
  by (rule scrup_ok) (simp_all add: window_def)

lemma upd_id [simp]: "upd_consl t (\<lambda>c. c) s = s"
  by (simp add: upd_consl_def)

lemma next_pos_ok:
  assumes "t < 3" and "window (consoles s t)"
  shows "\<exists>v. next_pos t s =
    Inr (upd_consl t (\<lambda>c. (if pos c = scr c + 1919 then scrolled c else c)\<lparr>pos := pos (if pos c = scr c + 1919 then scrolled c else c) + 1\<rparr>) (s\<lparr>vbuf := v\<rparr>))"
proof (cases "pos (consoles s t) = scr (consoles s t) + 1919")
  case True
  obtain v where "scrup t s = Inr (upd_consl t scrolled (s\<lparr>vbuf := v\<rparr>))" using scrup_window [OF assms] ..
  then have "next_pos t s = Inr ((upd_consl t (\<lambda>c. (scrolled c)\<lparr>pos := pos (scrolled c) + 1\<rparr>) s)\<lparr>vbuf := v\<rparr>)"
    using True by (simp add: next_pos_def)
  then show ?thesis using True by (auto simp: upd_consl_def)
next
  case False
  have "s = s\<lparr>vbuf := vbuf s\<rparr>" by simp
  then show ?thesis using False by (auto simp: next_pos_def upd_consl_def intro!: exI [of _ "vbuf s"])
qed

lemma consl_sync_all:
  assumes "t < 4" and "window (consoles s t)"
  shows "\<exists>s'. consl_sync t s = Inr s' \<and> consoles s' = consoles s \<and> current_consl s' = current_consl s"
  using assms by (simp add: consl_sync_def window_def Let_def cell_at_def)

lemma consl_sync_ok:
  assumes "t < 3" and "window (consoles s t)"
  shows "\<exists>s'. consl_sync t s = Inr s' \<and> consoles s' = consoles s \<and> current_consl s' = current_consl s"
  by (rule consl_sync_all) (use assms in simp_all)

section \<open>Typing\<close>

definition shift :: "'a list \<Rightarrow> nat \<Rightarrow> nat \<Rightarrow> 'a list" where
  "shift b n m = take (n + 1) b @ take m (drop n b) @ drop (n + m + 1) b"

lemma shift_0 [simp]: "n < length b \<Longrightarrow> shift b n 0 = b"
  by (simp add: shift_def)

lemma length_shift [simp]: "n + m < length b \<Longrightarrow> length (shift b n m) = length b"
  by (simp add: shift_def)

lemma shift_Suc:
  assumes "n + m + 1 < length b"
  shows "shift (b[n + m + 1 := b ! (n + m)]) n m = shift b n (Suc m)"
proof -
  have "drop (n + m + 1) (b[n + m + 1 := b ! (n + m)]) = b ! (n + m) # drop (n + m + 2) b"
    using assms by (simp add: drop_update_swap Cons_nth_drop_Suc [symmetric])
  moreover have "take (Suc m) (drop n b) = take m (drop n b) @ [b ! (n + m)]"
    using assms by (simp add: take_Suc_conv_app_nth)
  ultimately show ?thesis by (simp add: shift_def take_drop)
qed

lemma shift_line: "shift (l @ r @ 0 # x # rest) (length l) (length r + 1) = l @ hd (r @ [0]) # r @ 0 # rest"
  by (cases r) (simp_all add: shift_def numeral_2_eq_2 numeral_3_eq_3)

lemma accept_step_ok:
  assumes t: "t < 3" and w: "window (consoles s t)" and n: "ci (consoles s t) = int n"
    and b: "length (lbuf (consoles s t)) = 257" and m: "n + m + 1 < 256"
    and p: "0 \<le> pos (consoles s t)" "pos (consoles s t) + int m \<le> scr (consoles s t) + 1920"
  shows "\<exists>v. accept_step t (int m + 1) s =
    Inr (upd_consl t (\<lambda>c. (if pos c + int m = scr c + 1920 then scrolled c else c)
      \<lparr>lbuf := (lbuf c)[n + m + 1 := lbuf c ! (n + m)]\<rparr>) (s\<lparr>vbuf := v\<rparr>))"
proof -
  let ?s = "upd_consl t (\<lambda>c. c\<lparr>lbuf := (lbuf c)[n + m + 1 := lbuf c ! (n + m)]\<rparr>) s"
  let ?g = "\<lambda>c. (if pos c + int m = scr c + 1920 then scrolled c else c)
      \<lparr>lbuf := (lbuf c)[n + m + 1 := lbuf c ! (n + m)]\<rparr>"
  have l: "lbuf_at t (ci (consoles s t) + (int m + 1) - 1) s = Inr (lbuf (consoles s t) ! (n + m))"
    using b m by (simp add: lbuf_at_def n nat_add_distrib Let_def)
  have e: "nat (int n + (int m + 1)) = n + m + 1" by simp
  have sl: "set_lbuf t (ci (consoles s t) + (int m + 1)) (lbuf (consoles s t) ! (n + m)) s = Inr ?s"
    unfolding set_lbuf_def n e using b m by (simp add: upd_consl_def)
  have "\<exists>v. (if pos (consoles ?s t) + (int m + 1) = scr (consoles ?s t) + WH + 1 then scrup t ?s else Inr ?s) =
      Inr (upd_consl t ?g (s\<lparr>vbuf := v\<rparr>))"
  proof (cases "pos (consoles s t) + int m = scr (consoles s t) + 1920")
    case True
    have "window (consoles ?s t)" using w by (simp add: window_def)
    from scrup_window [OF t this] obtain v where "scrup t ?s = Inr (upd_consl t scrolled (?s\<lparr>vbuf := v\<rparr>))" ..
    then show ?thesis using True by (auto simp: upd_consl_def)
  next
    case False
    then show ?thesis by (auto simp: upd_consl_def intro!: exI [of _ "vbuf s"])
  qed
  then obtain v where sc: "(if pos (consoles ?s t) + (int m + 1) = scr (consoles ?s t) + WH + 1 then scrup t ?s else Inr ?s) =
      Inr (upd_consl t ?g (s\<lparr>vbuf := v\<rparr>))" ..
  define u where "u = upd_consl t ?g (s\<lparr>vbuf := v\<rparr>)"
  have q: "0 \<le> pos (consoles u t)" "pos (consoles u t) + int m \<le> 3839"
    using w p m by (auto simp: u_def window_def scrolled_def)
  obtain z where z: "get_cell t (pos (consoles u t) + (int m + 1) - 1) u = Inr z"
    using get_cell_ok [of t "pos (consoles u t) + (int m + 1) - 1" u] t q by auto
  obtain x where x: "set_cell t (pos (consoles u t) + (int m + 1)) z u = Inr (u\<lparr>vbuf := x\<rparr>)"
    using set_cell_ok [of t "pos (consoles u t) + (int m + 1)" z u] t q by auto
  have "accept_step t (int m + 1) s = Inr (u\<lparr>vbuf := x\<rparr>)"
    unfolding accept_step_def l sl bindE_Inr sc u_def [symmetric] z x using n m by simp
  then show ?thesis by (auto simp: u_def upd_consl_def)
qed

lemma rev_upto_Suc: "rev [1..int m + 1] = (int m + 1) # rev [1..int m]"
  by (simp add: upto_rec2)

lemma accept_loop_ok:
  assumes "t < 3" and "window (consoles s t)" and "ci (consoles s t) = int n"
    and "length (lbuf (consoles s t)) = 257" and "n + m < 256"
    and "0 \<le> pos (consoles s t)" and "pos (consoles s t) + int m \<le> scr (consoles s t) + 1920"
  shows "\<exists>v. fold_exec (accept_step t) (rev [1..int m]) s =
    Inr (upd_consl t (\<lambda>c. c\<lparr>lbuf := shift (lbuf c) n m\<rparr>) (s\<lparr>vbuf := v\<rparr>))"
  using assms
proof (induction m arbitrary: s)
  case 0
  then have "upd_consl t (\<lambda>c. c\<lparr>lbuf := shift (lbuf c) n 0\<rparr>) s = s" by (simp add: upd_consl_def)
  then show ?case by (auto intro!: exI [of _ "vbuf s"])
next
  case (Suc m)
  let ?f = "\<lambda>c. c\<lparr>lbuf := (lbuf c)[n + m + 1 := lbuf c ! (n + m)]\<rparr>"
  have "\<exists>v. accept_step t (int m + 1) s = Inr (upd_consl t (\<lambda>c. (if pos c + int m = scr c + 1920 then scrolled c else c)
      \<lparr>lbuf := (lbuf c)[n + m + 1 := lbuf c ! (n + m)]\<rparr>) (s\<lparr>vbuf := v\<rparr>))"
    using Suc.prems by (intro accept_step_ok) simp_all
  then obtain v where v: "accept_step t (int m + 1) s = Inr (upd_consl t ?f (s\<lparr>vbuf := v\<rparr>))"
    using Suc.prems(7) by (auto simp: upd_consl_def)
  have "\<exists>w. fold_exec (accept_step t) (rev [1..int m]) (upd_consl t ?f (s\<lparr>vbuf := v\<rparr>)) =
      Inr (upd_consl t (\<lambda>c. c\<lparr>lbuf := shift (lbuf c) n m\<rparr>) ((upd_consl t ?f (s\<lparr>vbuf := v\<rparr>))\<lparr>vbuf := w\<rparr>))"
    using Suc.prems by (intro Suc.IH) (simp_all add: window_def)
  then obtain w where w: "fold_exec (accept_step t) (rev [1..int m]) (upd_consl t ?f (s\<lparr>vbuf := v\<rparr>)) =
      Inr ((upd_consl t (\<lambda>c. c\<lparr>lbuf := shift (lbuf (?f c)) n m\<rparr>) s)\<lparr>vbuf := w\<rparr>)" by auto
  have "shift (lbuf (?f (consoles s t))) n m = shift (lbuf (consoles s t)) n (Suc m)"
    using shift_Suc [of n m "lbuf (consoles s t)"] Suc.prems by simp
  then have "upd_consl t (\<lambda>c. c\<lparr>lbuf := shift (lbuf (?f c)) n m\<rparr>) s =
      upd_consl t (\<lambda>c. c\<lparr>lbuf := shift (lbuf c) n (Suc m)\<rparr>) s" by (simp add: upd_consl_def)
  moreover have "rev [1..int (Suc m)] = (int m + 1) # rev [1..int m]"
    using rev_upto_Suc [of m] by (simp only: of_nat_Suc add.commute [of 1])
  ultimately show ?case using v w by auto
qed

lemma scrolled_col: "(pos (scrolled c) - x) mod 80 = (pos c - x) mod 80"
  using minus_mod_self2 [of "pos c - x" 80] by (simp add: scrolled_def algebra_simps)

lemma strlen_line: "0 \<notin> set r \<Longrightarrow> strlen (r @ 0 # rest) = Inr (length r)"
  by (induction r) auto

text \<open>What typing does to the console: make room, scroll where the line has outgrown the window, store.\<close>

definition typed :: "u8 \<Rightarrow> nat \<Rightarrow> nat \<Rightarrow> console \<Rightarrow> console" where
  "typed ch n m c =
     (let c1 = (if pos c + int m = scr c + 1920 then scrolled c else c)\<lparr>lbuf := shift (lbuf c) n (m + 1)\<rparr>;
          c2 = (if pos c1 = scr c1 + 1919 then scrolled c1 else c1)
      in c2\<lparr>pos := pos c2 + 1, lbuf := (lbuf c2)[n := ch], ci := ci c2 + 1\<rparr>)"

lemma make_room_ok:
  assumes t: "t < 3" and w: "window (consoles s t)" and n: "ci (consoles s t) = int n"
    and b: "length (lbuf (consoles s t)) = 257" and m: "n + m + 1 < 256"
    and p: "0 \<le> pos (consoles s t)" "pos (consoles s t) + int m \<le> scr (consoles s t) + 1920"
  shows "\<exists>v. fold_exec (accept_step t) (rev [1..int m + 1]) s =
    Inr (upd_consl t (\<lambda>c. (if pos c + int m = scr c + 1920 then scrolled c else c)
      \<lparr>lbuf := shift (lbuf c) n (m + 1)\<rparr>) (s\<lparr>vbuf := v\<rparr>))"
proof -
  let ?h = "\<lambda>c. if pos c + int m = scr c + 1920 then scrolled c else c"
  let ?g = "\<lambda>c. (?h c)\<lparr>lbuf := (lbuf c)[n + m + 1 := lbuf c ! (n + m)]\<rparr>"
  obtain v where v: "accept_step t (int m + 1) s = Inr (upd_consl t ?g (s\<lparr>vbuf := v\<rparr>))"
    using accept_step_ok [OF assms] by blast
  have "window (?h (consoles s t))" using w window_scrolled by simp
  then have wg: "window (?g (consoles s t))" by (simp add: window_def)
  have pg: "0 \<le> pos (?h (consoles s t))" "pos (?h (consoles s t)) + int m \<le> scr (?h (consoles s t)) + 1920"
    using w p m by (auto simp: window_def scrolled_def)
  have "\<exists>x. fold_exec (accept_step t) (rev [1..int m]) (upd_consl t ?g (s\<lparr>vbuf := v\<rparr>)) =
      Inr (upd_consl t (\<lambda>c. c\<lparr>lbuf := shift (lbuf c) n m\<rparr>) ((upd_consl t ?g (s\<lparr>vbuf := v\<rparr>))\<lparr>vbuf := x\<rparr>))"
    using t n b m wg pg by (intro accept_loop_ok) simp_all
  then obtain x where x: "fold_exec (accept_step t) (rev [1..int m]) (upd_consl t ?g (s\<lparr>vbuf := v\<rparr>)) =
      Inr ((upd_consl t (\<lambda>c. (?h c)\<lparr>lbuf := shift ((lbuf c)[n + m + 1 := lbuf c ! (n + m)]) n m\<rparr>) s)\<lparr>vbuf := x\<rparr>)"
    by auto
  have "shift ((lbuf (consoles s t))[n + m + 1 := lbuf (consoles s t) ! (n + m)]) n m = shift (lbuf (consoles s t)) n (m + 1)"
    using shift_Suc [of n m "lbuf (consoles s t)"] b m by simp
  then have "upd_consl t (\<lambda>c. (?h c)\<lparr>lbuf := shift ((lbuf c)[n + m + 1 := lbuf c ! (n + m)]) n m\<rparr>) s =
      upd_consl t (\<lambda>c. (?h c)\<lparr>lbuf := shift (lbuf c) n (m + 1)\<rparr>) s" by (simp add: upd_consl_def)
  then show ?thesis using v x rev_upto_Suc [of m] by auto
qed

lemma consl_accept_ok:
  assumes t: "t < 3" and w: "window (consoles s t)" and n: "ci (consoles s t) = int n"
    and b: "length (lbuf (consoles s t)) = 257" and m: "n + m + 1 < 256"
    and p: "0 \<le> pos (consoles s t)" "pos (consoles s t) + int m \<le> scr (consoles s t) + 1920"
    and l: "strlen (drop n (lbuf (consoles s t))) = Inr m"
  shows "\<exists>s'. consl_accept t ch s = Inr s' \<and> consoles s' t = typed ch n m (consoles s t) \<and> current_consl s' = current_consl s"
proof -
  define g where "g = (\<lambda>c. (if pos c + int m = scr c + 1920 then scrolled c else c)\<lparr>lbuf := shift (lbuf c) n (m + 1)\<rparr>)"
  define h where "h = (\<lambda>c. (if pos c = scr c + 1919 then scrolled c else c)\<lparr>pos := pos (if pos c = scr c + 1919 then scrolled c else c) + 1\<rparr>)"
  obtain v where v: "fold_exec (accept_step t) (rev [1..int m + 1]) s = Inr (upd_consl t g (s\<lparr>vbuf := v\<rparr>))"
    using make_room_ok [OF t w n b m p] unfolding g_def by blast
  have "window (g (consoles s t))"
    using w window_scrolled by (auto simp: g_def window_def)
  moreover have "0 \<le> pos (g (consoles s t))" "pos (g (consoles s t)) \<le> 3839"
    using w p m by (auto simp: g_def window_def scrolled_def)
  moreover have "lbuf (g (consoles s t)) = shift (lbuf (consoles s t)) n (m + 1)" "ci (g (consoles s t)) = int n"
    using n by (auto simp: g_def)
  ultimately have wg: "window (g (consoles s t))" "0 \<le> pos (g (consoles s t))" "pos (g (consoles s t)) \<le> 3839"
    "lbuf (g (consoles s t)) = shift (lbuf (consoles s t)) n (m + 1)" "ci (g (consoles s t)) = int n"
    by blast+
  obtain v1 where v1: "putc t ch (upd_consl t g (s\<lparr>vbuf := v\<rparr>)) = Inr ((upd_consl t g s)\<lparr>vbuf := v1\<rparr>)"
    using putc_ok [of t "upd_consl t g (s\<lparr>vbuf := v\<rparr>)" ch] t wg by auto
  obtain v2 where v2: "next_pos t ((upd_consl t g s)\<lparr>vbuf := v1\<rparr>) = Inr ((upd_consl t (\<lambda>c. h (g c)) s)\<lparr>vbuf := v2\<rparr>)"
    using next_pos_ok [of t "(upd_consl t g s)\<lparr>vbuf := v1\<rparr>"] t wg by (auto simp: h_def)
  let ?c = "h (g (consoles s t))"
  have h: "lbuf ?c = shift (lbuf (consoles s t)) n (m + 1)" "ci ?c = int n" "length (lbuf ?c) = 257" "window ?c"
    using wg b m window_scrolled [of "g (consoles s t)"] by (auto simp: h_def window_def)
  have sl: "set_lbuf t (int n) ch ((upd_consl t (\<lambda>c. h (g c)) s)\<lparr>vbuf := v2\<rparr>) =
      Inr ((upd_consl t (\<lambda>c. (h (g c))\<lparr>lbuf := (lbuf (h (g c)))[n := ch]\<rparr>) s)\<lparr>vbuf := v2\<rparr>)"
    using h m by (simp add: set_lbuf_def)
  let ?s = "upd_consl t (\<lambda>c. c\<lparr>ci := ci c + 1\<rparr>) ((upd_consl t (\<lambda>c. (h (g c))\<lparr>lbuf := (lbuf (h (g c)))[n := ch]\<rparr>) s)\<lparr>vbuf := v2\<rparr>)"
  have "window (consoles ?s t)" using h(4) by (simp add: window_def)
  from consl_sync_ok [OF t this] obtain s' where s': "consl_sync t ?s = Inr s'" "consoles s' = consoles ?s"
    "current_consl s' = current_consl ?s" by blast
  have "consl_accept t ch s = Inr s'"
    unfolding consl_accept_def Let_def n nat_int l bindE_Inr v v1 v2 using h sl s'(1) m by simp
  moreover have "consoles s' t = typed ch n m (consoles s t)"
    unfolding s'(2) using h by (simp add: typed_def Let_def g_def h_def)
  moreover have "current_consl s' = current_consl s" using s'(3) by (simp add: upd_consl_def)
  ultimately show ?thesis by blast
qed

lemma typed_line:
  assumes h: "holds_line (l, r) c" and ch: "ch \<noteq> 0" and len: "length l + length r < 255"
  shows "holds_line (l @ [ch], r) (typed ch (length l) (length r) c) \<and> kept (typed ch (length l) (length r) c) = kept c"
proof -
  obtain rest where b: "lbuf c = l @ r @ 0 # rest" using h by (auto simp: holds_line_def)
  have lb: "length (lbuf c) = 257" using h by (simp add: holds_line_def)
  with b len obtain x rest' where rest: "rest = x # rest'" by (cases rest) auto
  let ?h = "\<lambda>c. if pos c + int (length r) = scr c + 1920 then scrolled c else c"
  let ?c1 = "(?h c)\<lparr>lbuf := shift (lbuf c) (length l) (length r + 1)\<rparr>"
  let ?k = "\<lambda>c. if pos c = scr c + 1919 then scrolled c else c"
  have w1: "window ?c1" using h window_scrolled [of c] by (auto simp: holds_line_def window_def)
  then have w2: "window (?k ?c1)" using window_scrolled [of ?c1] by auto
  have p1: "int (length l) \<le> pos ?c1" "pos ?c1 + int (length r) \<le> scr ?c1 + 1919"
    using h len by (auto simp: holds_line_def window_def scrolled_def)
  have p2: "int (length l) \<le> pos (?k ?c1)" "pos (?k ?c1) + 1 + int (length r) \<le> scr (?k ?c1) + 1920"
  proof -
    have "int (length l) + int (length r) < 255" using len by simp
    then show "int (length l) \<le> pos (?k ?c1)" "pos (?k ?c1) + 1 + int (length r) \<le> scr (?k ?c1) + 1920"
      using p1 w1 unfolding window_def by (auto simp: scrolled_def simp del: console.update_convs)
  qed
  have sh: "(shift (lbuf c) (length l) (length r + 1))[length l := ch] = (l @ [ch]) @ r @ 0 # rest'"
    unfolding b rest shift_line by simp
  have "lbuf (typed ch (length l) (length r) c) = (l @ [ch]) @ r @ 0 # rest'"
    unfolding typed_def Let_def using sh by simp
  moreover have "ci (typed ch (length l) (length r) c) = int (length l) + 1" "scr (typed ch (length l) (length r) c) = scr (?k ?c1)"
    "pos (typed ch (length l) (length r) c) = pos (?k ?c1) + 1"
    "(cbuf (typed ch (length l) (length r) c), cf (typed ch (length l) (length r) c), crr (typed ch (length l) (length r) c),
      rtop (typed ch (length l) (length r) c), rstk (typed ch (length l) (length r) c)) = (cbuf c, cf c, crr c, rtop c, rstk c)"
    using h by (simp_all add: typed_def Let_def holds_line_def)
  moreover have "kept (typed ch (length l) (length r) c) = kept c"
  proof -
    have k: "(pos (?k x) - int (length l)) mod 80 = (pos x - int (length l)) mod 80" for x
      using scrolled_col [of x "int (length l)"] by simp
    have hc: "(pos (?h c) - int (length l)) mod 80 = (pos c - int (length l)) mod 80"
      using scrolled_col [of c "int (length l)"] by simp
    have "(pos (?k ?c1) + 1 - (int (length l) + 1)) mod 80 = (pos c - int (length l)) mod 80"
      using k [of ?c1] hc by simp
    then show ?thesis using calculation(2,4,5) h unfolding kept_def by (simp add: holds_line_def)
  qed
  moreover have "length ((l @ [ch]) @ r @ 0 # rest') = 257" using lb b rest by simp
  ultimately show ?thesis using h ch len w2 p2 unfolding holds_line_def window_def by (simp del: append_assoc)
qed

lemma accept_line:
  assumes t: "t < 3" and h: "holds_line (l, r) (consoles s t)" and ch: "ch \<noteq> 0" and len: "length l + length r < 255"
  shows "\<exists>s'. consl_accept t ch s = Inr s' \<and> holds_line (l @ [ch], r) (consoles s' t) \<and>
    kept (consoles s' t) = kept (consoles s t) \<and> current_consl s' = current_consl s"
proof -
  obtain rest where b: "lbuf (consoles s t) = l @ r @ 0 # rest" using h by (auto simp: holds_line_def)
  then have st: "strlen (drop (length l) (lbuf (consoles s t))) = Inr (length r)"
    using h strlen_line [of r rest] by (simp add: holds_line_def)
  have "\<exists>s'. consl_accept t ch s = Inr s' \<and> consoles s' t = typed ch (length l) (length r) (consoles s t) \<and> current_consl s' = current_consl s"
    using h len by (intro consl_accept_ok t st) (simp_all add: holds_line_def)
  then show ?thesis using typed_line [OF h ch len] by auto
qed

text \<open>A line of 255 characters is full: the next one stops the kernel.\<close>

lemma accept_full:
  assumes h: "holds_line (l, r) (consoles s t)" and len: "length l + length r = 255"
  shows "consl_accept t ch s = Inl Panic"
proof -
  obtain rest where b: "lbuf (consoles s t) = l @ r @ 0 # rest" using h by (auto simp: holds_line_def)
  then have "strlen (drop (length l) (lbuf (consoles s t))) = Inr (length r)"
    using h strlen_line [of r rest] by (simp add: holds_line_def)
  moreover have "ci (consoles s t) = int (length l)" using h by (simp add: holds_line_def)
  moreover have "accept_step t (int (length r) + 1) s = Inl Panic"
    using len h by (simp add: accept_step_def holds_line_def)
  ultimately show ?thesis by (simp add: consl_accept_def Let_def rev_upto_Suc del: rev.simps)
qed

section \<open>Deleting\<close>

lemma removec_loop_ok:
  assumes "t < 3" and "lbuf (consoles s t) = a @ x # r @ 0 # rest" and "x \<noteq> 0" and "0 \<notin> set r"
    and "0 \<le> q" and "q + int (length r) + 1 \<le> 3840"
  shows "\<exists>v. removec_loop t (int (length a)) q s =
    Inr (upd_consl t (\<lambda>c. c\<lparr>lbuf := a @ r @ 0 # 0 # rest\<rparr>) (s\<lparr>vbuf := v\<rparr>))"
  using assms
proof (induction r arbitrary: a x q s)
  case Nil
  obtain z where z: "get_cell t (q + 1) (upd_consl t (\<lambda>c. c\<lparr>lbuf := a @ 0 # 0 # rest\<rparr>) s) = Inr z"
    using get_cell_ok [of t "q + 1"] Nil by fastforce
  obtain v where v: "set_cell t q z (upd_consl t (\<lambda>c. c\<lparr>lbuf := a @ 0 # 0 # rest\<rparr>) s) =
      Inr ((upd_consl t (\<lambda>c. c\<lparr>lbuf := a @ 0 # 0 # rest\<rparr>) s)\<lparr>vbuf := v\<rparr>)"
    using set_cell_ok [of t q z "upd_consl t (\<lambda>c. c\<lparr>lbuf := a @ 0 # 0 # rest\<rparr>) s"] Nil by fastforce
  have u: "upd_consl t (\<lambda>c. c\<lparr>lbuf := (lbuf c)[length a := 0]\<rparr>) s = upd_consl t (\<lambda>c. c\<lparr>lbuf := a @ 0 # 0 # rest\<rparr>) s"
    using Nil by (simp add: upd_consl_def)
  have "removec_loop t (int (length a) + 1) (q + 1) ((upd_consl t (\<lambda>c. c\<lparr>lbuf := a @ 0 # 0 # rest\<rparr>) s)\<lparr>vbuf := v\<rparr>) =
      Inr ((upd_consl t (\<lambda>c. c\<lparr>lbuf := a @ 0 # 0 # rest\<rparr>) s)\<lparr>vbuf := v\<rparr>)"
    by (subst removec_loop.simps) (simp add: lbuf_at_def nth_append nat_add_distrib)
  then have "removec_loop t (int (length a)) q s = Inr ((upd_consl t (\<lambda>c. c\<lparr>lbuf := a @ 0 # 0 # rest\<rparr>) s)\<lparr>vbuf := v\<rparr>)"
    using Nil z v u by (subst removec_loop.simps) (simp add: lbuf_at_def set_lbuf_def nth_append nat_add_distrib)
  then show ?case by auto
next
  case (Cons y r)
  let ?f = "\<lambda>c. c\<lparr>lbuf := a @ y # y # r @ 0 # rest\<rparr>"
  obtain z where z: "get_cell t (q + 1) (upd_consl t ?f s) = Inr z"
    using get_cell_ok [of t "q + 1"] Cons.prems by fastforce
  obtain v where v: "set_cell t q z (upd_consl t ?f s) = Inr ((upd_consl t ?f s)\<lparr>vbuf := v\<rparr>)"
    using set_cell_ok [of t q z "upd_consl t ?f s"] Cons.prems by fastforce
  have u: "upd_consl t (\<lambda>c. c\<lparr>lbuf := (lbuf c)[length a := y]\<rparr>) s = upd_consl t ?f s"
    using Cons.prems by (simp add: upd_consl_def)
  have "\<exists>w. removec_loop t (int (length (a @ [y]))) (q + 1) ((upd_consl t ?f s)\<lparr>vbuf := v\<rparr>) =
     Inr (upd_consl t (\<lambda>c. c\<lparr>lbuf := (a @ [y]) @ r @ 0 # 0 # rest\<rparr>) ((upd_consl t ?f s)\<lparr>vbuf := v\<rparr>\<lparr>vbuf := w\<rparr>))"
    using Cons.prems by (intro Cons.IH [of _ _ y]) auto
  then obtain w where w: "removec_loop t (int (length a) + 1) (q + 1) ((upd_consl t ?f s)\<lparr>vbuf := v\<rparr>) =
     Inr ((upd_consl t (\<lambda>c. c\<lparr>lbuf := a @ y # r @ 0 # 0 # rest\<rparr>) s)\<lparr>vbuf := w\<rparr>)"
    by (auto simp: add.commute)
  have "removec_loop t (int (length a)) q s = Inr ((upd_consl t (\<lambda>c. c\<lparr>lbuf := a @ y # r @ 0 # 0 # rest\<rparr>) s)\<lparr>vbuf := w\<rparr>)"
    using Cons.prems z v u w by (subst removec_loop.simps) (simp add: lbuf_at_def set_lbuf_def nth_append nat_add_distrib)
  then show ?case by auto
qed

lemma holds_back:
  assumes h: "holds_line (l, r) c" and l: "l \<noteq> []" and b: "lbuf c = l @ r @ 0 # rest"
  shows "holds_line (butlast l, r) (c\<lparr>ci := ci c - 1, lbuf := butlast l @ r @ 0 # 0 # rest, pos := pos c - 1\<rparr>)"
  using assms by (cases l rule: rev_cases) (auto simp: holds_line_def window_def)

lemma backsp_line:
  assumes t: "t < 3" and h: "holds_line (l, r) (consoles s t)"
  shows "\<exists>s'. backsp t s = Inr s' \<and> holds_line (butlast l, r) (consoles s' t) \<and>
    kept (consoles s' t) = kept (consoles s t) \<and> current_consl s' = current_consl s"
proof (cases "l = []")
  case True
  then show ?thesis using h by (simp add: backsp_def holds_line_def)
next
  case False
  define a where "a = butlast l"
  define x where "x = last l"
  have l: "l = a @ [x]" using False by (simp add: a_def x_def)
  obtain rest where b: "lbuf (consoles s t) = l @ r @ 0 # rest" using h by (auto simp: holds_line_def)
  let ?c = "consoles s t"
  let ?s = "upd_consl t (\<lambda>c. c\<lparr>ci := ci c - 1\<rparr>) s"
  have c: "ci ?c = int (length a) + 1" "x \<noteq> 0" "0 \<notin> set r" "window ?c" "int (length a) + 1 \<le> pos ?c"
    "pos ?c + int (length r) \<le> scr ?c + 1920" "length (lbuf ?c) = 257" using h by (auto simp: holds_line_def l)
  have "\<exists>v. removec_loop t (int (length a)) (pos ?c - 1) ?s =
    Inr (upd_consl t (\<lambda>c. c\<lparr>lbuf := a @ r @ 0 # 0 # rest\<rparr>) (?s\<lparr>vbuf := v\<rparr>))"
    using t c b l by (intro removec_loop_ok [where x = x]) (auto simp: window_def)
  then obtain v where v: "removec_loop t (int (length a)) (pos ?c - 1) ?s =
    Inr ((upd_consl t (\<lambda>c. c\<lparr>ci := ci c - 1, lbuf := a @ r @ 0 # 0 # rest\<rparr>) s)\<lparr>vbuf := v\<rparr>)" by auto
  let ?f = "\<lambda>c. c\<lparr>ci := ci c - 1, lbuf := a @ r @ 0 # 0 # rest, pos := pos c - 1\<rparr>"
  let ?u = "(upd_consl t (\<lambda>c. c\<lparr>ci := ci c - 1, lbuf := a @ r @ 0 # 0 # rest\<rparr>) s)\<lparr>vbuf := v\<rparr>"
  have f: "upd_consl t (\<lambda>c. c\<lparr>pos := pos c - 1\<rparr>) ?u = (upd_consl t ?f s)\<lparr>vbuf := v\<rparr>" by simp
  obtain w where w: "putc t 32 ((upd_consl t ?f s)\<lparr>vbuf := v\<rparr>) = Inr ((upd_consl t ?f s)\<lparr>vbuf := w\<rparr>)"
    using putc_ok [of t "(upd_consl t ?f s)\<lparr>vbuf := v\<rparr>" 32] t c by (auto simp: window_def)
  have la: "lbuf_at t (int (length a)) ?u = Inr (hd (r @ [0]))"
    by (cases r) (simp_all add: lbuf_at_def nth_append)
  have "\<exists>w. backsp t s = Inr ((upd_consl t ?f s)\<lparr>vbuf := w\<rparr>)"
  proof (cases "hd (r @ [0]) = 0")
    case True
    then show ?thesis using c v la w by (auto simp: backsp_def removec_def Let_def del_def f)
  next
    case False
    then show ?thesis using c v la by (auto simp: backsp_def removec_def Let_def)
  qed
  then obtain w where w: "backsp t s = Inr ((upd_consl t ?f s)\<lparr>vbuf := w\<rparr>)" ..
  have "holds_line (butlast l, r) (?f ?c)" using holds_back [OF h False b] by (simp add: a_def)
  then show ?thesis using w by (simp add: kept_def upd_consl_def)
qed

section \<open>Moving\<close>

lemma movl_line:
  assumes h: "holds_line (l, r) (consoles s t)"
  shows "\<exists>s'. movl t s = (l \<noteq> [], s') \<and> holds_line (edit Left (l, r)) (consoles s' t) \<and>
    kept (consoles s' t) = kept (consoles s t) \<and> current_consl s' = current_consl s"
proof (cases "l = []")
  case True
  then show ?thesis using h by (simp add: movl_def holds_line_def)
next
  case False
  have "holds_line (butlast l, last l # r) ((consoles s t)\<lparr>ci := ci (consoles s t) - 1, pos := pos (consoles s t) - 1\<rparr>)"
    using h False by (cases l rule: rev_cases) (auto simp: holds_line_def window_def)
  moreover have "ci (consoles s t) \<noteq> 0" using h False by (simp add: holds_line_def)
  ultimately show ?thesis using False by (simp add: movl_def kept_def upd_consl_def)
qed

lemma movr_line:
  assumes h: "holds_line (l, r) (consoles s t)"
  shows "\<exists>s'. movr t s = Inr (r \<noteq> [], s') \<and> holds_line (edit Right (l, r)) (consoles s' t) \<and>
    kept (consoles s' t) = kept (consoles s t) \<and> current_consl s' = current_consl s"
proof -
  obtain rest where b: "lbuf (consoles s t) = l @ r @ 0 # rest" using h by (auto simp: holds_line_def)
  have la: "lbuf_at t (ci (consoles s t)) s = Inr (hd (r @ [0]))"
    using h b by (cases r) (simp_all add: lbuf_at_def holds_line_def nth_append)
  show ?thesis
  proof (cases r)
    case Nil
    then show ?thesis using h la by (simp add: movr_def)
  next
    case (Cons x xs)
    then have "x \<noteq> 0" using h by (auto simp: holds_line_def)
    moreover have "holds_line (l @ [x], xs) ((consoles s t)\<lparr>ci := ci (consoles s t) + 1, pos := pos (consoles s t) + 1\<rparr>)"
      using h Cons by (auto simp: holds_line_def window_def)
    ultimately show ?thesis using la Cons by (simp add: movr_def kept_def upd_consl_def)
  qed
qed

lemma home_line:
  assumes "holds_line (l, r) (consoles s t)"
  shows "\<exists>s'. home t s = Some s' \<and> holds_line ([], l @ r) (consoles s' t) \<and>
    kept (consoles s' t) = kept (consoles s t) \<and> current_consl s' = current_consl s"
  using assms
proof (induction l arbitrary: r s rule: rev_induct)
  case Nil
  then obtain s' where "movl t s = (False, s')" "holds_line ([], r) (consoles s' t)"
    "kept (consoles s' t) = kept (consoles s t)" "current_consl s' = current_consl s"
    using movl_line by fastforce
  then show ?case by (subst home.simps) simp
next
  case (snoc x l)
  obtain s' where s': "movl t s = (True, s')" "holds_line (l, x # r) (consoles s' t)"
    "kept (consoles s' t) = kept (consoles s t)" "current_consl s' = current_consl s"
    using movl_line [OF snoc.prems] by auto
  with snoc.IH [OF s'(2)] show ?case by (subst home.simps) simp
qed

lemma to_end_line:
  assumes "holds_line (l, r) (consoles s t)"
  shows "\<exists>s'. to_end t s = Some (Inr s') \<and> holds_line (l @ r, []) (consoles s' t) \<and>
    kept (consoles s' t) = kept (consoles s t) \<and> current_consl s' = current_consl s"
  using assms
proof (induction r arbitrary: l s)
  case Nil
  then obtain s' where "movr t s = Inr (False, s')" "holds_line (l, []) (consoles s' t)"
    "kept (consoles s' t) = kept (consoles s t)" "current_consl s' = current_consl s"
    using movr_line by fastforce
  then show ?case by (subst to_end.simps) simp
next
  case (Cons x r)
  obtain s' where s': "movr t s = Inr (True, s')" "holds_line (l @ [x], r) (consoles s' t)"
    "kept (consoles s' t) = kept (consoles s t)" "current_consl s' = current_consl s"
    using movr_line [OF Cons.prems] by auto
  with Cons.IH [OF s'(2)] show ?case by (subst to_end.simps) simp
qed

section \<open>Every key\<close>

lemma holds_window: "holds_line z c \<Longrightarrow> window c"
  by (simp add: holds_line_def)

text \<open>Behind every editing key the screen is copied.\<close>

lemma sync_line:
  assumes "t < 3" and "holds_line z (consoles s t)"
  obtains s' where "consl_sync t s = Inr s'" and "consoles s' = consoles s" and "current_consl s' = current_consl s"
  using consl_sync_ok [OF assms(1) holds_window [OF assms(2)]] by blast

lemma press_line:
  assumes t: "t < 3" and h: "holds_line z (consoles s t)" and f: "fits k z"
  shows "\<exists>s'. press self t k s = Inr s' \<and> holds_line (edit k z) (consoles s' t) \<and>
    kept (consoles s' t) = kept (consoles s t) \<and> current_consl s' = current_consl s"
proof -
  obtain l r where z: "z = (l, r)" by force
  note h = h [unfolded z] and f = f [unfolded z]
  show ?thesis
  proof (cases k)
    case (Type c)
    then show ?thesis using accept_line [OF t h, of c] f by (simp add: z)
  next
    case Back
    obtain s1 where s1: "backsp t s = Inr s1" "holds_line (butlast l, r) (consoles s1 t)"
      "kept (consoles s1 t) = kept (consoles s t)" "current_consl s1 = current_consl s" using backsp_line [OF t h] by blast
    with sync_line [OF t s1(2)] show ?thesis by (fastforce simp: z Back consl_feed_def Let_def)
  next
    case Del
    obtain s0 where s0: "movr t s = Inr (r \<noteq> [], s0)" "holds_line (edit Right (l, r)) (consoles s0 t)"
      "kept (consoles s0 t) = kept (consoles s t)" "current_consl s0 = current_consl s" using movr_line [OF h] by blast
    obtain l' r' where lr: "edit Right (l, r) = (l', r')" by force
    then have r: "edit Right (l, r) = (l', r')" "edit Del (l, r) = (butlast l', r')" by (cases r; auto)+
    obtain s1 where s1: "backsp t s0 = Inr s1" "holds_line (butlast l', r') (consoles s1 t)"
      "kept (consoles s1 t) = kept (consoles s0 t)" "current_consl s1 = current_consl s0"
      using backsp_line [OF t s0(2) [unfolded r(1)]] by blast
    with sync_line [OF t s1(2)] s0 r(2) show ?thesis by (fastforce simp: z Del consl_feed_def Let_def)
  next
    case Left
    obtain s1 where s1: "movl t s = (l \<noteq> [], s1)" "holds_line (edit Left (l, r)) (consoles s1 t)"
      "kept (consoles s1 t) = kept (consoles s t)" "current_consl s1 = current_consl s" using movl_line [OF h] by blast
    with sync_line [OF t s1(2)] show ?thesis by (fastforce simp: z Left consl_feed_def Let_def)
  next
    case Right
    obtain s1 where s1: "movr t s = Inr (r \<noteq> [], s1)" "holds_line (edit Right (l, r)) (consoles s1 t)"
      "kept (consoles s1 t) = kept (consoles s t)" "current_consl s1 = current_consl s" using movr_line [OF h] by blast
    with sync_line [OF t s1(2)] show ?thesis by (fastforce simp: z Right consl_feed_def Let_def)
  next
    case Home
    obtain s1 where s1: "home t s = Some s1" "holds_line ([], l @ r) (consoles s1 t)"
      "kept (consoles s1 t) = kept (consoles s t)" "current_consl s1 = current_consl s" using home_line [OF h] by blast
    with sync_line [OF t s1(2)] show ?thesis by (fastforce simp: z Home consl_feed_def Let_def)
  next
    case End
    obtain s1 where s1: "to_end t s = Some (Inr s1)" "holds_line (l @ r, []) (consoles s1 t)"
      "kept (consoles s1 t) = kept (consoles s t)" "current_consl s1 = current_consl s" using to_end_line [OF h] by blast
    with sync_line [OF t s1(2)] show ?thesis by (fastforce simp: z End consl_feed_def Let_def)
  qed
qed

end
