(* ===== verification/Tty_Line.thy ===== *)
theory Tty_Line
  imports Console_Line
begin

text \<open>
  From keys to readers: the editor run over a sequence of keys, the ring buffer of finished lines as a
  queue, and the composition of both with the reads of the terminal's clients.
\<close>

section \<open>Runs of keys\<close>

text \<open>
  A step function that may stop, a reference that does not, and a relation that every admissible step
  keeps: then every run of admissible steps keeps it.
\<close>

primrec admissible :: "('k \<Rightarrow> 'a \<Rightarrow> bool) \<Rightarrow> ('k \<Rightarrow> 'a \<Rightarrow> 'a) \<Rightarrow> 'k list \<Rightarrow> 'a \<Rightarrow> bool" where
  "admissible ok ref [] a \<longleftrightarrow> True"
| "admissible ok ref (k # ks) a \<longleftrightarrow> ok k a \<and> admissible ok ref ks (ref k a)"

locale simulation =
  fixes step :: "'k \<Rightarrow> 's \<Rightarrow> 's exec"
    and ref :: "'k \<Rightarrow> 'a \<Rightarrow> 'a"
    and ok :: "'k \<Rightarrow> 'a \<Rightarrow> bool"
    and rel :: "'a \<Rightarrow> 's \<Rightarrow> bool"
  assumes step_sim: "rel a s \<Longrightarrow> ok k a \<Longrightarrow> \<exists>s'. step k s = Inr s' \<and> rel (ref k a) s'"
begin

lemma run_sim:
  "rel a s \<Longrightarrow> admissible ok ref ks a \<Longrightarrow> \<exists>s'. fold_exec step ks s = Inr s' \<and> rel (fold ref ks a) s'"
proof (induction ks arbitrary: a s)
  case (Cons k ks)
  from step_sim [OF Cons.prems(1), of k] Cons.prems(2)
  obtain s1 where s1: "step k s = Inr s1" "rel (ref k a) s1" by auto
  with Cons.IH [OF s1(2)] Cons.prems(2) show ?case by simp
qed simp

end

text \<open>The console with the line of the reference, and everything the editor does not touch.\<close>

definition edits :: "nat \<Rightarrow> u8 list \<times> int \<times> int \<times> int \<times> msg list \<times> int \<Rightarrow> nat \<Rightarrow> zipper \<Rightarrow> ttys \<Rightarrow> bool" where
  "edits t q u z s \<longleftrightarrow> t < 3 \<and> holds_line z (consoles s t) \<and> kept (consoles s t) = q \<and> current_consl s = u"

interpretation editor: simulation "press self t" edit fits "edits t q u" for self t q u
  by unfold_locales (use press_line in \<open>fastforce simp: edits_def\<close>)

lemma keys_line:
  assumes "t < 3" and "holds_line z (consoles s t)" and "admissible fits edit ks z"
  shows "\<exists>s'. fold_exec (press self t) ks s = Inr s' \<and> holds_line (fold edit ks z) (consoles s' t) \<and>
    kept (consoles s' t) = kept (consoles s t) \<and> current_consl s' = current_consl s"
  using editor.run_sim [of t "kept (consoles s t)" "current_consl s" z s ks self] assms by (auto simp: edits_def)

section \<open>The ring of finished lines\<close>

definition holds_ring :: "u8 list \<Rightarrow> console \<Rightarrow> bool" where
  "holds_ring xs c \<longleftrightarrow>
     length xs < 1024 \<and> length (cbuf c) = 1025 \<and> 0 \<le> cf c \<and> cf c < 1024 \<and>
     crr c = (cf c + int (length xs)) mod 1024 \<and>
     (\<forall>i < length xs. cbuf c ! ((nat (cf c) + i) mod 1024) = xs ! i)"

lemma wrap: "0 \<le> x \<Longrightarrow> x < 2048 \<Longrightarrow> x mod 1024 = (if x < 1024 then x else x - 1024)" for x :: int
  using minus_mod_self2 [of x 1024] by (auto simp del: minus_mod_self2)

lemma wrap_nat: "x < 2048 \<Longrightarrow> x mod 1024 = (if x < 1024 then x else x - 1024)" for x :: nat
  by (simp add: mod_if)

lemma nat_ring: "0 \<le> f \<Longrightarrow> nat ((f + int n) mod 1024) = (nat f + n) mod 1024"
  by (simp add: nat_mod_distrib nat_add_distrib)

lemma ring_range: "holds_ring xs c \<Longrightarrow> 0 \<le> crr c \<and> crr c < int (length (cbuf c))"
  using pos_mod_bound [of 1024 "cf c + int (length xs)"] by (simp add: holds_ring_def)

lemma ring_empty: "holds_ring xs c \<Longrightarrow> cf c = crr c \<longleftrightarrow> xs = []"
  using wrap [of "cf c + int (length xs)"] by (auto simp: holds_ring_def)

lemma ring_push:
  assumes h: "holds_ring xs c" and len: "length xs < 1023"
  shows "holds_ring (xs @ [x]) (c\<lparr>cbuf := (cbuf c)[nat (crr c) := x], crr := (crr c + 1) mod 1024\<rparr>)"
proof -
  let ?f = "nat (cf c)" and ?n = "length xs"
  have "0 \<le> cf c" "cf c < 1024" using h by (simp_all add: holds_ring_def)
  then have f: "?f < 1024" by linarith
  have r: "nat (crr c) = (?f + ?n) mod 1024" using h nat_ring by (simp add: holds_ring_def)
  have ne: "(?f + i) mod 1024 \<noteq> (?f + ?n) mod 1024" if "i < ?n" for i
  proof -
    have "?f + i < 2048" "?f + ?n < 2048" using that len f by simp_all
    then show ?thesis using that len f unfolding wrap_nat [OF \<open>?f + i < 2048\<close>] wrap_nat [OF \<open>?f + ?n < 2048\<close>]
      by (simp split: if_split) linarith
  qed
  have "(cbuf c)[nat (crr c) := x] ! ((?f + i) mod 1024) = (xs @ [x]) ! i" if i: "i < length (xs @ [x])" for i
  proof (cases "i = ?n")
    case True
    have "(?f + ?n) mod 1024 < length (cbuf c)"
      using h mod_less_divisor [of 1024 "?f + ?n"] by (simp add: holds_ring_def)
    then show ?thesis by (simp add: True r)
  next
    case False
    with i have i: "i < ?n" by simp
    then have "cbuf c ! ((?f + i) mod 1024) = xs ! i" using h by (simp add: holds_ring_def)
    then show ?thesis using ne [OF i] i by (simp add: r nth_append)
  qed
  moreover have "(crr c + 1) mod 1024 = (cf c + int (length (xs @ [x]))) mod 1024"
    using h by (simp add: holds_ring_def mod_simps add.assoc add.commute [of 1])
  ultimately show ?thesis using h len by (simp add: holds_ring_def)
qed

lemma ring_full: "holds_ring xs c \<Longrightarrow> (crr c + 1) mod 1024 = cf c \<longleftrightarrow> length xs = 1023"
proof -
  assume h: "holds_ring xs c"
  then have "(crr c + 1) mod 1024 = (cf c + (int (length xs) + 1)) mod 1024"
    by (simp add: holds_ring_def mod_simps add.assoc)
  then show ?thesis using h wrap [of "cf c + (int (length xs) + 1)"] by (auto simp: holds_ring_def)
qed

text \<open>A finished line goes behind what is queued, or the kernel stops because the ring is full.\<close>

lemma cook_loop_ok:
  assumes "holds_ring xs (consoles s t)" and "0 \<notin> set line"
  shows "if length xs + length line < 1023
    then \<exists>b r. cook_loop t (line @ 0 # rest) s = Inr (upd_consl t (\<lambda>c. c\<lparr>cbuf := b, crr := r\<rparr>) s) \<and>
      holds_ring (xs @ line @ [0]) ((consoles s t)\<lparr>cbuf := b, crr := r\<rparr>)
    else cook_loop t (line @ 0 # rest) s = Inl Panic"
  using assms
proof (induction line arbitrary: xs s)
  case Nil
  let ?c = "consoles s t"
  show ?case
  proof (cases "length xs = 1023")
    case True
    then show ?thesis using ring_range [OF Nil(1)] ring_full [OF Nil(1)] by (simp add: Let_def)
  next
    case False
    then have l: "length xs < 1023" using Nil by (simp add: holds_ring_def)
    then have "cook_loop t ([] @ 0 # rest) s =
        Inr (upd_consl t (\<lambda>c. c\<lparr>cbuf := (cbuf c)[nat (crr c) := 0], crr := (crr c + 1) mod 1024\<rparr>) s)"
      using ring_range [OF Nil(1)] ring_full [OF Nil(1)] by (simp add: Let_def)
    also have "\<dots> = Inr (upd_consl t (\<lambda>c. c\<lparr>cbuf := (cbuf ?c)[nat (crr ?c) := 0], crr := (crr ?c + 1) mod 1024\<rparr>) s)"
      by (simp add: upd_consl_def)
    finally show ?thesis using ring_push [OF Nil(1) l, of 0] l by auto
  qed
next
  case (Cons x line)
  let ?c = "consoles s t"
  let ?s = "upd_consl t (\<lambda>c. c\<lparr>cbuf := (cbuf c)[nat (crr c) := x], crr := (crr c + 1) mod 1024\<rparr>) s"
  have r: "0 \<le> crr ?c" "crr ?c < int (length (cbuf ?c))" using ring_range [OF Cons.prems(1)] by auto
  show ?case
  proof (cases "length xs = 1023")
    case True
    then show ?thesis using r ring_full [OF Cons.prems(1)] by (simp add: Let_def)
  next
    case False
    then have l: "length xs < 1023" using Cons.prems by (simp add: holds_ring_def)
    have e: "cook_loop t ((x # line) @ 0 # rest) s = cook_loop t (line @ 0 # rest) ?s"
      using r ring_full [OF Cons.prems(1)] False Cons.prems by (simp add: Let_def)
    have "holds_ring (xs @ [x]) (consoles ?s t)" using ring_push [OF Cons.prems(1) l] by simp
    from Cons.IH [OF this] Cons.prems(2) show ?thesis unfolding e by (auto split: if_splits)
  qed
qed

text \<open>A reader takes the bytes up to the end of the first line and the end itself.\<close>

lemma cooked_loop_ok:
  assumes "0 \<le> f" and "f < 1024" and "length b = 1025" and "length l < n"
    and "\<forall>i < length (l @ 0 # ys). b ! ((nat f + i) mod 1024) = (l @ 0 # ys) ! i" and "0 \<notin> set l"
  shows "cooked_loop b n f = Inr (l, (f + int (length l) + 1) mod 1024)"
  using assms
proof (induction l arbitrary: f n)
  case Nil
  then obtain k where "n = Suc k" by (cases n) auto
  moreover have "b ! nat f = 0" using Nil by (auto dest: spec [of _ 0] simp: nat_mod_distrib [symmetric])
  ultimately show ?case using Nil by simp
next
  case (Cons x l)
  then obtain k where k: "n = Suc k" "length l < k" by (cases n) auto
  have i: "b ! ((nat f + i) mod 1024) = (x # l @ 0 # ys) ! i" if "i < length (x # l @ 0 # ys)" for i
    using Cons.prems(5) that by simp
  have x: "b ! nat f = x" using i [of 0] Cons.prems(1,2) by (simp add: nat_less_iff)
  have f: "0 \<le> (f + 1) mod 1024" "(f + 1) mod 1024 < 1024" by simp_all
  have n: "nat ((f + 1) mod 1024) = (nat f + 1) mod 1024" using nat_ring [of f 1] Cons.prems(1) by simp
  have "\<forall>j < length (l @ 0 # ys). b ! ((nat ((f + 1) mod 1024) + j) mod 1024) = (l @ 0 # ys) ! j"
  proof (intro allI impI)
    fix j assume "j < length (l @ 0 # ys)"
    then show "b ! ((nat ((f + 1) mod 1024) + j) mod 1024) = (l @ 0 # ys) ! j"
      using i [of "Suc j"] by (simp add: n mod_simps)
  qed
  from Cons.IH [OF f Cons.prems(3) k(2) this] Cons.prems
  have "cooked_loop b k ((f + 1) mod 1024) = Inr (l, ((f + 1) mod 1024 + int (length l) + 1) mod 1024)" by simp
  moreover have "((f + 1) mod 1024 + int (length l) + 1) mod 1024 = (f + int (length (x # l)) + 1) mod 1024"
    using mod_add_left_eq [of "f + 1" 1024 "int (length l) + 1"] by (simp add: add.assoc)
  ultimately show ?case using Cons.prems x k by simp
qed

lemma ring_pop:
  assumes h: "holds_ring (l @ 0 # ys) c"
  shows "holds_ring ys (c\<lparr>cf := (cf c + int (length l) + 1) mod 1024\<rparr>)"
proof -
  let ?k = "length l + 1"
  have f: "nat ((cf c + int (length l) + 1) mod 1024) = (nat (cf c) + ?k) mod 1024"
  proof -
    have "(cf c + int (length l) + 1) mod 1024 = (cf c + int ?k) mod 1024" by (simp add: algebra_simps)
    then show ?thesis using nat_ring [of "cf c" ?k] h by (simp only: holds_ring_def)
  qed
  have "cbuf c ! ((nat ((cf c + int (length l) + 1) mod 1024) + i) mod 1024) = ys ! i" if "i < length ys" for i
  proof -
    have "cbuf c ! ((nat (cf c) + (?k + i)) mod 1024) = (l @ 0 # ys) ! (?k + i)"
      using h that unfolding holds_ring_def by (auto simp del: add_Suc_right)
    then show ?thesis unfolding f by (simp add: mod_simps add.assoc nth_append)
  qed
  then show ?thesis using h by (auto simp: holds_ring_def mod_simps algebra_simps)
qed

section \<open>Lines through the ring\<close>

definition stored :: "u8 list list \<Rightarrow> u8 list" where
  "stored ls = concat (map (\<lambda>l. l @ [0]) ls)"

lemma stored_simps [simp]: "stored [] = []" "stored (l # ls) = l @ 0 # stored ls" "stored (ls @ [l]) = stored ls @ l @ [0]"
  by (simp_all add: stored_def)

definition holds_lines :: "u8 list list \<Rightarrow> console \<Rightarrow> bool" where
  "holds_lines ls c \<longleftrightarrow> holds_ring (stored ls) c \<and> (\<forall>l \<in> set ls. 0 \<notin> set l)"

text \<open>A read that has room for the whole line: the process exists and the length is an \<open>int\<close>.\<close>

definition wants :: "nat \<Rightarrow> nat \<Rightarrow> msg \<Rightarrow> bool" where
  "wants t n m \<longleftrightarrow> dev_id m = int t \<and> 0 \<le> req_pid m \<and> req_pid m < POOL_NUM \<and> int n < i4 m \<and> i4 m < 2 ^ 31"

definition taken :: "nat \<Rightarrow> u8 list \<Rightarrow> ttys \<Rightarrow> ttys" where
  "taken t l = upd_consl t (\<lambda>c. c\<lparr>cf := (cf c + int (length l) + 1) mod 1024\<rparr>)"

lemma read_request_ok:
  assumes h: "holds_lines (l # ls) (consoles s t)" and t: "t < 4" and m: "wants t (length l) m"
  shows "read_request self m s = Inr (Some (src m, m\<lparr>mtype := int (length l), src := self\<rparr>, l), taken t l s)"
    and "holds_lines ls (consoles (taken t l s) t)"
proof -
  let ?c = "consoles s t"
  have r: "holds_ring (l @ 0 # stored ls) ?c" "0 \<notin> set l" using h by (simp_all add: holds_lines_def)
  have ne: "cf ?c \<noteq> crr ?c" using ring_empty [OF r(1)] by simp
  have "unat (u32_of (i4 m)) = nat (i4 m)" using m by (intro unat_u32_of) (auto simp: wants_def)
  then have n: "length l < unat (u32_of (i4 m))" using m by (simp add: wants_def zless_nat_eq_int_zless)
  have "cooked_loop (cbuf ?c) (unat (u32_of (i4 m))) (cf ?c) = Inr (l, (cf ?c + int (length l) + 1) mod 1024)"
    using r n by (intro cooked_loop_ok [where ys = "stored ls"]) (auto simp: holds_ring_def)
  then have "get_cooked t (i4 m) s = Inr (l, upd_consl t (\<lambda>c. c\<lparr>cf := (cf ?c + int (length l) + 1) mod 1024\<rparr>) s)"
    using ne by (simp add: get_cooked_def Let_def)
  moreover have "upd_consl t (\<lambda>c. c\<lparr>cf := (cf ?c + int (length l) + 1) mod 1024\<rparr>) s = taken t l s" by (simp add: upd_consl_def taken_def)
  ultimately show "read_request self m s = Inr (Some (src m, m\<lparr>mtype := int (length l), src := self\<rparr>, l), taken t l s)"
    using ne m t by (simp add: read_request_def Let_def wants_def)
  show "holds_lines ls (consoles (taken t l s) t)"
    using ring_pop [OF r(1)] h by (simp add: holds_lines_def taken_def)
qed

section \<open>The enter key\<close>

definition line_feed :: "console \<Rightarrow> console" where
  "line_feed c =
     (let c1 = c\<lparr>pos := pos c - pos c mod 80 + 80\<rparr> in if pos c1 \<ge> scr c1 + 1920 then scrolled c1 else c1)"

lemma line_feed_simps [simp]:
  "lbuf (line_feed c) = lbuf c" "ci (line_feed c) = ci c" "cbuf (line_feed c) = cbuf c" "cf (line_feed c) = cf c"
  "crr (line_feed c) = crr c" "rtop (line_feed c) = rtop c" "rstk (line_feed c) = rstk c"
  by (simp_all add: line_feed_def Let_def)

lemma lf_ok:
  assumes t: "t < 3" and w: "window (consoles s t)" and p: "0 \<le> pos (consoles s t)"
  shows "\<exists>v. lf t (cr t s) = Inr ((upd_consl t line_feed s)\<lparr>vbuf := v\<rparr>)"
proof -
  let ?f = "\<lambda>c. c\<lparr>pos := pos c - pos c mod 80 + 80\<rparr>"
  have u: "upd_consl t (\<lambda>c. c\<lparr>pos := pos c + SCR_W\<rparr>) (cr t s) = upd_consl t ?f s"
    using p by (simp add: cr_def upd_consl_def)
  have "window (consoles (upd_consl t ?f s) t)" using w by (simp add: window_def)
  from scrup_window [OF t this] obtain v
    where v: "scrup t (upd_consl t ?f s) = Inr ((upd_consl t (\<lambda>c. scrolled (?f c)) s)\<lparr>vbuf := v\<rparr>)" by auto
  show ?thesis
  proof (cases "pos (?f (consoles s t)) \<ge> scr (consoles s t) + 1920")
    case True
    then have "upd_consl t line_feed s = upd_consl t (\<lambda>c. scrolled (?f c)) s" by (simp add: line_feed_def upd_consl_def)
    then show ?thesis using True v unfolding lf_def u Let_def by auto
  next
    case False
    then have "upd_consl t line_feed s = upd_consl t ?f s" by (simp add: line_feed_def upd_consl_def)
    then have "lf t (cr t s) = Inr ((upd_consl t line_feed s)\<lparr>vbuf := vbuf s\<rparr>)" using False unfolding lf_def u Let_def by simp
    then show ?thesis by blast
  qed
qed

lemma scrolled_range:
  "window c \<Longrightarrow> 80 \<le> pos c \<Longrightarrow> pos c \<le> scr c + 2000 \<Longrightarrow> 0 \<le> pos (scrolled c) \<and> pos (scrolled c) \<le> scr (scrolled c) + 1920"
  by (auto simp: window_def scrolled_def)

lemma line_feed_window:
  assumes w: "window c" and p: "0 \<le> pos c" "pos c \<le> scr c + 1920"
  shows "window (line_feed c) \<and> 0 \<le> pos (line_feed c) \<and> pos (line_feed c) \<le> scr (line_feed c) + 1920"
proof -
  define q where "q = pos c - pos c mod 80 + 80"
  have "0 \<le> pos c mod 80" "pos c mod 80 \<le> pos c" using p by (simp_all add: zmod_le_nonneg_dividend)
  then have q: "80 \<le> q" "q \<le> scr c + 2000" using p by (simp_all add: q_def)
  have "window (c\<lparr>pos := q\<rparr>)" using w by (simp add: window_def)
  then show ?thesis using window_scrolled [of "c\<lparr>pos := q\<rparr>"] scrolled_range [of "c\<lparr>pos := q\<rparr>"] q
    by (simp add: line_feed_def Let_def q_def [symmetric])
qed

lemma fresh_line:
  assumes "lbuf c = 0 # rest" and "length (lbuf c) = 257" and "ci c = 0" and "window c" and "0 \<le> pos c" and "pos c \<le> scr c + 1920"
  shows "holds_line ([], []) c"
  using assms by (auto simp: holds_line_def)

text \<open>What \<open>cook\<close> has done when it looks at the waiting reads.\<close>

lemma cook_ok:
  assumes t: "t < 3" and h: "holds_line (l, r) (consoles s t)" and q: "holds_lines ls (consoles s t)"
    and room: "length (stored ls) + length (l @ r) < 1023"
  shows "\<exists>s1. cook self t s = (if rtop (consoles s1 t) \<noteq> 0 then
        let s = upd_consl t (\<lambda>c. c\<lparr>rtop := rtop c - 1\<rparr>) s1; c = consoles s t in
        guardE OutOfRange (0 \<le> rtop c \<and> rtop c < int (length (rstk c))) (read_request self (rstk c ! nat (rtop c)) s)
      else Inr (None, s1)) \<and>
    holds_line ([], []) (consoles s1 t) \<and> holds_lines (ls @ [l @ r]) (consoles s1 t) \<and>
    rtop (consoles s1 t) = rtop (consoles s t) \<and> rstk (consoles s1 t) = rstk (consoles s t) \<and> current_consl s1 = current_consl s \<and>
    scr (consoles s1 t) = scr (line_feed (consoles s t)) \<and> pos (consoles s1 t) = pos (line_feed (consoles s t))"
proof -
  obtain rest where b: "lbuf (consoles s t) = (l @ r) @ 0 # rest" using h by (auto simp: holds_line_def)
  have z: "0 \<notin> set (l @ r)" and lb: "length (lbuf (consoles s t)) = 257" using h by (auto simp: holds_line_def)
  have hr: "holds_ring (stored ls) (consoles s t)" using q by (simp add: holds_lines_def)
  obtain cb rr where c: "cook_loop t (lbuf (consoles s t)) s = Inr (upd_consl t (\<lambda>c. c\<lparr>cbuf := cb, crr := rr\<rparr>) s)"
    and ring: "holds_ring (stored ls @ (l @ r) @ [0]) ((consoles s t)\<lparr>cbuf := cb, crr := rr\<rparr>)"
    using cook_loop_ok [OF hr z, of rest] room unfolding b by (simp only: if_True) blast
  let ?f = "\<lambda>c. c\<lparr>cbuf := cb, crr := rr, ci := 0, lbuf := (lbuf c)[0 := 0]\<rparr>"
  have sl: "set_lbuf t 0 0 (upd_consl t (\<lambda>c. c\<lparr>ci := 0\<rparr>) (upd_consl t (\<lambda>c. c\<lparr>cbuf := cb, crr := rr\<rparr>) s)) = Inr (upd_consl t ?f s)"
    using lb by (simp add: set_lbuf_def)
  have p: "window (?f (consoles s t))" "0 \<le> pos (?f (consoles s t))" "pos (?f (consoles s t)) \<le> scr (?f (consoles s t)) + 1920"
    using h by (auto simp: holds_line_def window_def)
  obtain v where v: "lf t (cr t (upd_consl t ?f s)) = Inr ((upd_consl t line_feed (upd_consl t ?f s))\<lparr>vbuf := v\<rparr>)"
    using lf_ok [of t "upd_consl t ?f s"] t p by auto
  define s1 where "s1 = (upd_consl t line_feed (upd_consl t ?f s))\<lparr>vbuf := v\<rparr>"
  let ?c = "line_feed (?f (consoles s t))"
  have c1: "consoles s1 t = ?c" by (simp add: s1_def)
  obtain y ys where y: "lbuf (consoles s t) = y # ys" using lb by (cases "lbuf (consoles s t)") auto
  have "holds_line ([], []) ?c"
    using line_feed_window [OF p] lb y by (intro fresh_line [of _ ys]) simp_all
  moreover have "holds_lines (ls @ [l @ r]) ?c"
    using ring q z by (simp add: holds_lines_def holds_ring_def)
  moreover have "cook self t s = (if rtop (consoles s1 t) \<noteq> 0 then
        let s = upd_consl t (\<lambda>c. c\<lparr>rtop := rtop c - 1\<rparr>) s1; c = consoles s t in
        guardE OutOfRange (0 \<le> rtop c \<and> rtop c < int (length (rstk c))) (read_request self (rstk c ! nat (rtop c)) s)
      else Inr (None, s1))"
    unfolding cook_def c bindE_Inr sl v s1_def [symmetric] by (rule refl)
  moreover have "scr ?c = scr (line_feed (consoles s t))" "pos ?c = pos (line_feed (consoles s t))"
    by (simp_all add: line_feed_def Let_def scrolled_def)
  ultimately show ?thesis by (intro exI [of _ s1]) (simp add: c1 s1_def upd_consl_def)
qed

section \<open>From boot to readers\<close>

text \<open>The arrays of the consoles have the lengths of tty.h.\<close>

definition arrays :: "console \<Rightarrow> bool" where
  "arrays c \<longleftrightarrow> length (lbuf c) = 257 \<and> length (cbuf c) = 1025 \<and> length (rstk c) = 16"

definition idle :: "u8 list list \<Rightarrow> console \<Rightarrow> bool" where
  "idle ls c \<longleftrightarrow> holds_line ([], []) c \<and> holds_lines ls c \<and> rtop c = 0 \<and> length (rstk c) = 16"

lemma init_consl_ok:
  assumes t: "t < 4" and a: "arrays (consoles s t)"
  shows "\<exists>s'. init_consl t s = Inr s' \<and> idle [] (consoles s' t) \<and> (\<forall>u. u \<noteq> t \<longrightarrow> consoles s' u = consoles s u)"
proof -
  let ?f = "\<lambda>c. c\<lparr>scr := 0, pos := 0, lbuf := (lbuf c)[0 := 0], ci := 0, cf := 0, crr := 0, rtop := 0\<rparr>"
  define s1 where "s1 = upd_consl t ?f s"
  have "\<exists>w. fold_exec (\<lambda>i. set_cell t i (draw 32)) [0..WH - 1] (s1\<lparr>vbuf := vbuf s1\<rparr>) = Inr (s1\<lparr>vbuf := w\<rparr>)"
  proof (rule fold_vbuf_ok)
    fix i v assume "i \<in> set [0..WH - 1]"
    then have "0 \<le> i \<and> i \<le> 1919" by (simp only: set_upto atLeastAtMost_iff) auto
    then show "\<exists>w. set_cell t i (draw 32) (s1\<lparr>vbuf := v\<rparr>) = Inr (s1\<lparr>vbuf := w\<rparr>)"
      using t by (auto simp: set_cell_def cell_at_def)
  qed
  moreover have "s1\<lparr>vbuf := vbuf s1\<rparr> = s1" by simp
  ultimately obtain w where w: "fold_exec (\<lambda>i. set_cell t i (draw 32)) [0..WH - 1] s1 = Inr (s1\<lparr>vbuf := w\<rparr>)"
    by (elim exE) (simp only:)
  obtain s' where s': "consl_sync t (s1\<lparr>vbuf := w\<rparr>) = Inr s'" "consoles s' = consoles s1"
    using consl_sync_all [OF t, of "s1\<lparr>vbuf := w\<rparr>"] by (auto simp: s1_def window_def)
  obtain y ys where y: "lbuf (consoles s t) = y # ys" using a by (cases "lbuf (consoles s t)") (auto simp: arrays_def)
  have "idle [] (?f (consoles s t))"
    using a y unfolding idle_def
    by (intro conjI fresh_line [of _ ys]) (auto simp: arrays_def window_def holds_lines_def holds_ring_def)
  moreover have "init_consl t s = Inr s'" unfolding init_consl_def Let_def s1_def [symmetric] w bindE_Inr by (rule s'(1))
  ultimately show ?thesis using s'(2) by (auto simp: s1_def)
qed

lemma init_consls_ok:
  assumes "\<forall>t \<in> set ts. t < 4 \<and> arrays (consoles s t)" and "distinct ts"
  shows "\<exists>s'. fold_exec init_consl ts s = Inr s' \<and> (\<forall>t \<in> set ts. idle [] (consoles s' t)) \<and>
    (\<forall>u. u \<notin> set ts \<longrightarrow> consoles s' u = consoles s u)"
  using assms
proof (induction ts arbitrary: s)
  case (Cons t ts)
  obtain s1 where s1: "init_consl t s = Inr s1" "idle [] (consoles s1 t)" "\<forall>u. u \<noteq> t \<longrightarrow> consoles s1 u = consoles s u"
    using init_consl_ok [of t s] Cons.prems by auto
  have "\<forall>t \<in> set ts. t < 4 \<and> arrays (consoles s1 t)" using Cons.prems s1(3) by (metis distinct.simps(2) list.set_intros(2))
  with Cons.IH [of s1] Cons.prems s1 show ?case by fastforce
qed simp

lemma init_console_ok:
  assumes "\<forall>t < 4. arrays (consoles s t)"
  shows "\<exists>s'. init_console s = Inr s' \<and> (\<forall>t < 4. idle [] (consoles s' t))"
proof -
  have "\<exists>s'. fold_exec init_consl [0..<4] (s\<lparr>banner := replicate 80 32 @ [0]\<rparr>) = Inr s' \<and>
      (\<forall>t \<in> set [0..<4]. idle [] (consoles s' t)) \<and>
      (\<forall>u. u \<notin> set [0..<4] \<longrightarrow> consoles s' u = consoles (s\<lparr>banner := replicate 80 32 @ [0]\<rparr>) u)"
    using assms by (intro init_consls_ok) auto
  then obtain s' where "fold_exec init_consl [0..<4] (s\<lparr>banner := replicate 80 32 @ [0]\<rparr>) = Inr s'"
    "\<forall>t \<in> set [0..<4]. idle [] (consoles s' t)" by blast
  then show ?thesis by (auto simp: init_console_def)
qed

text \<open>A line is typed: its keys, then enter.\<close>

definition enter_line :: "int \<Rightarrow> nat \<Rightarrow> key list \<Rightarrow> ttys \<Rightarrow> (tty_answer \<times> ttys) exec" where
  "enter_line self t ks s = bindE (fold_exec (press self t) ks s) (consl_feed self t 28)"

definition line_of :: "key list \<Rightarrow> u8 list" where
  "line_of ks = (case fold edit ks ([], []) of (l, r) \<Rightarrow> l @ r)"

fun enter_lines :: "int \<Rightarrow> nat \<Rightarrow> key list list \<Rightarrow> ttys \<Rightarrow> (tty_answer list \<times> ttys) exec" where
  "enter_lines self t [] s = Inr ([], s)"
| "enter_lines self t (ks # kss) s =
     bindE (enter_line self t ks s) (\<lambda>(a, s). bindE (enter_lines self t kss s) (\<lambda>(as, s). Inr (a # as, s)))"

fun read_requests :: "int \<Rightarrow> msg list \<Rightarrow> ttys \<Rightarrow> (tty_answer list \<times> ttys) exec" where
  "read_requests self [] s = Inr ([], s)"
| "read_requests self (m # ms) s =
     bindE (read_request self m s) (\<lambda>(a, s). bindE (read_requests self ms s) (\<lambda>(as, s). Inr (a # as, s)))"

text \<open>The answer that carries a line.\<close>

definition answer :: "int \<Rightarrow> u8 list \<Rightarrow> msg \<Rightarrow> tty_answer" where
  "answer self l m = Some (src m, m\<lparr>mtype := int (length l), src := self\<rparr>, l)"

lemma enter_line_ok:
  assumes t: "t < 3" and i: "idle ls (consoles s t)" and a: "admissible fits edit ks ([], [])"
    and room: "length (stored (ls @ [line_of ks])) \<le> 1023"
  shows "\<exists>s'. enter_line self t ks s = Inr (None, s') \<and> idle (ls @ [line_of ks]) (consoles s' t)"
proof -
  obtain l r where z: "fold edit ks ([], []) = (l, r)" by force
  then have lr: "line_of ks = l @ r" by (simp add: line_of_def)
  obtain s1 where s1: "fold_exec (press self t) ks s = Inr s1" "holds_line (l, r) (consoles s1 t)"
    "kept (consoles s1 t) = kept (consoles s t)"
    using keys_line [OF t, of "([], [])" s ks self] i a z by (auto simp: idle_def)
  have "holds_lines ls (consoles s1 t)" "rtop (consoles s1 t) = 0" "length (rstk (consoles s1 t)) = 16"
    using i s1(3) by (auto simp: idle_def holds_lines_def holds_ring_def kept_def)
  with cook_ok [OF t s1(2), of ls self] room lr obtain s2 where s2: "cook self t s1 = Inr (None, s2)"
    "holds_line ([], []) (consoles s2 t)" "holds_lines (ls @ [l @ r]) (consoles s2 t)" "rtop (consoles s2 t) = 0"
    "length (rstk (consoles s2 t)) = 16" by auto
  obtain s3 where s3: "consl_sync t s2 = Inr s3" "consoles s3 = consoles s2" using sync_line [OF t s2(2)] by blast
  have "enter_line self t ks s = Inr (None, s3)"
    using s1(1) s2(1) s3(1) by (simp add: enter_line_def consl_feed_def Let_def)
  then show ?thesis using s2 s3(2) lr by (simp add: idle_def)
qed

lemma enter_lines_ok:
  assumes "t < 3" and "idle ls (consoles s t)" and "\<forall>ks \<in> set kss. admissible fits edit ks ([], [])"
    and "length (stored (ls @ map line_of kss)) \<le> 1023"
  shows "\<exists>s'. enter_lines self t kss s = Inr (replicate (length kss) None, s') \<and> idle (ls @ map line_of kss) (consoles s' t)"
  using assms
proof (induction kss arbitrary: ls s)
  case (Cons ks kss)
  have "length (stored (ls @ [line_of ks])) \<le> length (stored (ls @ map line_of (ks # kss)))"
    by (simp add: stored_def)
  with Cons.prems enter_line_ok [OF Cons.prems(1,2), of ks self] obtain s1
    where s1: "enter_line self t ks s = Inr (None, s1)" "idle (ls @ [line_of ks]) (consoles s1 t)" by auto
  from Cons.IH [OF Cons.prems(1) s1(2)] Cons.prems s1(1) show ?case by auto
qed simp

lemma read_requests_ok:
  assumes "t < 3" and "holds_lines ls (consoles s t)" and "list_all2 (\<lambda>l m. wants t (length l) m) ls ms"
  shows "\<exists>s'. read_requests self ms s = Inr (map2 (answer self) ls ms, s') \<and> holds_lines [] (consoles s' t)"
  using assms
proof (induction ls arbitrary: ms s)
  case (Cons l ls)
  then obtain m ms' where m: "ms = m # ms'" "wants t (length l) m" "list_all2 (\<lambda>l m. wants t (length l) m) ls ms'"
    by (auto simp: list_all2_Cons1)
  have t: "t < 4" using Cons.prems(1) by simp
  note r1 = read_request_ok(1) [OF Cons.prems(2) t m(2), of self] and r2 = read_request_ok(2) [OF Cons.prems(2) t m(2)]
  from Cons.IH [OF Cons.prems(1) r2 m(3)] r1 m(1) show ?case by (auto simp: answer_def)
qed simp

text \<open>An idle console with reads waiting for a line, the latest on top of the stack.\<close>

definition waiting :: "msg list \<Rightarrow> console \<Rightarrow> bool" where
  "waiting ms c \<longleftrightarrow> holds_line ([], []) c \<and> holds_lines [] c \<and> rtop c = int (length ms) \<and> length (rstk c) = 16 \<and>
     length ms \<le> 16 \<and> take (length ms) (rstk c) = ms"

lemma idle_waiting: "idle [] c \<longleftrightarrow> waiting [] c"
  by (auto simp: idle_def waiting_def)

lemma wait_ok:
  assumes t: "t < 3" and w: "waiting ms (consoles s t)" and m: "dev_id m = int t" and room: "length ms < 16"
  shows "\<exists>s'. read_request self m s = Inr (None, s') \<and> waiting (ms @ [m]) (consoles s' t)"
proof -
  let ?c = "consoles s t"
  let ?f = "\<lambda>c. c\<lparr>rstk := (rstk c)[nat (rtop c) := m], rtop := rtop c + 1\<rparr>"
  have e: "cf ?c = crr ?c" using w ring_empty [of "[]" ?c] by (simp add: waiting_def holds_lines_def)
  have "read_request self m s = Inr (None, upd_consl t ?f s)"
    using e w m t room by (simp add: read_request_def Let_def waiting_def)
  moreover have "take (length (ms @ [m])) (rstk (?f ?c)) = ms @ [m]"
    using w room by (simp add: waiting_def take_Suc_conv_app_nth)
  moreover have "holds_line ([], []) (?f ?c)" "holds_lines [] (?f ?c)"
    using w by (simp_all add: waiting_def holds_line_def window_def holds_lines_def holds_ring_def)
  ultimately show ?thesis using w room by (auto simp: waiting_def)
qed

lemma enter_waiting:
  assumes t: "t < 3" and w: "waiting (ms @ [m]) (consoles s t)" and a: "admissible fits edit ks ([], [])"
    and m: "wants t (length (line_of ks)) m"
  shows "\<exists>s'. enter_line self t ks s = Inr (answer self (line_of ks) m, s') \<and> waiting ms (consoles s' t)"
proof -
  obtain l r where z: "fold edit ks ([], []) = (l, r)" by force
  then have lr: "line_of ks = l @ r" by (simp add: line_of_def)
  obtain s1 where s1: "fold_exec (press self t) ks s = Inr s1" "holds_line (l, r) (consoles s1 t)"
    "kept (consoles s1 t) = kept (consoles s t)"
    using keys_line [OF t, of "([], [])" s ks self] w a z by (auto simp: waiting_def)
  have q: "holds_lines [] (consoles s1 t)" "rtop (consoles s1 t) = int (length ms) + 1" "rstk (consoles s1 t) = rstk (consoles s t)"
    using w s1(3) by (auto simp: waiting_def holds_lines_def holds_ring_def kept_def)
  have room: "length (stored []) + length (l @ r) < 1023" using s1(2) by (simp add: holds_line_def)
  have st: "length (rstk (consoles s t)) = 16" "length ms < 16" "take (length ms) (rstk (consoles s t)) = ms"
    "rstk (consoles s t) ! length ms = m" using w by (auto simp: waiting_def take_Suc_conv_app_nth)
  from cook_ok [OF t s1(2) q(1) room, of self] obtain s2
    where s2: "cook self t s1 = (if rtop (consoles s2 t) \<noteq> 0 then
        let s = upd_consl t (\<lambda>c. c\<lparr>rtop := rtop c - 1\<rparr>) s2; c = consoles s t in
        guardE OutOfRange (0 \<le> rtop c \<and> rtop c < int (length (rstk c))) (read_request self (rstk c ! nat (rtop c)) s)
      else Inr (None, s2))"
    and l2: "holds_line ([], []) (consoles s2 t)" "holds_lines ([] @ [l @ r]) (consoles s2 t)"
      "rtop (consoles s2 t) = int (length ms) + 1" "rstk (consoles s2 t) = rstk (consoles s t)" using q by auto
  define s3 where "s3 = upd_consl t (\<lambda>c. c\<lparr>rtop := rtop c - 1\<rparr>) s2"
  have c3: "rtop (consoles s3 t) = int (length ms)" "rstk (consoles s3 t) = rstk (consoles s t)"
    "holds_lines [l @ r] (consoles s3 t)" "holds_line ([], []) (consoles s3 t)"
    using l2 by (simp_all add: s3_def holds_lines_def holds_ring_def holds_line_def window_def)
  have "cook self t s1 = read_request self m s3"
    using s2 l2(3) c3 st by (simp add: s3_def [symmetric] Let_def)
  then have s4: "cook self t s1 = Inr (answer self (l @ r) m, taken t (l @ r) s3)" "holds_lines [] (consoles (taken t (l @ r) s3) t)"
    using read_request_ok [OF c3(3)] t m lr by (simp_all add: answer_def)
  have l4: "holds_line ([], []) (consoles (taken t (l @ r) s3) t)"
    using c3(4) by (simp add: taken_def holds_line_def window_def)
  obtain s5 where s5: "consl_sync t (taken t (l @ r) s3) = Inr s5" "consoles s5 = consoles (taken t (l @ r) s3)"
    using sync_line [OF t l4] by blast
  have "enter_line self t ks s = Inr (answer self (line_of ks) m, s5)"
    using s1(1) s4(1) s5(1) lr by (simp add: enter_line_def consl_feed_def Let_def)
  moreover have "waiting ms (consoles s5 t)"
    using s4(2) l4 c3 st s5(2) by (simp add: waiting_def taken_def)
  ultimately show ?thesis by blast
qed

section \<open>A machine to try the properties on\<close>

definition try_msg :: "int \<Rightarrow> msg" where
  "try_msg p = \<lparr>src = p, dest = 5, mtype = DEV_READ, i0 = p, i1 = 0, i2 = 4096, i3 = 0, i4 = 256\<rparr>"

definition try_console :: console where
  "try_console = \<lparr>scr = 0, pos = 0, lbuf = replicate 257 0, cbuf = replicate 1025 0, ci = 0, cf = 0, crr = 0,
     rtop = 0, rstk = replicate 16 (try_msg 0)\<rparr>"

definition try_ttys :: ttys where
  "try_ttys = \<lparr>consoles = \<lambda>_. try_console, vbuf = \<lambda>_. 0, vmem = \<lambda>_. 0, cursor = 0, current_consl = 0,
     banner = replicate 81 32, tsc = 0, caps = 0, ctrl = 0, alt = 0, shft = 0\<rparr>"

lemma try_arrays: "\<forall>t < 4. arrays (consoles try_ttys t)"
  by (simp add: arrays_def try_ttys_def try_console_def)

lemma try_idle: "idle [] (consoles try_ttys t)"
proof -
  have "replicate (Suc 256) (0 :: u8) = 0 # replicate 256 0" by (rule replicate_Suc)
  then have "lbuf try_console = 0 # replicate 256 0" by (simp add: try_console_def)
  then have "holds_line ([], []) try_console"
    by (rule fresh_line) (simp_all add: try_console_def window_def)
  then show ?thesis by (simp add: idle_def try_ttys_def holds_lines_def holds_ring_def) (simp add: try_console_def)
qed

lemma try_wants: "n < 256 \<Longrightarrow> 0 \<le> p \<Longrightarrow> p < 50 \<Longrightarrow> wants 0 n (try_msg p)"
  by (simp add: wants_def try_msg_def POOL_NUM_def)

section \<open>Properties\<close>

text \<open>
  C16. The line editor is an editor of two lists. On a console of the first three terminals, every
  sequence of typed characters, backspace, delete, arrow, home and end keys whose line stays within 255
  characters runs without stopping the kernel, scrolls as often as it has to, and leaves in the line
  buffer, with the cursor, what the reference makes of the keys; the line still begins in the same column
  of the screen, and the finished lines and the waiting reads are not touched.
\<close>

theorem line_editor_refines:
  assumes "t < 3" and "holds_line z (consoles s t)" and "admissible fits edit ks z"
  shows "\<exists>s'. fold_exec (press self t) ks s = Inr s' \<and> holds_line (fold edit ks z) (consoles s' t) \<and>
    kept (consoles s' t) = kept (consoles s t) \<and> current_consl s' = current_consl s"
  by (rule keys_line [OF assms])

lemma line_editor_refines_witness:
  "\<exists>s'. fold_exec (press 5 0) [Type 97, Left, Type 98, End, Back] try_ttys = Inr s' \<and>
     holds_line ([98], []) (consoles s' 0)"
proof -
  have "holds_line ([], []) (consoles try_ttys 0)" using try_idle by (simp add: idle_def)
  from line_editor_refines [OF _ this, of "[Type 97, Left, Type 98, End, Back]" 5]
  show ?thesis by auto
qed

text \<open>
  The 256th character stops the kernel: when the line has 255 characters, typing one more, wherever
  the cursor stands, is a panic.
\<close>

theorem full_line_panics:
  assumes "holds_line (l, r) (consoles s t)" and "length l + length r = 255"
  shows "press self t (Type ch) s = Inl Panic"
  using accept_full [OF assms] by simp

lemma full_line_panics_witness:
  "press 5 0 (Type 97) (upd_consl 0 (\<lambda>c. c\<lparr>lbuf := replicate 255 98 @ [0, 0], ci := 255, pos := 255\<rparr>) try_ttys) = Inl Panic"
proof -
  have "holds_line (replicate 255 98, []) (consoles (upd_consl 0 (\<lambda>c. c\<lparr>lbuf := replicate 255 98 @ [0, 0], ci := 255, pos := 255\<rparr>) try_ttys) 0)"
    by (auto simp: holds_line_def window_def try_ttys_def try_console_def)
  then show ?thesis by (rule full_line_panics) simp
qed

text \<open>
  C17. From boot on, the lines typed on one of the first three terminals reach its readers whole and in
  order: after \<open>init_console\<close>, edit and enter any lines that fit into the ring together, and the reads
  that follow return them one by one, each as the reference editor has it.
\<close>

theorem lines_reach_readers:
  assumes "\<forall>t < 4. arrays (consoles s t)" and "t < 3" and "\<forall>ks \<in> set kss. admissible fits edit ks ([], [])"
    and "length (stored (map line_of kss)) \<le> 1023"
    and "list_all2 (\<lambda>l m. wants t (length l) m) (map line_of kss) ms"
  shows "\<exists>s0 s1 s2. init_console s = Inr s0 \<and>
    enter_lines self t kss s0 = Inr (replicate (length kss) None, s1) \<and>
    read_requests self ms s1 = Inr (map2 (answer self) (map line_of kss) ms, s2)"
proof -
  obtain s0 where s0: "init_console s = Inr s0" "idle [] (consoles s0 t)"
    using init_console_ok [OF assms(1)] assms(2) by fastforce
  obtain s1 where s1: "enter_lines self t kss s0 = Inr (replicate (length kss) None, s1)" "idle (map line_of kss) (consoles s1 t)"
    using enter_lines_ok [OF assms(2) s0(2) assms(3)] assms(4) by auto
  with read_requests_ok [OF assms(2) _ assms(5), of s1 self] s0 show ?thesis by (auto simp: idle_def)
qed

lemma lines_reach_readers_witness:
  "\<exists>s0 s1 s2. init_console try_ttys = Inr s0 \<and>
    enter_lines 5 0 [[Type 97, Left, Type 98], [Type 99]] s0 = Inr ([None, None], s1) \<and>
    read_requests 5 [try_msg 7, try_msg 8] s1 = Inr ([answer 5 [98, 97] (try_msg 7), answer 5 [99] (try_msg 8)], s2)"
  using lines_reach_readers [OF try_arrays, of 0 "[[Type 97, Left, Type 98], [Type 99]]" "[try_msg 7, try_msg 8]" 5]
  by (simp add: line_of_def try_wants del: enter_lines.simps read_requests.simps)

text \<open>
  C38. Reads that come before the line wait on a stack: of two processes that read an idle terminal, the
  one that asked last gets the first line that is entered, and the one that asked first the second line.
\<close>

theorem waiting_reads_last_first:
  assumes "t < 3" and "idle [] (consoles s t)" and "admissible fits edit ks ([], [])" and "admissible fits edit ks' ([], [])"
    and "wants t (length (line_of ks)) m2" and "wants t (length (line_of ks')) m1"
  shows "\<exists>s1 s2 s3. read_requests self [m1, m2] s = Inr ([None, None], s1) \<and>
    enter_line self t ks s1 = Inr (answer self (line_of ks) m2, s2) \<and>
    enter_line self t ks' s2 = Inr (answer self (line_of ks') m1, s3)"
proof -
  have d: "dev_id m1 = int t" "dev_id m2 = int t" using assms by (simp_all add: wants_def)
  obtain s0 where s0: "read_request self m1 s = Inr (None, s0)" "waiting [m1] (consoles s0 t)"
    using wait_ok [OF assms(1), of "[]" s m1 self] assms(2) d by (auto simp: idle_waiting)
  obtain s1 where s1: "read_request self m2 s0 = Inr (None, s1)" "waiting ([m1] @ [m2]) (consoles s1 t)"
    using wait_ok [OF assms(1) s0(2) d(2)] by auto
  obtain s2 where s2: "enter_line self t ks s1 = Inr (answer self (line_of ks) m2, s2)" "waiting ([] @ [m1]) (consoles s2 t)"
    using enter_waiting [OF assms(1) s1(2) assms(3,5)] by auto
  then show ?thesis using enter_waiting [OF assms(1) s2(2) assms(4,6)] s0 s1 by fastforce
qed

lemma waiting_reads_last_first_witness:
  "\<exists>s1 s2 s3. read_requests 5 [try_msg 7, try_msg 8] try_ttys = Inr ([None, None], s1) \<and>
    enter_line 5 0 [Type 97] s1 = Inr (answer 5 [97] (try_msg 8), s2) \<and>
    enter_line 5 0 [Type 98] s2 = Inr (answer 5 [98] (try_msg 7), s3)"
  using waiting_reads_last_first [OF _ try_idle, of 0 "[Type 97]" "[Type 98]" "try_msg 8" "try_msg 7" 5]
  by (simp add: line_of_def try_wants del: read_requests.simps)

end
