(* ===== verification/Boot.thy ===== *)
theory Boot
  imports Ide_Cache
begin

text \<open>
  The boot loader (boot/main.c): reading sectors by port input and output, reading a segment of the
  kernel's ELF file, and \<open>bootmain\<close>. The disk is a parameter: what the data port delivers after the
  bytes written to the command registers; waiting for it to be ready is left to it. Memory is physical.
\<close>

section \<open>Sectors\<close>

type_synonym ata = "(u16 \<times> u8) list \<Rightarrow> nat \<Rightarrow> u32"
type_synonym ram = "nat \<Rightarrow> u8"

definition sect_commands :: "int \<Rightarrow> (u16 \<times> u8) list" where
  "sect_commands off =
     [(0x1F2, 1), (0x1F3, word_of_int off), (0x1F4, word_of_int (off div 2 ^ 8)),
      (0x1F5, word_of_int (off div 2 ^ 16)), (0x1F6, word_of_int (off div 2 ^ 24) OR 0xE0), (0x1F7, 0x20)]"

text \<open>128 words go to memory; running over the end of the address space is \<open>OutOfRange\<close>.\<close>

definition readsect :: "ata \<Rightarrow> u32 \<Rightarrow> int \<Rightarrow> ram \<Rightarrow> ram exec" where
  "readsect hw dst off mem =
     guardE OutOfRange (unat dst + 512 \<le> 2 ^ 32)
       (Inr (patch mem (unat dst) (bytes_list (map (hw (sect_commands off)) [0..<128]))))"

partial_function (option) readseg_loop :: "ata \<Rightarrow> u32 \<Rightarrow> u32 \<Rightarrow> int \<Rightarrow> ram \<Rightarrow> ram exec option" where
  "readseg_loop hw pa epa off mem =
     (if pa < epa then
        case readsect hw pa off mem of
          Inl e \<Rightarrow> Some (Inl e)
        | Inr mem \<Rightarrow> readseg_loop hw (pa + 512) epa (i32 (off + 1)) mem
      else Some (Inr mem))"

definition readseg :: "ata \<Rightarrow> u32 \<Rightarrow> int \<Rightarrow> int \<Rightarrow> ram \<Rightarrow> ram exec" where
  "readseg hw pa count off mem =
     (case readseg_loop hw (pa - word_of_int (cmod off 512)) (pa + word_of_int count) (cdiv off 512 + 1) mem of
        None \<Rightarrow> Inl Loops
      | Some r \<Rightarrow> r)"

section \<open>The kernel\<close>

definition ram_u32 :: "ram \<Rightarrow> u32 \<Rightarrow> u32" where
  "ram_u32 mem a = bytes_u32 (mem (unat a)) (mem (unat (a + 1))) (mem (unat (a + 2))) (mem (unat (a + 3)))"

record program_header =
  p_off :: u32
  p_paddr :: u32
  p_filesz :: u32
  p_memsz :: u32

text \<open>The fields of \<open>ELFHeader\<close> and of the \<open>n\<close>th \<open>ProgramHeader\<close> at their offsets in the structures.\<close>

definition elf_entry :: "ram \<Rightarrow> u32" where "elf_entry mem = ram_u32 mem (0x8000 + 24)"
definition elf_phoff :: "ram \<Rightarrow> u32" where "elf_phoff mem = ram_u32 mem (0x8000 + 28)"
definition elf_phnum :: "ram \<Rightarrow> nat" where
  "elf_phnum mem = unat (mem 0x802C) + 256 * unat (mem 0x802D)"

definition header_at :: "ram \<Rightarrow> u32 \<Rightarrow> program_header" where
  "header_at mem ph = \<lparr>p_off = ram_u32 mem (ph + 4), p_paddr = ram_u32 mem (ph + 12),
     p_filesz = ram_u32 mem (ph + 16), p_memsz = ram_u32 mem (ph + 20)\<rparr>"

text \<open>\<open>for (i = pa + filesz; i < pa + memsz; *i ++ = 0)\<close>.\<close>

definition clear_rest :: "u32 \<Rightarrow> program_header \<Rightarrow> ram \<Rightarrow> ram" where
  "clear_rest pa h mem = (\<lambda>a. if unat (pa + p_filesz h) \<le> a \<and> a < unat (pa + p_memsz h) then 0 else mem a)"

definition load_segment :: "ata \<Rightarrow> program_header \<Rightarrow> ram \<Rightarrow> ram exec" where
  "load_segment hw h mem =
     (let pa = p_paddr h - 0xC0000000 in
      bindE (readseg hw pa (sint (p_filesz h)) (sint (p_off h)) mem) (\<lambda>mem. Inr (clear_rest pa h mem)))"

text \<open>The loop over the program headers, which are read from memory as the loop goes on.\<close>

definition load_nth :: "ata \<Rightarrow> u32 \<Rightarrow> nat \<Rightarrow> ram \<Rightarrow> ram exec" where
  "load_nth hw ph n mem = load_segment hw (header_at mem (ph + 32 * of_nat n)) mem"

text \<open>The result: the address \<open>bootmain\<close> jumps to, and memory.\<close>

definition bootmain :: "ata \<Rightarrow> ram \<Rightarrow> (u32 \<times> ram) exec" where
  "bootmain hw mem =
     bindE (readseg hw 0x8000 4096 0 mem) (\<lambda>mem.
     bindE (fold_exec (load_nth hw (0x8000 + elf_phoff mem)) [0..<elf_phnum mem] mem) (\<lambda>mem.
       Inr (elf_entry mem - 0xC0000000, mem)))"

section \<open>What a segment reads\<close>

text \<open>
  A disk that answers the read command for one sector with the bytes of the sector the address registers
  name (\<open>lba_registers\<close>: the 28 bits the controller takes from its ports).
\<close>

definition answers_reads :: "(nat \<Rightarrow> u8) \<Rightarrow> ata \<Rightarrow> bool" where
  "answers_reads d hw \<longleftrightarrow>
     (\<forall>c. (0x1F2, 1) \<in> set c \<and> last c = (0x1F7, 0x20) \<longrightarrow>
       map (hw c) [0..<128] = u32_list (cells d (512 * unat (lba_registers c)) 512))"

lemma sect_commands_lba:
  assumes "n < 2 ^ 28"
  shows "unat (lba_registers (sect_commands (int n))) = n"
proof -
  let ?w = "of_nat n :: u32"
  have u: "unat ?w = n" using assms by (simp add: unat_of_nat32)
  then have hi: "\<not> bit ?w k" if "28 \<le> k" for k
    using assms that by (intro bit_small [of _ 28]) simp_all
  have hn: "\<not> bit n k" if "28 \<le> k" "k < 32" for k using hi [OF that(1)] that(2) by (simp add: bit_of_nat_iff)
  have m: "(0x0F :: u32) = mask 4" by (simp add: mask_eq_exp_minus_1)
  have l: "lba_registers (sect_commands (int n)) =
      ucast (word_of_int (int n) :: u8) OR push_bit 8 (ucast (word_of_int (drop_bit 8 (int n)) :: u8)) OR
      push_bit 16 (ucast (word_of_int (drop_bit 16 (int n)) :: u8)) OR
      push_bit 24 (ucast (word_of_int (drop_bit 24 (int n)) OR 0xE0 :: u8) AND mask 4)"
    by (simp add: lba_registers_def sect_commands_def drop_bit_eq_div m)
  have "lba_registers (sect_commands (int n)) = ?w"
    unfolding l
  proof (rule bit_word_eqI)
    fix k assume k: "k < LENGTH(32)"
    consider "k < 8" | "8 \<le> k" "k < 16" | "16 \<le> k" "k < 24" | "k = 24" | "k = 25" | "k = 26" | "k = 27" | "28 \<le> k"
      by linarith
    then show "bit (ucast (word_of_int (int n) :: u8) OR push_bit 8 (ucast (word_of_int (drop_bit 8 (int n)) :: u8)) OR
      push_bit 16 (ucast (word_of_int (drop_bit 16 (int n)) :: u8)) OR
      push_bit 24 (ucast (word_of_int (drop_bit 24 (int n)) OR 0xE0 :: u8) AND mask 4) :: u32) k = bit ?w k"
      by cases (use k hn in \<open>simp_all add: bit_or_iff bit_and_iff bit_mask_iff bit_push_bit_iff
        bit_ucast_iff bit_drop_bit_eq bit_word_of_int_iff bit_of_nat_iff less_diff_conv2\<close>)
  qed
  then show ?thesis by (simp only: u)
qed

lemma readsect_ok:
  assumes "answers_reads d hw" and "n < 2 ^ 28" and "unat dst + 512 \<le> 2 ^ 32"
  shows "readsect hw dst (int n) mem = Inr (patch mem (unat dst) (cells d (512 * n) 512))"
proof -
  have "(0x1F2, 1) \<in> set (sect_commands (int n)) \<and> last (sect_commands (int n)) = (0x1F7, 0x20)"
    by (simp add: sect_commands_def)
  then have "map (hw (sect_commands (int n))) [0..<128] = u32_list (cells d (512 * n) 512)"
    using assms(1) sect_commands_lba [OF assms(2)] unfolding answers_reads_def by metis
  then show ?thesis using assms(3) by (simp add: readsect_def del: upt_rec_numeral)
qed

text \<open>Sectors one behind the other are one slice of the disk.\<close>

lemma readseg_loop_ok:
  assumes "answers_reads d hw" and "n + k \<le> 2 ^ 28" and "unat pa + 512 * k \<le> 2 ^ 32 - 512"
    and "k = (unat epa - unat pa + 511) div 512"
  shows "readseg_loop hw pa epa (int n) mem = Some (Inr (patch mem (unat pa) (cells d (512 * n) (512 * k))))"
  using assms(2-)
proof (induction k arbitrary: pa n mem)
  case 0
  then have "\<not> pa < epa" by (simp add: word_less_nat_alt)
  then show ?case by (subst readseg_loop.simps) simp
next
  case (Suc k)
  have lt: "unat pa < unat epa" using Suc.prems(3) by (cases "unat pa < unat epa") auto
  then have "pa < epa" by (simp add: word_less_nat_alt)
  have u: "unat (pa + 512) = unat pa + 512" using Suc.prems(2) by (simp add: unat_add32)
  let ?m = "patch mem (unat pa) (cells d (512 * n) 512)"
  have r: "readsect hw pa (int n) mem = Inr ?m" using Suc.prems by (intro readsect_ok assms(1)) auto
  have i: "i32 (int n + 1) = int (Suc n)" using Suc.prems(1) by (subst i32_nat_id) auto
  have "k = (unat epa - unat (pa + 512) + 511) div 512" using Suc.prems(3) lt unfolding u by linarith
  then have "readseg_loop hw (pa + 512) epa (int (Suc n)) ?m =
      Some (Inr (patch ?m (unat (pa + 512)) (cells d (512 * Suc n) (512 * k))))"
    using Suc.prems u by (intro Suc.IH) auto
  moreover have "cells d (512 * n) (512 * Suc k) = cells d (512 * n) 512 @ cells d (512 * Suc n) (512 * k)"
    using cells_add [of d "512 * n" 512 "512 * k"] by (simp add: add.commute)
  then have "patch ?m (unat (pa + 512)) (cells d (512 * Suc n) (512 * k)) = patch mem (unat pa) (cells d (512 * n) (512 * Suc k))"
    using patch_append [of mem "unat pa" "cells d (512 * n) 512" "cells d (512 * Suc n) (512 * k)"] by (simp only: u length_cells)
  ultimately show ?case using \<open>pa < epa\<close> r i by (subst readseg_loop.simps) simp
qed

text \<open>Whole sectors around the bytes asked for.\<close>

lemma readseg_ok:
  assumes d: "answers_reads d hw" and c: "off + count < 2 ^ 31" and o: "off mod 512 \<le> unat pa"
    and t: "unat pa + count \<le> 2 ^ 32 - 1024"
  shows "readseg hw pa (int count) (int off) mem =
    Inr (patch mem (unat pa - off mod 512) (cells d (512 * (off div 512 + 1)) (512 * ((count + off mod 512 + 511) div 512))))"
proof -
  let ?o = "off mod 512" and ?k = "(count + off mod 512 + 511) div 512"
  have o1: "?o < 512" by simp
  have wo: "unat (word_of_int (cmod (int off) 512) :: u32) = ?o"
  proof -
    have "cmod (int off) 512 = int ?o" by (simp add: zmod_int)
    then have "word_of_int (cmod (int off) 512) = (of_nat ?o :: u32)" by (simp only: of_int_of_nat_eq)
    then show ?thesis using o1 unat_of_nat32 [of ?o] by simp
  qed
  have s: "unat (pa - word_of_int (cmod (int off) 512)) = unat pa - ?o"
    using o wo by (subst unat_sub) (auto simp: word_le_nat_alt)
  have e: "unat (pa + word_of_int (int count)) = unat pa + count"
    using t by (subst unat_add32) (simp_all add: unat_of_nat32)
  have k: "?k = (unat (pa + word_of_int (int count)) - unat (pa - word_of_int (cmod (int off) 512)) + 511) div 512"
    unfolding s e using o by simp
  have b: "off div 512 + 1 + ?k \<le> 2 ^ 28"
  proof -
    have "off div 512 \<le> 2 ^ 31 div 512" "?k \<le> (2 ^ 31 + 1023) div 512" using c o1 by (intro div_le_mono; simp)+
    then show ?thesis by simp
  qed
  have m: "unat pa - ?o + 512 * ?k \<le> 2 ^ 32 - 512"
  proof -
    have "512 * ?k \<le> count + ?o + 511" by (rule times_div_less_eq_dividend)
    then show ?thesis using t o by simp
  qed
  have "readseg_loop hw (pa - word_of_int (cmod (int off) 512)) (pa + word_of_int (int count)) (int (off div 512 + 1)) mem =
      Some (Inr (patch mem (unat pa - ?o) (cells d (512 * (off div 512 + 1)) (512 * ?k))))"
    using readseg_loop_ok [OF d b _ k] m by (simp only: s)
  moreover have "cdiv (int off) 512 + 1 = int (off div 512 + 1)" by (simp add: zdiv_int)
  ultimately show ?thesis unfolding readseg_def by (simp only: option.case)
qed

section \<open>What a segment is in memory\<close>

definition seg_base :: "program_header \<Rightarrow> nat" where
  "seg_base h = unat (p_paddr h - 0xC0000000)"

definition seg_ok :: "program_header \<Rightarrow> bool" where
  "seg_ok h \<longleftrightarrow> p_filesz h \<le> p_memsz h \<and> unat (p_off h) + unat (p_filesz h) < 2 ^ 31 \<and>
     unat (p_off h) mod 512 \<le> seg_base h \<and> seg_base h + unat (p_memsz h) \<le> 2 ^ 32 - 1024"

text \<open>The addresses written for a segment, and its content: bytes of the file, which begins behind the
  boot sector, then zeros.\<close>

definition touched :: "program_header \<Rightarrow> nat set" where
  "touched h = {seg_base h - unat (p_off h) mod 512 ..< seg_base h + max (unat (p_memsz h)) (unat (p_filesz h) + 511)}"

definition loaded :: "(nat \<Rightarrow> u8) \<Rightarrow> program_header \<Rightarrow> ram \<Rightarrow> bool" where
  "loaded d h mem \<longleftrightarrow> (\<forall>k < unat (p_memsz h).
     mem (seg_base h + k) = (if k < unat (p_filesz h) then d (512 + unat (p_off h) + k) else 0))"

lemma load_segment_ok:
  assumes d: "answers_reads d hw" and h: "seg_ok h"
  shows "\<exists>mem'. load_segment hw h mem = Inr mem' \<and> loaded d h mem' \<and> (\<forall>a. a \<notin> touched h \<longrightarrow> mem' a = mem a)"
proof -
  define off count pa where "off = unat (p_off h)" and "count = unat (p_filesz h)" and "pa = p_paddr h - 0xC0000000"
  let ?o = "off mod 512" and ?k = "(count + off mod 512 + 511) div 512"
  have fm: "count \<le> unat (p_memsz h)" using h by (simp add: seg_ok_def count_def word_le_nat_alt)
  have b: "off + count < 2 ^ 31" "?o \<le> unat pa" "unat pa + unat (p_memsz h) \<le> 2 ^ 32 - 1024" "seg_base h = unat pa"
    using h by (simp_all add: seg_ok_def off_def count_def pa_def seg_base_def)
  have s: "sint (p_filesz h) = int count" "sint (p_off h) = int off"
  proof -
    have "unat (p_filesz h) < 2147483648" "unat (p_off h) < 2147483648" using b(1) by (simp_all add: count_def off_def)
    from this [THEN sint_unat32] show "sint (p_filesz h) = int count" "sint (p_off h) = int off"
      unfolding count_def off_def by blast+
  qed
  let ?bs = "cells d (512 * (off div 512 + 1)) (512 * ?k)"
  define m where "m = patch mem (unat pa - ?o) ?bs"
  have r: "readseg hw pa (int count) (int off) mem = Inr m"
    unfolding m_def using b fm by (intro readseg_ok [OF d]) auto
  have k1: "512 * ?k \<le> count + ?o + 511" by (rule times_div_less_eq_dividend)
  have k2: "count + ?o \<le> 512 * ?k" using dividend_less_times_div [of 512 "count + ?o + 511"] by simp
  have in_file: "m (unat pa + j) = d (512 + off + j)" if "j < count" for j
  proof -
    have "?o + j < 512 * ?k" using that k2 by simp
    then have "m (unat pa - ?o + (?o + j)) = d (512 * (off div 512 + 1) + (?o + j))"
      unfolding m_def patch_def by (simp del: mult_Suc_right add: less_diff_conv2)
    then have "m (unat pa + j) = d (512 * (off div 512 + 1) + (?o + j))" using b(2) by (simp del: mult_Suc_right)
    also have "512 * (off div 512 + 1) + (?o + j) = 512 + off + j" using mult_div_mod_eq [of 512 off] by simp
    finally show ?thesis .
  qed
  have e: "unat (pa + p_filesz h) = unat pa + count" "unat (pa + p_memsz h) = unat pa + unat (p_memsz h)"
    using b(3) fm by (auto simp: count_def intro!: unat_add32)
  have "load_segment hw h mem = Inr (clear_rest pa h m)"
    unfolding load_segment_def Let_def s pa_def [symmetric] r by simp
  moreover have "loaded d h (clear_rest pa h m)"
    unfolding loaded_def clear_rest_def e b(4) using in_file fm by (auto simp: count_def off_def)
  moreover have pm: "m a = mem a" if "a < unat pa - ?o \<or> unat pa + count + 511 \<le> a" for a
  proof -
    have "unat pa - ?o + length ?bs \<le> unat pa + count + 511" unfolding length_cells using k1 b(2) by linarith
    then show ?thesis unfolding m_def using that by (intro patch_other) linarith
  qed
  moreover have "clear_rest pa h m a = mem a" if "a \<notin> touched h" for a
    using that pm [of a] fm unfolding touched_def clear_rest_def e b(4)
    by (auto simp: count_def [symmetric] off_def [symmetric] max_def split: if_splits)
  ultimately show ?thesis by blast
qed

section \<open>The whole kernel\<close>

text \<open>Memory with the first page of the file at 0x8000, and the program headers found there.\<close>

definition first_page :: "(nat \<Rightarrow> u8) \<Rightarrow> ram \<Rightarrow> ram" where
  "first_page d mem = patch mem 0x8000 (cells d 512 4096)"

definition nth_header :: "ram \<Rightarrow> nat \<Rightarrow> program_header" where
  "nth_header mem n = header_at mem (0x8000 + elf_phoff mem + 32 * of_nat n)"

definition page :: "nat set" where
  "page = {0x8000 ..< 0x9000}"

text \<open>
  The headers lie in that page; no segment is loaded over it, and none over what an earlier one has.
\<close>

definition image_ok :: "ram \<Rightarrow> bool" where
  "image_ok mem \<longleftrightarrow> unat (elf_phoff mem) + 32 * elf_phnum mem \<le> 4096 \<and>
     (\<forall>n < elf_phnum mem. seg_ok (nth_header mem n) \<and> touched (nth_header mem n) \<inter> page = {} \<and>
       (\<forall>k < n. touched (nth_header mem n) \<inter>
          {seg_base (nth_header mem k) ..< seg_base (nth_header mem k) + unat (p_memsz (nth_header mem k))} = {}))"

lemma ram_u32_cong:
  assumes "\<forall>a \<in> page. m a = m' a" and "0x8000 \<le> unat a" and "unat a + 4 \<le> 0x9000"
  shows "ram_u32 m a = ram_u32 m' a"
proof -
  have "unat (a + 1) = unat a + 1" "unat (a + 2) = unat a + 2" "unat (a + 3) = unat a + 3"
    using assms(3) by (simp_all add: unat_add32)
  then show ?thesis using assms by (simp add: ram_u32_def page_def)
qed

lemma header_at_cong:
  assumes "\<forall>a \<in> page. m a = m' a" and "0x8000 \<le> unat ph" and "unat ph + 32 \<le> 0x9000"
  shows "header_at m ph = header_at m' ph"
proof -
  have "unat (ph + 4) = unat ph + 4" "unat (ph + 12) = unat ph + 12" "unat (ph + 16) = unat ph + 16" "unat (ph + 20) = unat ph + 20"
    using assms(3) by (simp_all add: unat_add32)
  then show ?thesis using assms by (simp add: header_at_def ram_u32_cong [OF assms(1)])
qed

lemma elf_entry_cong: "\<forall>a \<in> page. m a = m' a \<Longrightarrow> elf_entry m = elf_entry m'"
  unfolding elf_entry_def by (rule ram_u32_cong) simp_all

lemma load_nth_ok:
  assumes d: "answers_reads d hw" and i: "image_ok img" and n: "n \<le> elf_phnum img"
  shows "\<exists>mem. fold_exec (load_nth hw (0x8000 + elf_phoff img)) [0..<n] img = Inr mem \<and>
    (\<forall>k < n. loaded d (nth_header img k) mem) \<and> (\<forall>a \<in> page. mem a = img a)"
  using n
proof (induction n)
  case (Suc n)
  then obtain mem where mem: "fold_exec (load_nth hw (0x8000 + elf_phoff img)) [0..<n] img = Inr mem"
    "\<forall>k < n. loaded d (nth_header img k) mem" "\<forall>a \<in> page. mem a = img a" by auto
  let ?h = "nth_header img n"
  have hn: "n < elf_phnum img" using Suc.prems by simp
  have h: "seg_ok ?h" "touched ?h \<inter> page = {}"
    "\<forall>k < n. touched ?h \<inter> {seg_base (nth_header img k) ..< seg_base (nth_header img k) + unat (p_memsz (nth_header img k))} = {}"
    using i hn by (auto simp: image_ok_def)
  have fit: "unat (elf_phoff img) + 32 * Suc n \<le> 4096" using i hn by (auto simp: image_ok_def)
  have "unat (32 * of_nat n :: u32) = 32 * n" using fit unat_of_nat32 [of "32 * n"] by simp
  then have ph: "unat (0x8000 + elf_phoff img + 32 * of_nat n) = 0x8000 + unat (elf_phoff img) + 32 * n"
    using fit by (simp add: unat_add32)
  have hd: "header_at mem (0x8000 + elf_phoff img + 32 * of_nat n) = ?h"
    unfolding nth_header_def using fit mem(3) by (intro header_at_cong) (simp_all add: ph)
  obtain mem' where mem': "load_segment hw ?h mem = Inr mem'" "loaded d ?h mem'" "\<forall>a. a \<notin> touched ?h \<longrightarrow> mem' a = mem a"
    using load_segment_ok [OF d h(1)] by blast
  have "loaded d (nth_header img k) mem'" if "k < Suc n" for k
  proof (cases "k = n")
    case False
    then have k: "k < n" using that by simp
    have "mem' (seg_base (nth_header img k) + j) = mem (seg_base (nth_header img k) + j)" if "j < unat (p_memsz (nth_header img k))" for j
    proof -
      have "seg_base (nth_header img k) + j \<in> {seg_base (nth_header img k) ..< seg_base (nth_header img k) + unat (p_memsz (nth_header img k))}"
        using that by simp
      then have "seg_base (nth_header img k) + j \<notin> touched ?h" using h(3) k by blast
      then show ?thesis using mem'(3) by blast
    qed
    then show ?thesis using mem(2) k by (simp add: loaded_def)
  qed (use mem'(2) in simp)
  moreover have "\<forall>a \<in> page. mem' a = img a" using mem'(3) mem(3) h(2) by auto
  moreover have "load_nth hw (0x8000 + elf_phoff img) n mem = Inr mem'" unfolding load_nth_def hd by (rule mem'(1))
  ultimately show ?case using mem(1) by (auto simp: fold_exec_append)
qed simp

section \<open>Properties\<close>

text \<open>
  C24. The boot loader. On a disk that answers read commands, whose ELF file has its program headers in the
  first 4096 bytes and segments that are loaded neither over that page nor over one another,
  \<open>bootmain\<close> reaches the entry point of the file, and in memory every segment has the bytes of the file,
  wherever they begin in their sector, followed by zeros up to its size.
\<close>

theorem bootmain_loads:
  assumes "answers_reads d hw" and "image_ok (first_page d mem)"
  shows "\<exists>mem'. bootmain hw mem = Inr (elf_entry (first_page d mem) - 0xC0000000, mem') \<and>
    (\<forall>n < elf_phnum (first_page d mem). loaded d (nth_header (first_page d mem) n) mem')"
proof -
  have "readseg hw 0x8000 (int 4096) (int 0) mem = Inr (patch mem (unat (0x8000 :: u32) - 0 mod 512)
      (cells d (512 * (0 div 512 + 1)) (512 * ((4096 + 0 mod 512 + 511) div 512))))"
    by (intro readseg_ok [OF assms(1)]) simp_all
  then have r: "readseg hw 0x8000 4096 0 mem = Inr (first_page d mem)" by (simp add: first_page_def)
  obtain mem' where m: "fold_exec (load_nth hw (0x8000 + elf_phoff (first_page d mem))) [0..<elf_phnum (first_page d mem)]
      (first_page d mem) = Inr mem'" "\<forall>k < elf_phnum (first_page d mem). loaded d (nth_header (first_page d mem) k) mem'"
      "\<forall>a \<in> page. mem' a = first_page d mem a"
    using load_nth_ok [OF assms order_refl] by blast
  have "elf_entry mem' = elf_entry (first_page d mem)" using m(3) by (rule elf_entry_cong)
  then show ?thesis using r m(1,2) by (simp add: bootmain_def)
qed

text \<open>A disk with one small segment: two bytes at 4096 of the file, of a segment of four bytes at 1 MB.\<close>

definition try_file :: "nat \<Rightarrow> u8" where
  "try_file k = (case map_of [(26, 0x10), (27, 0xC0), (28, 52), (44, 1), (57, 0x10), (66, 0x10), (67, 0xC0), (68, 2), (72, 4),
     (4096, 7), (4097, 8)] k of None \<Rightarrow> 0 | Some b \<Rightarrow> b)"

definition try_disk :: "nat \<Rightarrow> u8" where
  "try_disk a = (if a < 512 then 0 else try_file (a - 512))"

definition try_ata :: ata where
  "try_ata c i = u32_list (cells try_disk (512 * unat (lba_registers c)) 512) ! i"

lemma try_answers: "answers_reads try_disk try_ata"
proof -
  have "map (try_ata c) [0..<128] = u32_list (cells try_disk (512 * unat (lba_registers c)) 512)" for c
    by (rule nth_equalityI) (simp_all add: try_ata_def del: upt_rec_numeral)
  then show ?thesis by (simp add: answers_reads_def del: upt_rec_numeral)
qed

lemma bootmain_loads_witness:
  "\<exists>mem. bootmain try_ata (\<lambda>_. 9) = Inr (0x100000, mem) \<and> mem 0x100000 = 7 \<and> mem 0x100001 = 8 \<and> mem 0x100003 = 0"
proof -
  let ?p = "first_page try_disk (\<lambda>_. 9)"
  have f: "?p (0x8000 + k) = try_file k" if "k < 4096" for k
    using that by (simp add: first_page_def patch_def try_disk_def)
  have at: "?p a = try_file (a - 0x8000)" if "0x8000 \<le> a" "a < 0x9000" for a
    using f [of "a - 0x8000"] that by simp
  have e: "elf_entry ?p = 0xC0100000" "elf_phoff ?p = 52" "elf_phnum ?p = 1"
    by (simp_all add: elf_entry_def elf_phoff_def elf_phnum_def ram_u32_def at try_file_def bytes_u32_def push_bit_eq_mult)
  have h: "nth_header ?p 0 = \<lparr>p_off = 4096, p_paddr = 0xC0100000, p_filesz = 2, p_memsz = 4\<rparr>"
    by (simp add: nth_header_def e header_at_def ram_u32_def at try_file_def bytes_u32_def push_bit_eq_mult)
  have "image_ok ?p"
    by (simp add: image_ok_def e h seg_ok_def seg_base_def touched_def page_def)
  from bootmain_loads [OF try_answers this] obtain mem
    where m: "bootmain try_ata (\<lambda>_. 9) = Inr (0x100000, mem)" "loaded try_disk (nth_header ?p 0) mem" by (auto simp: e)
  have "mem (0x100000 + k) = (if k < 2 then try_disk (512 + 4096 + k) else 0)" if "k < 4" for k
    using m(2) that by (simp add: loaded_def h seg_base_def)
  from this [of 0] this [of 1] this [of 3] m(1) show ?thesis by (simp add: try_disk_def try_file_def)
qed

end
