(* ===== verification/User_Copy.thy ===== *)
theory User_Copy
  imports Memory_Safe
begin

text \<open>
  The copies between the kernel and the memory of a process (lib/kcpy.c) against what the process sees:
  its bytes at virtual addresses, wherever their pages lie.
\<close>

section \<open>Translation\<close>

text \<open>The bytes of the page tables that translating an address reads.\<close>

definition table_bytes :: "ram \<Rightarrow> u32 \<Rightarrow> u32 \<Rightarrow> u32 set" where
  "table_bytes m pdir va =
     region (pdir + 4 * drop_bit 22 va) 4 \<union>
     region (frame_addr (entry_at m pdir (drop_bit 22 va)) + 4 * (drop_bit 12 va AND 0x3ff)) 4"

lemma region_4: "a \<in> region a 4" "a + 1 \<in> region a 4" "a + 2 \<in> region a 4" "a + 3 \<in> region a 4"
  by (simp_all add: region_def)

lemma load32_cong: "(\<And>x. x \<in> region a 4 \<Longrightarrow> m x = m' x) \<Longrightarrow> load32 m a = load32 m' a"
  using region_4 [of a] by (simp add: load32_def)

lemma physical_addr_cong:
  assumes "\<And>x. x \<in> table_bytes m pdir va \<Longrightarrow> m' x = m x"
  shows "physical_addr m' pdir va = physical_addr m pdir va"
proof -
  have e: "entry_at m' pdir (drop_bit 22 va) = entry_at m pdir (drop_bit 22 va)"
    unfolding entry_at_def by (rule load32_cong) (rule assms, simp add: table_bytes_def)
  have "entry_at m' (frame_addr (entry_at m pdir (drop_bit 22 va))) (drop_bit 12 va AND 0x3ff) =
      entry_at m (frame_addr (entry_at m pdir (drop_bit 22 va))) (drop_bit 12 va AND 0x3ff)"
    unfolding entry_at_def [of m' "frame_addr _"] entry_at_def [of m "frame_addr _"]
    by (rule load32_cong) (rule assms, simp add: table_bytes_def)
  with e show ?thesis by (simp add: physical_addr_def Let_def)
qed

lemma and_fff: "unat (va AND 0xfff :: u32) = unat va mod 4096"
proof -
  have m: "(0xfff :: u32) = mask 12" by (simp add: mask_eq_exp_minus_1)
  have "unat (va AND 0xfff) = take_bit 12 (unat va)"
    unfolding m take_bit_eq_mask [symmetric] by (rule unsigned_take_bit_eq)
  then show ?thesis by (simp add: take_bit_eq_mod)
qed

text \<open>Inside a page the physical addresses follow one another.\<close>

lemma drop_bit_page:
  assumes "unat va mod 4096 + j < 4096"
  shows "drop_bit 12 (va + of_nat j :: u32) = drop_bit 12 va"
    and "(va + of_nat j) AND 0xfff = (va AND 0xfff) + of_nat j"
proof -
  have "4096 * (unat va div 4096) + unat va mod 4096 = unat va" by simp
  moreover have "unat va div 4096 < 1048576" using unat32_less [of va] by (simp add: less_mult_imp_div_less)
  ultimately have lt: "unat va + j < 4294967296" using assms by linarith
  have uj: "unat (of_nat j :: u32) = j" using assms by (simp add: unat_of_nat32)
  have u: "unat (va + of_nat j) = unat va + j" using lt uj by (simp add: unat_add32)
  have "unat va + j = (unat va mod 4096 + j) + unat va div 4096 * 4096" by simp
  then have d: "(unat va + j) div 4096 = unat va div 4096" "(unat va + j) mod 4096 = unat va mod 4096 + j"
    using assms by (simp_all only: div_mult_self1 mod_mult_self1) simp_all
  show "drop_bit 12 (va + of_nat j :: u32) = drop_bit 12 va"
    by (simp add: word_unat_eq_iff drop_bit_eq_div unat_div_distrib u d(1))
  show "(va + of_nat j) AND 0xfff = (va AND 0xfff) + of_nat j"
    using assms by (simp add: word_unat_eq_iff and_fff unat_add32 uj u d(2))
qed

lemma physical_addr_page:
  assumes "physical_addr m pdir va = Inr pa" and "unat va mod 4096 + j < 4096"
  shows "physical_addr m pdir (va + of_nat j) = Inr (pa + of_nat j)"
proof -
  have "drop_bit 22 (va + of_nat j) = drop_bit 10 (drop_bit 12 (va + of_nat j))" by (simp add: drop_bit_drop_bit)
  also have "\<dots> = drop_bit 22 va" by (simp add: drop_bit_page [OF assms(2)] drop_bit_drop_bit)
  finally have t: "drop_bit 22 (va + of_nat j) = drop_bit 22 va" .
  show ?thesis using assms(1) unfolding physical_addr_def Let_def t drop_bit_page [OF assms(2)]
    by (auto simp: assertE_def add.assoc split: if_splits)
qed

section \<open>What the process sees\<close>

text \<open>
  \<open>maps_to m pdir va n tr\<close>: in memory \<open>m\<close> the addresses from \<open>va\<close> to the one behind \<open>n\<close> bytes are
  mapped, the \<open>k\<close>th to \<open>tr k\<close>; no two bytes share a cell, and none lies in the tables that map them.
\<close>

definition maps_to :: "ram \<Rightarrow> u32 \<Rightarrow> u32 \<Rightarrow> nat \<Rightarrow> (nat \<Rightarrow> u32) \<Rightarrow> bool" where
  "maps_to m pdir va n tr \<longleftrightarrow>
     (\<forall>k \<le> n. physical_addr m pdir (va + of_nat k) = Inr (tr k)) \<and> inj_on tr {..<n} \<and>
     (\<forall>k \<le> n. \<forall>j < n. tr j \<notin> table_bytes m pdir (va + of_nat k))"

lemma maps_part:
  assumes "maps_to m pdir va n tr" and "i + j \<le> n"
  shows "maps_to m pdir (va + of_nat i) j (\<lambda>k. tr (i + k))"
proof -
  have at: "va + of_nat i + of_nat k = va + of_nat (i + k)" for k by simp
  have "inj_on tr {..<n}" using assms(1) by (simp add: maps_to_def)
  then have "inj_on (\<lambda>k. tr (i + k)) {..<j}" using assms(2) by (intro inj_onI) (fastforce dest: inj_onD)
  then show ?thesis using assms unfolding maps_to_def at by (simp del: of_nat_add)
qed

text \<open>Memory with the first \<open>i\<close> bytes of \<open>bs\<close> stored.\<close>

definition stored :: "(nat \<Rightarrow> u32) \<Rightarrow> u8 list \<Rightarrow> nat \<Rightarrow> ram \<Rightarrow> ram" where
  "stored tr bs i m = fold (\<lambda>k m. m(tr k := bs ! k)) [0..<i] m"

lemma stored_0 [simp]: "stored tr bs 0 m = m" and stored_Suc: "stored tr bs (Suc i) m = (stored tr bs i m)(tr i := bs ! i)"
  by (simp_all add: stored_def)

lemma stored_other: "x \<notin> tr ` {..<i} \<Longrightarrow> stored tr bs i m x = m x"
  by (induction i) (auto simp: stored_Suc lessThan_Suc)

lemma stored_same: "inj_on tr {..<n} \<Longrightarrow> i \<le> n \<Longrightarrow> k < i \<Longrightarrow> stored tr bs i m (tr k) = bs ! k"
proof (induction i)
  case (Suc i)
  show ?case
  proof (cases "k = i")
    case False
    then have "tr k \<noteq> tr i" using Suc.prems by (auto dest: inj_onD)
    then show ?thesis using Suc False by (simp add: stored_Suc)
  qed (simp add: stored_Suc)
qed simp

text \<open>A store of a run of bytes, cell by cell.\<close>

lemma store_bytes_stored:
  assumes "r \<le> length bs - i" and "i \<le> length bs" and "r \<le> 4096" and "\<And>j. j < r \<Longrightarrow> tr (i + j) = tr i + of_nat j"
  shows "store_bytes (stored tr bs i m) (tr i) (take r (drop i bs)) = stored tr bs (i + r) m"
  using assms
proof (induction r)
  case 0
  then show ?case by (simp add: store_bytes_def)
next
  case (Suc r)
  have u: "unat (of_nat r :: u32) = r" using Suc.prems(3) by (simp add: unat_of_nat32)
  have x: "unat (x - tr i) = r \<longleftrightarrow> x = tr (i + r)" for x
    using Suc.prems(4) [of r] u by (metis add_diff_cancel_left' diff_add_cancel add.commute lessI word_unat_eq_iff)
  have "store_bytes (stored tr bs i m) (tr i) (take (Suc r) (drop i bs)) =
      (store_bytes (stored tr bs i m) (tr i) (take r (drop i bs)))(tr (i + r) := bs ! (i + r))"
  proof (rule ext)
    fix y
    show "store_bytes (stored tr bs i m) (tr i) (take (Suc r) (drop i bs)) y =
      ((store_bytes (stored tr bs i m) (tr i) (take r (drop i bs)))(tr (i + r) := bs ! (i + r))) y"
    proof (cases "y = tr (i + r)")
      case True
      then have "unat (y - tr i) = r" using x by blast
      then show ?thesis using Suc.prems(1,2) True by (simp add: store_bytes_def)
    next
      case False
      then have "unat (y - tr i) \<noteq> r" using x by blast
      then show ?thesis using Suc.prems(1,2) False by (simp add: store_bytes_def less_Suc_eq)
    qed
  qed
  then show ?case using Suc by (simp add: stored_Suc)
qed

lemma maps_stored:
  assumes "maps_to m pdir va n tr" and "i \<le> n" and "k \<le> n"
  shows "physical_addr (stored tr bs i m) pdir (va + of_nat k) = Inr (tr k)"
proof -
  have "stored tr bs i m x = m x" if "x \<in> table_bytes m pdir (va + of_nat k)" for x
  proof (rule stored_other)
    show "x \<notin> tr ` {..<i}" using that assms by (fastforce simp: maps_to_def)
  qed
  then show ?thesis using physical_addr_cong [of m pdir "va + of_nat k" "stored tr bs i m"] assms
    by (simp add: maps_to_def)
qed

text \<open>The bytes of a round lie in one page.\<close>

lemma maps_round:
  assumes h: "maps_to m pdir va n tr" and i: "i + r \<le> n" and j: "j < r"
    and p: "unat (va + of_nat i) mod 4096 + r \<le> 4096"
  shows "tr (i + j) = tr i + of_nat j"
proof -
  have a: "physical_addr m pdir (va + of_nat k) = Inr (tr k)" if "k \<le> n" for k using h that unfolding maps_to_def by blast
  have "physical_addr m pdir (va + of_nat i) = Inr (tr i)" "physical_addr m pdir (va + of_nat (i + j)) = Inr (tr (i + j))"
    using i j by (intro a; simp)+
  moreover have "physical_addr m pdir (va + of_nat i + of_nat j) = Inr (tr i + of_nat j)"
    using j p by (intro physical_addr_page calculation(1)) simp
  ultimately show ?thesis by (simp add: add.assoc)
qed

text \<open>A round begins anywhere in a page at first, then at the beginning of one.\<close>

definition at_round :: "bool \<Rightarrow> u32 \<Rightarrow> bool" where
  "at_round first va \<longleftrightarrow> first \<or> unat va mod 4096 = 0"

lemma round_in_page: "at_round first va \<Longrightarrow> unat va mod 4096 + round_len first va n \<le> 4096"
  by (auto simp: at_round_def round_len_def and_fff)

lemma next_round:
  assumes "at_round first va" and "round_len first va n < n"
  shows "at_round False (va + of_nat (round_len first va n))"
proof -
  let ?r = "round_len first va n"
  have r: "unat va mod 4096 + ?r = 4096" using assms by (auto simp: at_round_def round_len_def and_fff split: if_splits)
  have ur: "unat (of_nat ?r :: u32) = ?r" using r by (simp add: unat_of_nat32)
  have "unat (va + of_nat ?r) mod 4096 = (unat va + ?r) mod 4096"
    unfolding unat_word_ariths ur by (simp add: mod_mod_cancel)
  also have "\<dots> = (unat va mod 4096 + ?r) mod 4096" by (simp add: mod_simps)
  finally show ?thesis using r by (simp add: at_round_def)
qed

section \<open>The copies\<close>

lemma round_le: "round_len first va n \<le> n" "round_len first va n \<le> 4096"
  by (auto simp: round_len_def)

lemma copy_out_loop_ok:
  assumes h: "maps_to m pdir va n tr" and b: "length bs = n"
  shows "i \<le> n \<Longrightarrow> at_round first (va + of_nat i) \<or> i = n \<Longrightarrow>
    copy_out_loop pdir first (tr i) (va + of_nat i) (drop i bs) (stored tr bs i m) = Inr (stored tr bs n m)"
proof (induction "n - i" arbitrary: i first rule: less_induct)
  case less
  show ?case
  proof (cases "i = n")
    case True
    then show ?thesis using b by (subst copy_out_loop.simps) simp
  next
    case False
    let ?va = "va + of_nat i"
    let ?r = "round_len first ?va (n - i)"
    have i: "i < n" and a: "at_round first ?va" using False less.prems by auto
    have r: "0 < ?r" "i + ?r \<le> n" "?r \<le> 4096"
      using round_len_pos [of "n - i" first ?va] round_le [of first ?va "n - i"] i by auto
    have ln: "length (drop i bs) = n - i" "drop i bs \<noteq> []" using b i by simp_all
    have st: "store_bytes (stored tr bs i m) (tr i) (take ?r (drop i bs)) = stored tr bs (i + ?r) m"
    proof (rule store_bytes_stored)
      show "tr (i + j) = tr i + of_nat j" if "j < ?r" for j
        using maps_round [OF h r(2) that round_in_page [OF a]] .
    qed (use r b i in auto)
    have pa: "physical_addr (stored tr bs (i + ?r) m) pdir (va + of_nat (i + ?r)) = Inr (tr (i + ?r))"
      using maps_stored [OF h r(2) r(2)] .
    have nx: "at_round False (va + of_nat (i + ?r)) \<or> i + ?r = n"
      using next_round [OF a, of "n - i"] r(2) by (auto simp: add.assoc)
    have IH: "copy_out_loop pdir False (tr (i + ?r)) (va + of_nat (i + ?r)) (drop (i + ?r) bs) (stored tr bs (i + ?r) m) =
        Inr (stored tr bs n m)"
      using less.hyps [of "i + ?r" False] r i nx by simp
    have "copy_out_loop pdir first (tr i) ?va (drop i bs) (stored tr bs i m) =
        bindE (physical_addr (stored tr bs (i + ?r) m) pdir (?va + of_nat ?r))
          (\<lambda>pa. copy_out_loop pdir False pa (?va + of_nat ?r) (drop ?r (drop i bs)) (stored tr bs (i + ?r) m))"
      using ln st by (subst copy_out_loop.simps) (simp add: Let_def)
    then show ?thesis using pa IH by (simp add: add.assoc add.commute)
  qed
qed

lemma copy_from_kernel_ok:
  assumes "maps_to m pdir va (length bs) tr"
  shows "copy_from_kernel False pdir va bs m = Inr (stored tr bs (length bs) m)"
proof -
  have "physical_addr m pdir (va + of_nat 0) = Inr (tr 0)" using assms unfolding maps_to_def by blast
  moreover have "copy_out_loop pdir True (tr 0) (va + of_nat 0) (drop 0 bs) (stored tr bs 0 m) = Inr (stored tr bs (length bs) m)"
    by (rule copy_out_loop_ok [OF assms refl]) (simp_all add: at_round_def)
  ultimately show ?thesis by (simp add: copy_from_kernel_def)
qed

lemma copy_in_loop_ok:
  assumes a: "\<And>k. k \<le> n \<Longrightarrow> physical_addr m pdir (va + of_nat k) = Inr (tr k)"
  shows "i \<le> n \<Longrightarrow> at_round first (va + of_nat i) \<or> i = n \<Longrightarrow>
    copy_in_loop pdir first (tr i) (va + of_nat i) (n - i) m = Inr (map (\<lambda>k. m (tr k)) [i..<n])"
proof (induction "n - i" arbitrary: i first rule: less_induct)
  case less
  show ?case
  proof (cases "i = n")
    case True
    then show ?thesis by (subst copy_in_loop.simps) simp
  next
    case False
    let ?va = "va + of_nat i"
    let ?r = "round_len first ?va (n - i)"
    have i: "i < n" and at: "at_round first ?va" using False less.prems by auto
    have r: "0 < ?r" "i + ?r \<le> n" "?r \<le> 4096"
      using round_len_pos [of "n - i" first ?va] round_le [of first ?va "n - i"] i by auto
    have tr: "tr (i + j) = tr i + of_nat j" if "j < ?r" for j
    proof -
      have "physical_addr m pdir (?va + of_nat j) = Inr (tr i + of_nat j)"
        using that round_in_page [OF at, of "n - i"] i by (intro physical_addr_page a) auto
      moreover have "physical_addr m pdir (va + of_nat (i + j)) = Inr (tr (i + j))" using that r by (intro a) simp
      ultimately show ?thesis by (simp add: add.assoc)
    qed
    have ld: "load_bytes m (tr i) ?r = map (\<lambda>k. m (tr k)) [i..<i + ?r]"
      by (rule nth_equalityI) (simp_all add: load_bytes_def tr)
    have pa: "physical_addr m pdir (va + of_nat (i + ?r)) = Inr (tr (i + ?r))" using r by (intro a) simp
    have nx: "at_round False (va + of_nat (i + ?r)) \<or> i + ?r = n"
      using next_round [OF at, of "n - i"] r(2) by (auto simp: add.assoc)
    have IH: "copy_in_loop pdir False (tr (i + ?r)) (va + of_nat (i + ?r)) (n - (i + ?r)) m = Inr (map (\<lambda>k. m (tr k)) [i + ?r..<n])"
      using less.hyps [of "i + ?r" False] r i nx by simp
    have "copy_in_loop pdir first (tr i) ?va (n - i) m =
        bindE (physical_addr m pdir (?va + of_nat ?r)) (\<lambda>pa'.
          bindE (copy_in_loop pdir False pa' (?va + of_nat ?r) (n - i - ?r) m) (\<lambda>bs. Inr (load_bytes m (tr i) ?r @ bs)))"
      using i by (subst copy_in_loop.simps) (simp add: Let_def)
    also have "\<dots> = Inr (map (\<lambda>k. m (tr k)) [i..<i + ?r] @ map (\<lambda>k. m (tr k)) [i + ?r..<n])"
      using pa IH ld by (simp add: add.assoc)
    also have "\<dots> = Inr (map (\<lambda>k. m (tr k)) [i..<n])"
      using r upt_add_eq_append [of i "i + ?r" "n - (i + ?r)"] by (simp flip: map_append)
    finally show ?thesis .
  qed
qed

lemma copy_to_kernel_ok:
  assumes "\<And>k. k \<le> n \<Longrightarrow> physical_addr m pdir (va + of_nat k) = Inr (tr k)"
  shows "copy_to_kernel False pdir va n m = Inr (map (\<lambda>k. m (tr k)) [0..<n])"
proof -
  have "physical_addr m pdir (va + of_nat 0) = Inr (tr 0)" by (intro assms) simp
  moreover have "copy_in_loop pdir True (tr 0) (va + of_nat 0) (n - 0) m = Inr (map (\<lambda>k. m (tr k)) [0..<n])"
    by (rule copy_in_loop_ok [OF assms]) (simp_all add: at_round_def)
  ultimately show ?thesis by (simp add: copy_to_kernel_def)
qed

section \<open>Properties\<close>

lemma user_copy_ok:
  assumes "maps_to m pdir va (length bs) tr"
  shows "\<exists>m'. copy_from_kernel False pdir va bs m = Inr m' \<and> copy_to_kernel False pdir va (length bs) m' = Inr bs \<and>
    (\<forall>x. x \<notin> tr ` {..<length bs} \<longrightarrow> m' x = m x)"
proof -
  let ?m = "stored tr bs (length bs) m"
  have "copy_to_kernel False pdir va (length bs) ?m = Inr (map (\<lambda>k. ?m (tr k)) [0..<length bs])"
    by (rule copy_to_kernel_ok) (rule maps_stored [OF assms order_refl])
  also have "map (\<lambda>k. ?m (tr k)) [0..<length bs] = bs"
    using assms stored_same [of tr "length bs" "length bs" _ bs m] by (intro nth_equalityI) (auto simp: maps_to_def)
  finally show ?thesis using copy_from_kernel_ok [OF assms] stored_other by blast
qed

text \<open>
  C23. What the kernel copies into the memory of a process is what it reads back from there, over any number
  of pages wherever they lie in physical memory: with the buffer and the byte behind it mapped, no two
  bytes in one cell and none in the page tables in use, \<open>copy_from_kernel\<close> succeeds, changes no cell
  outside the buffer, and \<open>copy_to_kernel\<close> of the same addresses returns the bytes.
\<close>

theorem user_copy_roundtrip:
  assumes "maps_to m pdir va (length bs) tr"
  shows "\<exists>m'. copy_from_kernel False pdir va bs m = Inr m' \<and> copy_to_kernel False pdir va (length bs) m' = Inr bs \<and>
    (\<forall>x. x \<notin> tr ` {..<length bs} \<longrightarrow> m' x = m x)"
  by (rule user_copy_ok [OF assms])

text \<open>Two pages that are neighbours for the process and apart in memory.\<close>

definition try_ram :: ram where
  "try_ram = store32 (store32 (store32 (\<lambda>_. 0) 0x10000 0x20007) 0x20004 0x30007) 0x20008 0x50007"

definition try_tr :: "nat \<Rightarrow> u32" where
  "try_tr k = (if k < 2 then 0x30FFE + of_nat k else 0x50000 + of_nat (k - 2))"

lemma try_load: "load32 try_ram 0x10000 = 0x20007" "load32 try_ram 0x20004 = 0x30007" "load32 try_ram 0x20008 = 0x50007"
  by (simp_all add: try_ram_def load32_def store32_def store_bytes_def u32_bytes_def bytes_u32_def unsigned_minus_1_eq_mask mask_eq_exp_minus_1)

lemma upto_4: "k \<le> 4 \<longleftrightarrow> k = 0 \<or> k = 1 \<or> k = 2 \<or> k = 3 \<or> k = (4 :: nat)"
  by auto

lemma maps_try:
  assumes "load32 m 0x10000 = 0x20007" and "load32 m 0x20004 = 0x30007" and "load32 m 0x20008 = 0x50007"
  shows "maps_to m 0x10000 0x1FFE 4 try_tr"
proof -
  have "physical_addr m 0x10000 (0x1FFE + of_nat k) = Inr (try_tr k) \<and>
      table_bytes m 0x10000 (0x1FFE + of_nat k) \<subseteq> region 0x10000 4 \<union> region 0x20004 4 \<union> region 0x20008 4" if "k \<le> 4" for k
    using that unfolding upto_4
    by (auto simp: physical_addr_def table_bytes_def entry_at_def assms frame_addr_def page_frame_def present_def
      Let_def try_tr_def)
  moreover have "try_tr j \<notin> region 0x10000 4 \<union> region 0x20004 4 \<union> region 0x20008 4" if "j < 4" for j
  proof -
    from that have "j = 0 \<or> j = 1 \<or> j = 2 \<or> j = 3" by auto
    then show ?thesis by (auto simp: try_tr_def region_def)
  qed
  moreover have "inj_on try_tr {..<4}"
  proof (rule inj_onI)
    fix i j :: nat assume "i \<in> {..<4}" "j \<in> {..<4}" "try_tr i = try_tr j"
    moreover from this have "i = 0 \<or> i = 1 \<or> i = 2 \<or> i = 3" "j = 0 \<or> j = 1 \<or> j = 2 \<or> j = 3" by auto
    ultimately show "i = j" by (auto simp: try_tr_def)
  qed
  ultimately show ?thesis unfolding maps_to_def by (meson subsetD le_less_trans)
qed

lemmas try_maps = maps_try [OF try_load]

lemma user_copy_roundtrip_witness:
  "\<exists>m'. copy_from_kernel False 0x10000 0x1FFE [1, 2, 3, 4] try_ram = Inr m' \<and>
     copy_to_kernel False 0x10000 0x1FFE 4 m' = Inr [1, 2, 3, 4]"
proof -
  have l: "length [1, 2, 3, 4 :: u8] = 4" by simp
  show ?thesis using user_copy_roundtrip [where bs = "[1, 2, 3, 4]", unfolded l, OF try_maps] by blast
qed

end
