(* ===== verification/Library.thy ===== *)
theory Library
  imports Syscall User_Copy
begin

text \<open>
  The library of user programs (kernel/system_call/syscall.c, include/sys_call.h): one stub per system
  call, which puts the number of the call and its arguments into registers and traps. A call runs
  through the interrupt (\<open>irq_handle\<close>), the dispatch (\<open>do_syscall\<close>) and the server.
\<close>

section \<open>Stubs\<close>

datatype libcall =
  L_puts u32 | L_puts1 u32 | L_fork | L_exec u32 u32 | L_exit u32 | L_getpid | L_waitpid u32 | L_read_line u32 |
  L_sleep u32 | L_open u32 u32 u32 | L_read u32 u32 u32 | L_write u32 u32 u32 | L_create u32 u32 | L_close u32 |
  L_delete u32 | L_lseek u32 u32 u32 | L_dup u32 | L_dup2 u32 u32 | L_mkdir u32 | L_rmdir u32 | L_lsdir u32 u32 |
  L_chdir u32

text \<open>The arguments of \<open>syscall(id, ...)\<close> that each stub pushes.\<close>

fun lib_args :: "libcall \<Rightarrow> u32 list" where
  "lib_args (L_puts p) = [6, p]"
| "lib_args (L_puts1 p) = [30, p]"
| "lib_args L_fork = [1]"
| "lib_args (L_exec p a) = [2, p, a]"
| "lib_args (L_exit n) = [3, n]"
| "lib_args L_getpid = [4]"
| "lib_args (L_waitpid p) = [5, p]"
| "lib_args (L_read_line p) = [9, p]"
| "lib_args (L_sleep n) = [10, n]"
| "lib_args (L_open p f m) = [11, p, f, m]"
| "lib_args (L_read fd b n) = [12, fd, b, n]"
| "lib_args (L_write fd b n) = [13, fd, b, n]"
| "lib_args (L_create p m) = [14, p, m]"
| "lib_args (L_close fd) = [15, fd]"
| "lib_args (L_delete p) = [16, p]"
| "lib_args (L_lseek fd n w) = [17, fd, n, w]"
| "lib_args (L_dup fd) = [18, fd]"
| "lib_args (L_dup2 a b) = [19, a, b]"
| "lib_args (L_mkdir p) = [20, p]"
| "lib_args (L_rmdir p) = [21, p]"
| "lib_args (L_lsdir p b) = [22, p, b]"
| "lib_args (L_chdir p) = [23, p]"

text \<open>
  Four words are taken from the stack whatever was pushed: behind the arguments comes what happens to lie
  there, \<open>stack\<close>.
\<close>

definition syscall_frame :: "(nat \<Rightarrow> u32) \<Rightarrow> u32 list \<Rightarrow> trapframe" where
  "syscall_frame stack args =
     (let a = args @ map stack [0, 1, 2] in \<lparr>t_eax = a ! 0, t_ebx = a ! 1, t_ecx = a ! 2, t_edx = a ! 3, t_irq = 0x80\<rparr>)"

text \<open>What the stub returns: \<open>eax\<close> when the call comes back.\<close>

definition lib_call ::
  "world \<Rightarrow> irqs \<Rightarrow> int \<Rightarrow> int \<Rightarrow> (nat \<Rightarrow> u32) \<Rightarrow> libcall \<Rightarrow> sys \<times> timer \<Rightarrow> (u32 option \<times> sys \<times> timer) exec" where
  "lib_call g h timer_pid addr stack c st =
     bindE (irq_handle h (current (kern (fst st))) (syscall_frame stack (lib_args c))) (\<lambda>a.
       case a of
         Syscall tf \<Rightarrow> bindE (do_syscall g timer_pid addr tf st) (\<lambda>(x, s, t). Inr (map_option t_eax x, s, t))
       | Routines rs \<Rightarrow> Inr (Some (t_eax (syscall_frame stack (lib_args c))), st))"

section \<open>Where the calls lead\<close>

text \<open>A request that one handler of the file server serves: its stores are made, its answer is returned.\<close>

definition served :: "(client \<Rightarrow> msg \<Rightarrow> fs \<Rightarrow> outcome exec) \<Rightarrow> world \<Rightarrow> msg \<Rightarrow> sys \<Rightarrow> (msg \<times> sys) exec" where
  "served h g m s =
     bindE (h ((fclient g)\<lparr>umem := user_byte s\<rparr>) m (files s)) (\<lambda>(ans, st, fs).
     bindE (fold_exec deliver st (s\<lparr>files := fs\<rparr>)) (\<lambda>s.
       case ans of None \<Rightarrow> Inl Loops | Some (d, r) \<Rightarrow> Inr (r, s)))"

text \<open>The handler a call is meant for, and the words of its request, for the calling process \<open>p\<close>.\<close>

fun file_route :: "int \<Rightarrow> libcall \<Rightarrow> ((client \<Rightarrow> msg \<Rightarrow> fs \<Rightarrow> outcome exec) \<times> int list) option" where
  "file_route p (L_open a f m) = Some (fm_open, [sint a, sint f, sint m])"
| "file_route p (L_read fd b n) = Some (fm_read, [p, sint fd, sint b, sint n])"
| "file_route p (L_write fd b n) = Some (fm_write, [p, sint fd, sint b, sint n])"
| "file_route p (L_create a m) = Some (fm_create, [sint a, sint m])"
| "file_route p (L_close fd) = Some (fm_close, [sint fd])"
| "file_route p (L_delete a) = Some (fm_delete_file, [sint a])"
| "file_route p (L_lseek fd n w) = Some (fm_lseek, [sint fd, sint n, sint w])"
| "file_route p (L_dup fd) = Some (fm_dup, [sint fd])"
| "file_route p (L_dup2 a b) = Some (fm_dup2, [sint a, sint b])"
| "file_route p (L_mkdir a) = Some (fm_mkdir, [sint a])"
| "file_route p (L_rmdir a) = Some (fm_rmdir, [sint a])"
| "file_route p (L_lsdir a b) = Some (fm_lsdir, [sint a, sint b])"
| "file_route p (L_chdir a) = Some (fm_chdir, [sint a])"
| "file_route p c = None"

fun file_type :: "libcall \<Rightarrow> int" where
  "file_type (L_open a f m) = 0"
| "file_type (L_read fd b n) = 1"
| "file_type (L_write fd b n) = 2"
| "file_type (L_close fd) = 3"
| "file_type (L_create a m) = 4"
| "file_type (L_delete a) = 5"
| "file_type (L_lseek fd n w) = 6"
| "file_type (L_dup fd) = 7"
| "file_type (L_dup2 a b) = 8"
| "file_type (L_mkdir a) = 9"
| "file_type (L_rmdir a) = 10"
| "file_type (L_lsdir a b) = 11"
| "file_type (L_chdir a) = 12"
| "file_type c = - 1"

fun with_words :: "int list \<Rightarrow> msg \<Rightarrow> msg" where
  "with_words [a] m = m\<lparr>i0 := a\<rparr>"
| "with_words [a, b] m = m\<lparr>i0 := a, i1 := b\<rparr>"
| "with_words [a, b, c] m = m\<lparr>i0 := a, i1 := b, i2 := c\<rparr>"
| "with_words [a, b, c, d] m = m\<lparr>i0 := a, i1 := b, i2 := c, i3 := d\<rparr>"
| "with_words ws m = m"

lemma frame_regs:
  "t_eax (syscall_frame st (n # as)) = n" "t_irq (syscall_frame st as) = 0x80"
  "t_ebx (syscall_frame st (n # a # as)) = a" "t_ecx (syscall_frame st (n # a # b # as)) = b"
  "t_edx (syscall_frame st [n, a, b, c]) = c"
  by (simp_all add: syscall_frame_def Let_def)

lemma lib_call_trap:
  "lib_call g h tp addr st c (s, t) =
     bindE (do_syscall g tp addr (syscall_frame st (lib_args c)) (s, t)) (\<lambda>(x, s, t). Inr (map_option t_eax x, s, t))"
  by (simp add: lib_call_def irq_handle_def frame_regs Let_def)

lemma set_eax_value [simp]: "t_eax (set_eax x tf) = u32_of x"
  by (simp add: set_eax_def)

lemma file_call_served:
  "bindE (bindE (file_call g m tf s) (\<lambda>(x, s). Inr (x, s, t))) (\<lambda>(x, s, t). Inr (map_option t_eax x, s, t)) =
    bindE (served file_thread g m s) (\<lambda>(r, s). Inr (Some (u32_of (ret r)), s, t))"
proof -
  have "call_file g m s = served file_thread g m s" by (simp add: call_file_def served_def)
  then show ?thesis by (simp add: file_call_def bindE_assoc split_def)
qed

lemmas file_syscall_defs = syscall_open_def syscall_read_def syscall_write_def syscall_create_def syscall_close_def
  syscall_delete_def syscall_lseek_def syscall_dup_def syscall_dup2_def syscall_mkdir_def syscall_rmdir_def
  syscall_lsdir_def syscall_chdir_def

lemma file_calls_ok:
  assumes "file_route (current (kern s)) c = Some (h, ws)"
  shows "lib_call g irq tp addr stack c (s, t) =
    bindE (served h g (with_words ws (request g (file_type c) s)) s) (\<lambda>(r, s). Inr (Some (u32_of (ret r)), s, t))"
  using assms
  by (cases c) (auto simp: lib_call_trap do_syscall_def frame_regs file_syscall_defs file_call_served served_def
    file_thread_def request_def)

text \<open>
  C31. The wiring of the file calls. For every library function on files, the number and the registers its
  stub traps with, the dispatch of the system call, the type of the message and the dispatch of the file
  server fit together: the handler that is meant gets the words that were passed, whatever lies behind
  them on the stack, and the function returns its answer.
\<close>

theorem file_calls_wired:
  assumes "file_route (current (kern s)) c = Some (h, ws)"
  shows "lib_call g irq tp addr stack c (s, t) =
    bindE (served h g (with_words ws (request g (file_type c) s)) s) (\<lambda>(r, s). Inr (Some (u32_of (ret r)), s, t))"
  by (rule file_calls_ok [OF assms])

theorem file_calls_wired_witness:
  "\<forall>g irq tp addr stack s t. lib_call g irq tp addr stack (L_dup2 3 1) (s, t) =
     bindE (served fm_dup2 g ((request g 8 s)\<lparr>i0 := 3, i1 := 1\<rparr>) s) (\<lambda>(r, s). Inr (Some (u32_of (ret r)), s, t))"
proof (intro allI)
  fix g irq tp addr stack s t
  show "lib_call g irq tp addr stack (L_dup2 3 1) (s, t) =
     bindE (served fm_dup2 g ((request g 8 s)\<lparr>i0 := 3, i1 := 1\<rparr>) s) (\<lambda>(r, s). Inr (Some (u32_of (ret r)), s, t))"
    using file_calls_wired [of s "L_dup2 3 1" fm_dup2 "[3, 1]" g irq tp addr stack t] by simp
qed

lemma u32_of_sint [simp]: "u32_of (sint w) = w"
  by (simp add: u32_of_def)

lemma read_call_ok:
  assumes "p = current (kern s)" and "user_space (pool (kern s) p)"
    and "fd_at p (sint fd) (files s) = Inr (Some f)" and "ino = vinode (vnode_array (files s) (fvnode (open_files (files s) f)))"
    and "idev ino = 0" and "wf_file (files s) ino" and "isize ino \<le> level_end1"
    and "0 \<le> sint (foffset (open_files (files s) f))" and "0 \<le> sint n"
    and "bs = take (nat (sint n)) (drop (nat (sint (foffset (open_files (files s) f)))) (file_data (disk (files s)) ino))"
    and "maps_to (ram (mem s)) (kpdir (mprocs (mem s) p)) b (length bs) tr"
  shows "\<exists>s'. lib_call g irq tp addr stack (L_read fd b n) (s, t) = Inr (Some (u32_of (int (length bs))), s', t) \<and>
    copy_to_kernel False (kpdir (mprocs (mem s') p)) b (length bs) (ram (mem s')) = Inr bs \<and>
    disk (files s') = disk (files s) \<and>
    foffset (open_files (files s') f) = foffset (open_files (files s) f) + u32_of (int (length bs)) \<and>
    kern s' = kern s \<and> mprocs (mem s') = mprocs (mem s)"
proof -
  let ?m = "with_words [p, sint fd, sint b, sint n] (request g (file_type (L_read fd b n)) s)"
  let ?c = "(fclient g)\<lparr>umem := user_byte s\<rparr>"
  have m: "src ?m = p" "i0 ?m = p" "i1 ?m = sint fd" "i2 ?m = sint b" "i3 ?m = sint n"
    using assms(1) by (simp_all add: request_def)
  obtain fs where fs: "fm_read ?c ?m (files s) = Inr (Some (p, reply (fpid ?c) (int (length bs)) ?m), [(p, sint b, bs)], fs)"
      "foffset (open_files fs f) = foffset (open_files (files s) f) + u32_of (int (length bs))" "disk fs = disk (files s)"
    using fm_read_ok [of ?m "files s" f ino ?c, unfolded m] assms(3-10) by blast
  obtain r where r: "copy_from_kernel False (kpdir (mprocs (mem s) p)) b bs (ram (mem s)) = Inr r"
      "copy_to_kernel False (kpdir (mprocs (mem s) p)) b (length bs) r = Inr bs"
    using user_copy_ok [OF assms(11)] by blast
  let ?s = "s\<lparr>files := fs, mem := (mem s)\<lparr>ram := r\<rparr>\<rparr>"
  have "served fm_read g ?m s = Inr (reply (fpid ?c) (int (length bs)) ?m, ?s)"
    using fs(1) r(1) assms(2) by (simp add: served_def deliver_def)
  moreover have "lib_call g irq tp addr stack (L_read fd b n) (s, t) =
      bindE (served fm_read g ?m s) (\<lambda>(r, s). Inr (Some (u32_of (ret r)), s, t))"
    using assms(1) by (intro file_calls_ok) simp
  ultimately have "lib_call g irq tp addr stack (L_read fd b n) (s, t) = Inr (Some (u32_of (int (length bs))), ?s, t)"
    by (simp add: reply_def)
  then show ?thesis using r(2) fs(2,3) by auto
qed

text \<open>
  C5. \<open>read\<close> from the program to the disk and back: on an open plain file, the library function returns the
  number of bytes there are from the offset on, up to the number asked for, and exactly these bytes of
  the file are what the process finds at the address it passed, on however many pages; the disk is as
  before and the offset has advanced.
\<close>

theorem library_read_delivers:
  assumes "p = current (kern s)" and "user_space (pool (kern s) p)"
    and "fd_at p (sint fd) (files s) = Inr (Some f)" and "ino = vinode (vnode_array (files s) (fvnode (open_files (files s) f)))"
    and "idev ino = 0" and "wf_file (files s) ino" and "isize ino \<le> level_end1"
    and "0 \<le> sint (foffset (open_files (files s) f))" and "0 \<le> sint n"
    and "bs = take (nat (sint n)) (drop (nat (sint (foffset (open_files (files s) f)))) (file_data (disk (files s)) ino))"
    and "maps_to (ram (mem s)) (kpdir (mprocs (mem s) p)) b (length bs) tr"
  shows "\<exists>s'. lib_call g irq tp addr stack (L_read fd b n) (s, t) = Inr (Some (u32_of (int (length bs))), s', t) \<and>
    copy_to_kernel False (kpdir (mprocs (mem s') p)) b (length bs) (ram (mem s')) = Inr bs \<and>
    disk (files s') = disk (files s) \<and>
    foffset (open_files (files s') f) = foffset (open_files (files s) f) + u32_of (int (length bs))"
  using read_call_ok [OF assms] by blast

text \<open>A file of four bytes, open as descriptor 4, read across two pages of user memory.\<close>

definition try_inode :: inode where
  "try_inode = \<lparr>isize = 4, itype = PLAIN, idev = 0, ilink = 1, blk = map block_of [0..<15]\<rparr>"

definition try_files :: fs where
  "try_files = fs0\<lparr>disk := of_nat, block_bitmap := (\<lambda>i. if i = 0 then 1 else 0),
     vnode_array := (\<lambda>_. \<lparr>vindex = 0, vinode = try_inode, vcount = 1\<rparr>),
     fprocs := (\<lambda>_. \<lparr>fd_table = (replicate 100 None)[4 := Some 1], min_fd = 3, current_dir = no_name, is_kernel = False\<rparr>)\<rparr>"

definition try_sys :: "sys \<Rightarrow> sys" where
  "try_sys s = s\<lparr>kern := (kern s)\<lparr>current := 9, pool := (\<lambda>_. (pool (kern s) 9)\<lparr>user_space := True\<rparr>)\<rparr>,
     mem := (mem s)\<lparr>ram := try_ram, mprocs := (\<lambda>_. (mprocs (mem s) 9)\<lparr>kpdir := 0x10000\<rparr>)\<rparr>, files := try_files\<rparr>"

lemma try_wf: "wf_file try_files try_inode"
proof -
  have "length (blk try_inode) = 15" "isize try_inode = int 4" "(4 :: nat) \<le> 3072"
    by (simp_all add: try_inode_def)
  note w = wf_file_direct(1) [OF this, of try_files]
  have "file_rep try_files {} (take (nblocks 4) (blk try_inode)) 4"
    by (auto simp: file_rep_def nblocks_def try_inode_def take_map own_ok_def indices_ok_def try_files_def fs0_def
      block_slots_def block_used_def)
  then show ?thesis using w by blast
qed

lemma try_data: "file_data (disk try_files) try_inode = [0, 1, 2, 3]"
proof -
  have "file_byte of_nat try_inode k = of_nat k" if "k < 4" for k
    using that by (simp add: file_byte_def block_addr_def try_inode_def unat_block_of nth_append)
  moreover have "fsize try_inode = 4" by (simp add: fsize_def try_inode_def)
  ultimately show ?thesis by (simp add: file_data_def try_files_def upt_rec)
qed

theorem library_read_delivers_witness:
  "\<forall>g irq tp addr stack s t. \<exists>s'. lib_call g irq tp addr stack (L_read 4 0x1FFE 10) (try_sys s, t) = Inr (Some 4, s', t) \<and>
     copy_to_kernel False (kpdir (mprocs (mem s') 9)) 0x1FFE 4 (ram (mem s')) = Inr [0, 1, 2, 3]"
proof (intro allI)
  fix g irq tp addr stack s t
  have l: "length [0, 1, 2, 3 :: u8] = 4" by simp
  have "fd_at 9 (sint (4 :: u32)) (files (try_sys s)) = Inr (Some 1)" by (simp add: fd_at_def try_sys_def try_files_def)
  moreover have "try_inode = vinode (vnode_array (files (try_sys s)) (fvnode (open_files (files (try_sys s)) 1)))"
    by (simp add: try_sys_def try_files_def)
  moreover have "[0, 1, 2, 3] = take (nat (sint (10 :: u32))) (drop (nat (sint (foffset (open_files (files (try_sys s)) 1))))
      (file_data (disk (files (try_sys s))) try_inode))"
    using try_data by (simp add: try_sys_def) (simp add: try_files_def fs0_def)
  moreover have "maps_to (ram (mem (try_sys s))) (kpdir (mprocs (mem (try_sys s)) 9)) 0x1FFE (length [0, 1, 2, 3 :: u8]) try_tr"
    unfolding l using try_maps by (simp add: try_sys_def)
  ultimately have "\<exists>s'. lib_call g irq tp addr stack (L_read 4 0x1FFE 10) (try_sys s, t) =
      Inr (Some (u32_of (int (length [0, 1, 2, 3 :: u8]))), s', t) \<and>
    copy_to_kernel False (kpdir (mprocs (mem s') 9)) 0x1FFE (length [0, 1, 2, 3 :: u8]) (ram (mem s')) = Inr [0, 1, 2, 3] \<and>
    disk (files s') = disk (files (try_sys s)) \<and>
    foffset (open_files (files s') 1) = foffset (open_files (files (try_sys s)) 1) + u32_of (int (length [0, 1, 2, 3 :: u8]))"
    using try_wf
    by (intro library_read_delivers [of 9 "try_sys s" 4 1 try_inode 10 "[0, 1, 2, 3]" "0x1FFE" try_tr g irq tp addr stack t])
      (simp_all add: try_sys_def try_inode_def try_files_def fs0_def del: list.size)
  then show "\<exists>s'. lib_call g irq tp addr stack (L_read 4 0x1FFE 10) (try_sys s, t) = Inr (Some 4, s', t) \<and>
     copy_to_kernel False (kpdir (mprocs (mem s') 9)) 0x1FFE 4 (ram (mem s')) = Inr [0, 1, 2, 3]"
    unfolding l by (auto simp: u32_of_def)
qed

end
