(* ===== verification/Fs_Store.thy ===== *)
theory Fs_Store
  imports Fs_Handlers
begin

text \<open>
  A write request of the file server as a whole (\<open>fm_write\<close> of src/kernel/file_system/fm_syscall.c): the
  file is cut at the offset when the offset is before its end, and the bytes of the caller are appended.
\<close>

section \<open>Cutting\<close>

lemma freed_own:
  assumes "wf_file s ino" and "isize ino = int e" and "3072 < e" and "e \<le> 19456"
  shows "freed (disk s) ino p \<subseteq> file_own (disk s) ino"
proof -
  have "blk ino ! 12 \<in> set (index_blocks (disk s) ino)" using assms by (simp add: index_blocks_def)
  then show ?thesis using set_drop_subset [of "nblocks p" "file_blocks (disk s) ino"]
    by (auto simp: freed_def file_own_def)
qed

lemma cut_other:
  assumes "wf_file s ino" and "isize ino = int e" and "3072 < e" and "e \<le> 19456"
    and "wf_file s other" and "file_own (disk s) other \<inter> file_own (disk s) ino = {}"
  shows "wf_file (cut_state ino p s) other"
proof -
  have own: "own_ok s (file_own (disk s) other)" using assms(5) by (simp add: wf_file_def file_rep_def file_own_def)
  have "file_own (disk s) other \<inter> freed (disk s) ino p = {}" using freed_own [OF assms(1-4), of p] assms(6) by blast
  moreover have "indices_ok (cut_state ino p s)" using own by (simp add: own_ok_def indices_ok_def cut_state_def)
  ultimately have "own_ok (cut_state ino p s) (file_own (disk s) other)"
    using own_less [OF own _ _ _ cut_used [OF assms(1-4)]] by blast
  then show ?thesis using assms(5) by (simp add: wf_file_def file_rep_def file_own_def)
qed

lemma cut_idle:
  assumes "wf_file s ino" and "isize ino = int e" and "3072 < e" and "e \<le> 19456"
  shows "blocks.idle s \<le> blocks.idle (cut_state ino p s)"
  unfolding blocks.idle_def using cut_used [OF assms] by (intro card_mono) (auto simp: block_slots_def)

text \<open>The part of \<open>fm_write\<close> before the data is written.\<close>

definition start_write :: "inode \<Rightarrow> int \<Rightarrow> fs \<Rightarrow> (inode \<times> fs) exec" where
  "start_write ino fo s =
     (if fo < isize ino then bindE (release_block ino fo s) (\<lambda>s. Inr (ino\<lparr>isize := fo\<rparr>, s)) else Inr (ino, s))"

lemma start_write_ok:
  assumes wf: "wf_file s ino" and "length (index_block1 s) = 64" and p: "isize ino = int p \<or> 3072 \<le> p \<and> int p < isize ino"
    and sz: "isize ino \<le> level_end1"
    and other: "wf_file s other" "file_own (disk s) other \<inter> file_own (disk s) ino = {}"
  shows "\<exists>s1. start_write ino (int p) s = Inr (ino\<lparr>isize := int p\<rparr>, s1) \<and> wf_file s1 (ino\<lparr>isize := int p\<rparr>) \<and>
    disk s1 = disk s \<and> file_data (disk s) (ino\<lparr>isize := int p\<rparr>) = take p (file_data (disk s) ino) \<and>
    length (index_block1 s1) = 64 \<and> blocks.idle s \<le> blocks.idle s1 \<and> fs_rest s1 = fs_rest s \<and>
    wf_file s1 other \<and> file_own (disk s) other \<inter> file_own (disk s) (ino\<lparr>isize := int p\<rparr>) = {}"
proof (cases "isize ino = int p")
  case True
  then have same: "ino\<lparr>isize := int p\<rparr> = ino" and "fsize ino = p" by (simp_all add: fsize_def)
  then have "take p (file_data (disk s) ino) = file_data (disk s) ino" by (simp add: file_data_def)
  moreover have "start_write ino (int p) s = Inr (ino, s)" using True by (simp add: start_write_def)
  ultimately show ?thesis unfolding same using assms by auto
next
  case False
  define e where "e = fsize ino"
  have e: "isize ino = int e" "3072 \<le> p" "p < e" "e \<le> 19456" "3072 < e" using p sz False by (auto simp: e_def fsize_def)
  have "start_write ino (int p) s = Inr (ino\<lparr>isize := int p\<rparr>, cut_state ino p s)"
    using release_block_cut [OF wf e(1-4)] e by (simp add: start_write_def)
  moreover note cut_wf [OF wf e(1-4)] cut_idle [OF wf e(1,5,4)] cut_other [OF wf e(1,5,4) other]
  ultimately show ?thesis using other(2) by (intro exI [of _ "cut_state ino p s"]) auto
qed

section \<open>Writing\<close>

lemma start_write_eq:
  "fm_write c m s =
     bindE (fd_at (src m) (i1 m) s) (\<lambda>fd.
       case fd of
         None \<Rightarrow> answer c m (- 1) [] s
       | Some f \<Rightarrow>
           let e = open_files s f; v = fvnode e; x = vnode_array s v in
           bindE (start_write (vinode x) (sint (foffset e)) s) (\<lambda>(ino, s).
           if idev ino = 0 then
             bindE (write_data (is_kernel (fprocs s (i0 m))) (\<lambda>k. umem c (i0 m) (i2 m + int k))
                      (sint (foffset e)) ino (i3 m) s) (\<lambda>(w, ino, s).
               answer c m w [] (set_file f (e\<lparr>foffset := u32_of (isize ino)\<rparr>) (set_vnode v (x\<lparr>vinode := ino\<rparr>) s)))
           else bindE (tty_call (tty_write c) (idev ino) (i3 m)) (\<lambda>r.
                  answer c m r [] (set_vnode v (x\<lparr>vinode := ino\<rparr>) s))))"
  by (simp add: fm_write_def start_write_def Let_def cong: option.case_cong)

text \<open>The tables of a file server do not matter for the files on its disk.\<close>

lemma wf_tables [simp]:
  "wf_file (set_file f e s) ino = wf_file s ino" "wf_file (set_vnode v x s) ino = wf_file s ino"
  by (simp_all add: wf_file_def file_rep_def own_ok_def indices_ok_def block_used_def set_file_def set_vnode_def)

lemma set_tables [simp]:
  "disk (set_file f e s) = disk s" "disk (set_vnode v x s) = disk s"
  "index_block1 (set_file f e s) = index_block1 s" "index_block1 (set_vnode v x s) = index_block1 s"
  "fprocs (set_file f e s) = fprocs s" "fprocs (set_vnode v x s) = fprocs s"
  "open_files (set_file f e s) = (open_files s)(f := e)" "open_files (set_vnode v x s) = open_files s"
  "vnode_array (set_file f e s) = vnode_array s" "vnode_array (set_vnode v x s) = (vnode_array s)(v := x)"
  by (simp_all add: set_file_def set_vnode_def)

lemma rest_tables:
  assumes "fs_rest s' = fs_rest s"
  shows "fprocs s' = fprocs s" and "open_files s' = open_files s" and "vnode_array s' = vnode_array s"
  using arg_cong [OF assms, of fprocs] arg_cong [OF assms, of open_files] arg_cong [OF assms, of vnode_array]
  by (simp_all add: fs_rest_def)

lemma fm_write_ok:
  assumes fd: "fd_at (src m) (i1 m) s = Inr (Some f)" and e: "e = open_files s f" and x: "x = vnode_array s (fvnode e)"
    and ino: "ino = vinode x" "idev ino = 0" "wf_file s ino" "isize ino \<le> level_end1"
    and p: "sint (foffset e) = int p" "isize ino = int p \<or> 3072 \<le> p \<and> int p < isize ino"
    and n: "i3 m = int n" "p + n \<le> 19456" "nblocks (p + n) + 1 \<le> nblocks p + blocks.idle s"
    and buf: "length (index_block1 s) = 64"
    and other: "wf_file s other" "file_own (disk s) other \<inter> file_own (disk s) ino = {}"
  shows "\<exists>ino' s'. fm_write c m s = Inr (Some (src m, reply (fpid c) (int n) m), [], s') \<and>
    vnode_array s' = (vnode_array s)(fvnode e := x\<lparr>vinode := ino'\<rparr>) \<and> idev ino' = 0 \<and> wf_file s' ino' \<and> isize ino' = int (p + n) \<and>
    file_data (disk s') ino' = take p (file_data (disk s) ino) @ cells (\<lambda>k. umem c (i0 m) (i2 m + int k)) 0 n \<and>
    open_files s' = (open_files s)(f := e\<lparr>foffset := u32_of (int (p + n))\<rparr>) \<and> fprocs s' = fprocs s \<and>
    wf_file s' other \<and> file_data (disk s') other = file_data (disk s) other"
proof -
  let ?mem = "\<lambda>k. umem c (i0 m) (i2 m + int k)"
  let ?i1 = "ino\<lparr>isize := int p\<rparr>"
  obtain s1 where s1: "start_write ino (int p) s = Inr (?i1, s1)" "wf_file s1 ?i1" "disk s1 = disk s"
      "file_data (disk s) ?i1 = take p (file_data (disk s) ino)" "length (index_block1 s1) = 64"
      "blocks.idle s \<le> blocks.idle s1" "fs_rest s1 = fs_rest s" "wf_file s1 other"
      "file_own (disk s) other \<inter> file_own (disk s) ?i1 = {}"
    using start_write_ok [OF ino(3) buf p(2) ino(4) other] by blast
  have "isize ?i1 = int p" "nblocks (p + n) + 1 \<le> nblocks p + blocks.idle s1" using n(3) s1(6) by simp_all
  from write_data_spec [OF s1(2) this(1) n(2) s1(5) this(2), of "is_kernel (fprocs s1 (i0 m))" ?mem]
  obtain ino' s2 where w: "write_data (is_kernel (fprocs s1 (i0 m))) ?mem (int p) ?i1 (int n) s1 = Inr (int n, ino', s2)"
    and a: "appended s1 ?i1 (cells ?mem 0 n) s2 ino'" by blast
  note ap = appendedD [OF a]
  have dev: "idev ino' = 0"
  proof -
    have "ino' = ?i1\<lparr>isize := isize ?i1 + int n, blk := blk ino'\<rparr>" using a by (simp add: appended_def)
    from arg_cong [OF this, of idev] show ?thesis using ino(2) by simp
  qed
  have size: "isize ino' = int (p + n)" using ap(4) by simp
  have rest: "fs_rest s2 = fs_rest s" using ap(3) s1(7) by (simp add: grow_def)
  note keep = wf_other [OF s1(8) ap(3)] s1(3,9)
  define s' where "s' = set_file f (e\<lparr>foffset := u32_of (isize ino')\<rparr>) (set_vnode (fvnode e) (x\<lparr>vinode := ino'\<rparr>) s2)"
  have "fm_write c m s = answer c m (int n) [] s'"
    unfolding start_write_eq fd bindE_Inr option.case Let_def e [symmetric] x [symmetric] ino(1) [symmetric] p(1) s1(1) prod.case
    using w ino(2) n(1) by (simp add: s'_def)
  then show ?thesis using dev size ap(1,2) s1(3,4) keep rest_tables [OF rest]
    by (intro exI [of _ ino'] exI [of _ s']) (simp add: answer_def s'_def)
qed

end
