(* ===== verification/Library_Files.thy ===== *)
theory Library_Files
  imports Library Fs_Store
begin

text \<open>
  Whole calls on files, from the library function of a user program through trap, dispatch and file server
  to the disk and the pages of the caller: \<open>write\<close>, \<open>lseek\<close> and \<open>read\<close> one after the other.
\<close>

section \<open>Situations\<close>

text \<open>The calling process has the plain file \<open>ino\<close> open as its descriptor \<open>fd\<close>, in the entry \<open>f\<close>.\<close>

definition opened :: "sys \<Rightarrow> u32 \<Rightarrow> nat \<Rightarrow> inode \<Rightarrow> bool" where
  "opened s fd f ino \<longleftrightarrow>
     user_space (pool (kern s) (current (kern s))) \<and> fd_at (current (kern s)) (sint fd) (files s) = Inr (Some f) \<and>
     vinode (vnode_array (files s) (fvnode (open_files (files s) f))) = ino \<and> idev ino = 0 \<and>
     wf_file (files s) ino \<and> isize ino \<le> level_end1"

text \<open>
  At the offset \<open>q\<close> there is room for \<open>n\<close> bytes: the offset is at the end of the file or cuts it within its
  single-indirect level, and enough blocks are idle.
\<close>

definition has_room :: "sys \<Rightarrow> nat \<Rightarrow> inode \<Rightarrow> nat \<Rightarrow> nat \<Rightarrow> bool" where
  "has_room s f ino q n \<longleftrightarrow>
     sint (foffset (open_files (files s) f)) = int q \<and> (isize ino = int q \<or> 3072 \<le> q \<and> int q < isize ino) \<and>
     int (q + n) \<le> level_end1 \<and> nblocks (q + n) + 1 \<le> nblocks q + blocks.idle (files s) \<and> length (index_block1 (files s)) = 64"

text \<open>The page directory of the caller, and the bytes it has at an address.\<close>

definition caller_dir :: "sys \<Rightarrow> u32" where
  "caller_dir s = kpdir (mprocs (mem s) (current (kern s)))"

definition has_bytes :: "sys \<Rightarrow> u32 \<Rightarrow> u8 list \<Rightarrow> bool" where
  "has_bytes s b bs \<longleftrightarrow>
     (\<exists>tr. (\<forall>k \<le> length bs. physical_addr (ram (mem s)) (caller_dir s) (b + of_nat k) = Inr (tr k)) \<and>
        bs = map (\<lambda>k. ram (mem s) (tr k)) [0..<length bs])"

lemma has_bytes_umem:
  assumes "has_bytes s b bs" and "user_space (pool (kern s) (current (kern s)))"
  shows "cells (\<lambda>k. user_byte s (current (kern s)) (sint b + int k)) 0 (length bs) = bs"
proof -
  obtain tr where tr: "\<forall>k \<le> length bs. physical_addr (ram (mem s)) (caller_dir s) (b + of_nat k) = Inr (tr k)"
      "bs = map (\<lambda>k. ram (mem s) (tr k)) [0..<length bs]"
    using assms(1) unfolding has_bytes_def by blast
  have "u32_of (sint b + int k) = b + of_nat k" for k by (simp add: u32_of_def)
  then have "user_byte s (current (kern s)) (sint b + int k) = bs ! k" if "k < length bs" for k
    using tr(1) that assms(2) arg_cong [OF tr(2), of "\<lambda>l. l ! k"] by (simp add: user_byte_def caller_dir_def)
  then show ?thesis by (intro nth_equalityI) (simp_all add: cells_def)
qed

section \<open>The calls\<close>

lemma library_write_ok:
  assumes op: "opened s fd f ino" and room: "has_room s f ino q (length bs)" and n: "sint n = int (length bs)"
    and mem: "has_bytes s b bs" and other: "wf_file (files s) other" "file_own (disk (files s)) other \<inter> file_own (disk (files s)) ino = {}"
  shows "\<exists>ino' fs. lib_call g irq tp addr stack (L_write fd b n) (s, t) = Inr (Some n, s\<lparr>files := fs\<rparr>, t) \<and>
    opened (s\<lparr>files := fs\<rparr>) fd f ino' \<and> isize ino' = int (q + length bs) \<and>
    file_data (disk fs) ino' = take q (file_data (disk (files s)) ino) @ bs \<and>
    foffset (open_files fs f) = u32_of (isize ino') \<and>
    wf_file fs other \<and> file_data (disk fs) other = file_data (disk (files s)) other"
proof -
  let ?p = "current (kern s)" and ?e = "open_files (files s) f"
  let ?x = "vnode_array (files s) (fvnode ?e)"
  let ?m = "with_words [?p, sint fd, sint b, sint n] (request g (file_type (L_write fd b n)) s)"
  let ?c = "(fclient g)\<lparr>umem := user_byte s\<rparr>"
  have o: "user_space (pool (kern s) ?p)" "fd_at ?p (sint fd) (files s) = Inr (Some f)" "vinode ?x = ino" "idev ino = 0"
      "wf_file (files s) ino" "isize ino \<le> level_end1" using op by (simp_all add: opened_def)
  have r: "sint (foffset ?e) = int q" "isize ino = int q \<or> 3072 \<le> q \<and> int q < isize ino" "q + length bs \<le> 19456"
      "nblocks (q + length bs) + 1 \<le> nblocks q + blocks.idle (files s)" "length (index_block1 (files s)) = 64"
    using room by (auto simp: has_room_def)
  have m: "src ?m = ?p" "i0 ?m = ?p" "i1 ?m = sint fd" "i2 ?m = sint b" "i3 ?m = int (length bs)"
    using n by (simp_all add: request_def)
  obtain ino' fs where w: "fm_write ?c ?m (files s) = Inr (Some (?p, reply (fpid ?c) (int (length bs)) ?m), [], fs)"
      "vnode_array fs = (vnode_array (files s))(fvnode ?e := ?x\<lparr>vinode := ino'\<rparr>)" "idev ino' = 0" "wf_file fs ino'"
      "isize ino' = int (q + length bs)"
      "file_data (disk fs) ino' = take q (file_data (disk (files s)) ino) @ cells (\<lambda>k. user_byte s ?p (sint b + int k)) 0 (length bs)"
      "open_files fs = (open_files (files s))(f := ?e\<lparr>foffset := u32_of (int (q + length bs))\<rparr>)" "fprocs fs = fprocs (files s)"
      "wf_file fs other" "file_data (disk fs) other = file_data (disk (files s)) other"
    using fm_write_ok [of ?m "files s" f ?e ?x ino q "length bs" other ?c, unfolded m] o r other by auto
  have "served fm_write g ?m s = Inr (reply (fpid ?c) (int (length bs)) ?m, s\<lparr>files := fs\<rparr>)"
    using w(1) by (simp add: served_def)
  moreover have "lib_call g irq tp addr stack (L_write fd b n) (s, t) =
      bindE (served fm_write g ?m s) (\<lambda>(r, s). Inr (Some (u32_of (ret r)), s, t))"
    by (intro file_calls_ok) simp
  moreover have "u32_of (int (length bs)) = n" using arg_cong [OF n, of u32_of] by simp
  ultimately have "lib_call g irq tp addr stack (L_write fd b n) (s, t) = Inr (Some n, s\<lparr>files := fs\<rparr>, t)"
    by (simp add: reply_def)
  moreover have "opened (s\<lparr>files := fs\<rparr>) fd f ino'"
    using o w r(3) by (simp add: opened_def fd_at_def)
  ultimately show ?thesis using w(5-10) has_bytes_umem [OF mem o(1)] by (intro exI [of _ ino'] exI [of _ fs]) simp
qed

lemma library_seek_ok:
  assumes "opened s fd f ino"
  shows "\<exists>fs. lib_call g irq tp addr stack (L_lseek fd q 0) (s, t) = Inr (Some 0, s\<lparr>files := fs\<rparr>, t) \<and>
    opened (s\<lparr>files := fs\<rparr>) fd f ino \<and> disk fs = disk (files s) \<and> foffset (open_files fs f) = q"
proof -
  let ?m = "with_words [sint fd, sint q, 0] (request g (file_type (L_lseek fd q 0)) s)"
  let ?fs = "set_file f ((open_files (files s) f)\<lparr>foffset := q\<rparr>) (files s)"
  have fd: "fd_at (src ?m) (i0 ?m) (files s) = Inr (Some f)" using assms by (simp add: opened_def request_def)
  have "served fm_lseek g ?m s = Inr (reply (fpid (fclient g)) 0 ?m, s\<lparr>files := ?fs\<rparr>)"
    unfolding served_def fm_lseek_def fd by (simp add: answer_def)
  moreover have "lib_call g irq tp addr stack (L_lseek fd q 0) (s, t) =
      bindE (served fm_lseek g ?m s) (\<lambda>(r, s). Inr (Some (u32_of (ret r)), s, t))"
    by (intro file_calls_ok) simp
  ultimately have "lib_call g irq tp addr stack (L_lseek fd q 0) (s, t) = Inr (Some 0, s\<lparr>files := ?fs\<rparr>, t)"
    by (simp add: reply_def u32_of_def)
  moreover have "opened (s\<lparr>files := ?fs\<rparr>) fd f ino" using assms by (simp add: opened_def fd_at_def)
  ultimately show ?thesis by (intro exI [of _ ?fs]) simp
qed

lemma library_read_ok:
  assumes op: "opened s fd f ino" and q: "sint (foffset (open_files (files s) f)) = int q" and n: "0 \<le> sint n"
    and bs: "bs = take (nat (sint n)) (drop q (file_data (disk (files s)) ino))"
    and mem: "maps_to (ram (mem s)) (caller_dir s) b (length bs) tr"
  shows "\<exists>s'. lib_call g irq tp addr stack (L_read fd b n) (s, t) = Inr (Some (u32_of (int (length bs))), s', t) \<and>
    copy_to_kernel False (caller_dir s') b (length bs) (ram (mem s')) = Inr bs"
proof -
  have "0 \<le> sint (foffset (open_files (files s) f))" using q by simp
  moreover have "bs = take (nat (sint n)) (drop (nat (sint (foffset (open_files (files s) f)))) (file_data (disk (files s)) ino))"
    using bs q by simp
  moreover have "user_space (pool (kern s) (current (kern s)))" "fd_at (current (kern s)) (sint fd) (files s) = Inr (Some f)"
      "ino = vinode (vnode_array (files s) (fvnode (open_files (files s) f)))" "idev ino = 0" "wf_file (files s) ino"
      "isize ino \<le> level_end1" using op by (auto simp: opened_def)
  ultimately obtain s' where "lib_call g irq tp addr stack (L_read fd b n) (s, t) = Inr (Some (u32_of (int (length bs))), s', t)"
      "copy_to_kernel False (kpdir (mprocs (mem s') (current (kern s)))) b (length bs) (ram (mem s')) = Inr bs"
      "kern s' = kern s"
    using read_call_ok [OF refl, of s fd f ino n bs b tr g irq tp addr stack t] n mem unfolding caller_dir_def by blast
  then show ?thesis by (intro exI [of _ s']) (simp add: caller_dir_def)
qed

lemma no_other_file:
  assumes "wf_file s ino"
  shows "wf_file s (ino\<lparr>isize := 0\<rparr>)" and "file_own d (ino\<lparr>isize := 0\<rparr>) = {}"
proof -
  have i: "length (blk (ino\<lparr>isize := 0\<rparr>)) = 15" "isize (ino\<lparr>isize := 0\<rparr>) = int 0" using assms by (simp_all add: wf_file_def)
  have "indices_ok s" using assms by (simp add: wf_file_def file_rep_def own_ok_def)
  then have "file_rep s {} [] 0" by (simp add: file_rep_def own_ok_def nblocks_def)
  then show "wf_file s (ino\<lparr>isize := 0\<rparr>)" using wf_file_direct(1) [OF i] by (simp add: nblocks_def)
  show "file_own d (ino\<lparr>isize := 0\<rparr>) = {}" using wf_file_direct(2) [OF i] by (simp add: nblocks_def)
qed

section \<open>Properties\<close>


text \<open>
  C2. What \<open>write\<close> stored, \<open>read\<close> brings back: after \<open>write\<close>, an \<open>lseek\<close> to the offset the write began at
  and a \<open>read\<close> of as many bytes into other pages, all through the library, the process finds there the
  bytes it wrote. The calls return the number of bytes, 0, and the number of bytes again.
\<close>

theorem library_write_seek_read:
  assumes "opened s fd f ino" and "has_room s f ino q (length bs)" and "sint n = int (length bs)" and "has_bytes s b bs"
    and "maps_to (ram (mem s)) (caller_dir s) b' (length bs) tr"
  shows "\<exists>s1 s2 s3. lib_call g irq tp addr st1 (L_write fd b n) (s, t) = Inr (Some n, s1, t) \<and>
    lib_call g irq tp addr st2 (L_lseek fd (of_nat q) 0) (s1, t) = Inr (Some 0, s2, t) \<and>
    lib_call g irq tp addr st3 (L_read fd b' n) (s2, t) = Inr (Some n, s3, t) \<and>
    copy_to_kernel False (caller_dir s3) b' (length bs) (ram (mem s3)) = Inr bs"
proof -
  have wf: "wf_file (files s) ino" using assms(1) by (simp add: opened_def)
  have q: "q \<le> 19456" "q \<le> fsize ino" using assms(2) by (auto simp: has_room_def fsize_def)
  obtain ino' fs where w: "lib_call g irq tp addr st1 (L_write fd b n) (s, t) = Inr (Some n, s\<lparr>files := fs\<rparr>, t)"
      "opened (s\<lparr>files := fs\<rparr>) fd f ino'" "file_data (disk fs) ino' = take q (file_data (disk (files s)) ino) @ bs"
    using library_write_ok [OF assms(1-4) no_other_file(1) [OF wf], of g irq tp addr st1 t] no_other_file(2) [OF wf] by auto
  obtain fs2 where k: "lib_call g irq tp addr st2 (L_lseek fd (of_nat q) 0) (s\<lparr>files := fs\<rparr>, t) = Inr (Some 0, s\<lparr>files := fs2\<rparr>, t)"
      "opened (s\<lparr>files := fs2\<rparr>) fd f ino'" "disk fs2 = disk fs" "foffset (open_files fs2 f) = of_nat q"
    using library_seek_ok [OF w(2), of g irq tp addr st2 "of_nat q" t] by auto
  have "sint (foffset (open_files fs2 f)) = int q" using q(1) k(4) by (simp add: sint_unat32 unat_of_nat32)
  moreover have "bs = take (nat (sint n)) (drop q (file_data (disk fs2) ino'))"
    using w(3) k(3) q(2) assms(3) by (simp add: file_data_def)
  moreover have "caller_dir (s\<lparr>files := fs2\<rparr>) = caller_dir s" by (simp add: caller_dir_def)
  then have "maps_to (ram (mem (s\<lparr>files := fs2\<rparr>))) (caller_dir (s\<lparr>files := fs2\<rparr>)) b' (length bs) tr" using assms(5) by simp
  moreover have "0 \<le> sint n" using assms(3) by simp
  moreover note k(2)
  ultimately obtain s3 where "lib_call g irq tp addr st3 (L_read fd b' n) (s\<lparr>files := fs2\<rparr>, t) = Inr (Some (u32_of (int (length bs))), s3, t)"
      "copy_to_kernel False (caller_dir s3) b' (length bs) (ram (mem s3)) = Inr bs"
    using library_read_ok [of "s\<lparr>files := fs2\<rparr>" fd f ino' q n bs b' tr g irq tp addr st3 t] unfolding sys.select_convs sys.update_convs by auto
  moreover have "u32_of (int (length bs)) = n" using arg_cong [OF assms(3), of u32_of] by simp
  ultimately show ?thesis using w(1) k(1) by auto
qed

text \<open>A process with an empty file open as descriptor 4 and two bytes in its memory.\<close>

definition write_sys :: "sys \<Rightarrow> sys" where
  "write_sys s = s\<lparr>kern := (kern s)\<lparr>current := 9, pool := (\<lambda>_. (pool (kern s) 9)\<lparr>user_space := True\<rparr>)\<rparr>,
     mem := (mem s)\<lparr>ram := try_ram(0x30FFE := 7, 0x30FFF := 9), mprocs := (\<lambda>_. (mprocs (mem s) 9)\<lparr>kpdir := 0x10000\<rparr>)\<rparr>,
     files := fs0\<lparr>fprocs := (\<lambda>_. \<lparr>fd_table = (replicate 100 None)[4 := Some 1], min_fd = 3, current_dir = no_name, is_kernel = False\<rparr>)\<rparr>\<rparr>"

lemma write_maps: "maps_to (ram (mem (write_sys s))) (caller_dir (write_sys s)) 0x1FFE 4 try_tr"
proof -
  have "load32 (try_ram(0x30FFE := 7, 0x30FFF := 9)) a = load32 try_ram a" if "a \<in> {0x10000, 0x20004, 0x20008}" for a
    using that by (auto simp: load32_def)
  with try_load show ?thesis by (simp add: write_sys_def caller_dir_def maps_try)
qed

lemma write_situation:
  "opened (write_sys s) 4 1 empty_inode" "has_room (write_sys s) 1 empty_inode 0 2" "has_bytes (write_sys s) 0x1FFE [7, 9]"
  "wf_file (files (write_sys s)) empty_inode"
proof -
  have "wf_file (files (write_sys s)) empty_inode = wf_file fs0 empty_inode" "blocks.idle (files (write_sys s)) = blocks.idle fs0"
    by (simp_all add: write_sys_def wf_file_def file_rep_def own_ok_def indices_ok_def block_used_def blocks.idle_def)
  then show "wf_file (files (write_sys s)) empty_inode" "opened (write_sys s) 4 1 empty_inode" "has_room (write_sys s) 1 empty_inode 0 2"
    by (simp_all add: opened_def has_room_def idle_fs0 nblocks_def)
      (simp_all add: write_sys_def fd_at_def fs0_def empty_inode_def)
  have "physical_addr (ram (mem (write_sys s))) (caller_dir (write_sys s)) (0x1FFE + of_nat k) = Inr (try_tr k)" if "k \<le> 2" for k
    using write_maps [of s] that by (simp add: maps_to_def)
  moreover have "[7, 9] = map (\<lambda>k. ram (mem (write_sys s)) (try_tr k)) [0..<2]"
    by (simp add: upt_rec write_sys_def try_tr_def)
  ultimately show "has_bytes (write_sys s) 0x1FFE [7, 9]" unfolding has_bytes_def by (intro exI [of _ try_tr]) (simp add: numeral_2_eq_2)
qed


theorem library_write_seek_read_witness:
  "\<forall>g irq tp addr st1 st2 st3 s t. \<exists>s1 s2 s3. lib_call g irq tp addr st1 (L_write 4 0x1FFE 2) (write_sys s, t) = Inr (Some 2, s1, t) \<and>
     lib_call g irq tp addr st2 (L_lseek 4 0 0) (s1, t) = Inr (Some 0, s2, t) \<and>
     lib_call g irq tp addr st3 (L_read 4 0x2000 2) (s2, t) = Inr (Some 2, s3, t) \<and>
     copy_to_kernel False (caller_dir s3) 0x2000 2 (ram (mem s3)) = Inr [7, 9]"
proof (intro allI)
  fix g irq tp addr st1 st2 st3 s t
  have l: "length [7, 9 :: u8] = 2" by simp
  have "maps_to (ram (mem (write_sys s))) (caller_dir (write_sys s)) 0x2000 2 (\<lambda>k. try_tr (2 + k))"
    using maps_part [OF write_maps [of s], of 2 2] by simp
  from library_write_seek_read [OF write_situation(1) [of s], of 0 "[7, 9]" 2 "0x1FFE", unfolded l,
    OF write_situation(2) _ write_situation(3) this, of g irq tp addr st1 t st2 st3]
  show "\<exists>s1 s2 s3. lib_call g irq tp addr st1 (L_write 4 0x1FFE 2) (write_sys s, t) = Inr (Some 2, s1, t) \<and>
     lib_call g irq tp addr st2 (L_lseek 4 0 0) (s1, t) = Inr (Some 0, s2, t) \<and>
     lib_call g irq tp addr st3 (L_read 4 0x2000 2) (s2, t) = Inr (Some 2, s3, t) \<and>
     copy_to_kernel False (caller_dir s3) 0x2000 2 (ram (mem s3)) = Inr [7, 9]" by simp
qed

end
