(* ===== verification/Shell.thy ===== *)
theory Shell
  imports C_String
begin

text \<open>
  The shell (shell/shell.c), a user program. Its view of the kernel is the calls it makes: each has a
  result and, for calls with a buffer, the bytes stored there (Syscall has the kernel's side). Its
  \<open>strlen\<close>, \<open>strcpy\<close> and \<open>strcmp\<close> are those of lib/string.c again. What the local arrays hold
  on entry is arbitrary: the record \<open>locals\<close>.
\<close>

section \<open>Calls\<close>

datatype call =
  Puts "u8 list" | Read_line | Chdir "u8 list" | Lsdir "u8 list" | Create "u8 list" int | Delete_file "u8 list" |
  Mkdir "u8 list" | Rmdir "u8 list" | Open "u8 list" int int | Read int int | Fork | Exec "u8 list" "u8 list" |
  Exit int | Waitpid int

type_synonym 'w os = "call \<Rightarrow> 'w \<Rightarrow> (int \<times> u8 list) \<times> 'w"

record locals =
  l_real :: "u8 list"
  l_temp :: "u8 list"
  l_buf :: "u8 list"
  l_stdout :: "u8 list"
  l_cmd :: "u8 list"
  l_type :: "u8 list"

definition does :: "'w os \<Rightarrow> call \<Rightarrow> 'w \<Rightarrow> 'w" where
  "does os c w = snd (os c w)"

definition lit :: "string \<Rightarrow> u8 list" where
  "lit s = map of_char s @ [0]"

text \<open>\<open>b[n] = x\<close>, and \<open>strcpy(b + n, s)\<close>; \<open>stored bs b\<close> after a call that stored \<open>bs\<close> in \<open>b\<close>.\<close>

definition put_char :: "nat \<Rightarrow> u8 \<Rightarrow> u8 list \<Rightarrow> u8 list exec" where
  "put_char n x b = guardE OutOfRange (n < length b) (Inr (b[n := x]))"

definition strcpy_at :: "nat \<Rightarrow> u8 list \<Rightarrow> u8 list \<Rightarrow> u8 list exec" where
  "strcpy_at n s b = guardE OutOfRange (n \<le> length b) (bindE (strcpy (drop n b) s) (\<lambda>t. Inr (take n b @ t)))"

definition store_bytes :: "u8 list \<Rightarrow> u8 list \<Rightarrow> u8 list exec" where
  "store_bytes bs b = guardE OutOfRange (length bs \<le> length b) (Inr (bs @ drop (length bs) b))"

section \<open>Paths\<close>

text \<open>\<open>while (i != 0 && real_dir[i] != '/') i--\<close>.\<close>

fun back_slash :: "u8 list \<Rightarrow> nat \<Rightarrow> nat" where
  "back_slash b 0 = 0"
| "back_slash b (Suc i) = (if b ! Suc i \<noteq> 47 then back_slash b i else Suc i)"

text \<open>The two cases of a finished component: \<open>..\<close>, and a name (or nothing).\<close>

definition parent_dir :: "nat \<Rightarrow> u8 list \<Rightarrow> (nat \<times> u8 list) exec" where
  "parent_dir i real =
     guardE OutOfRange (i < length real)
       (let i = back_slash real i in
        bindE (put_char i 0 real) (\<lambda>real.
          if i = 0 then bindE (put_char 0 47 real) (\<lambda>real. bindE (put_char 1 0 real) (\<lambda>real. Inr (i, real)))
          else Inr (i, real)))"

definition sub_dir :: "nat \<Rightarrow> nat \<Rightarrow> u8 list \<Rightarrow> u8 list \<Rightarrow> (nat \<times> u8 list) exec" where
  "sub_dir i k temp real =
     bindE (if i \<noteq> 1 then bindE (put_char i 47 real) (\<lambda>real. Inr (i + 1, real)) else Inr (i, real)) (\<lambda>(i, real).
     bindE (strcpy_at i temp real) (\<lambda>real. Inr (i + k, real)))"

definition component :: "nat \<Rightarrow> nat \<Rightarrow> u8 list \<Rightarrow> u8 list \<Rightarrow> (nat \<times> u8 list) exec" where
  "component i k temp real =
     bindE (strcmp temp (lit ''..'')) (\<lambda>r.
       if r = 0 then parent_dir i real
       else bindE (strcmp temp (lit ''.'')) (\<lambda>r. if r \<noteq> 0 then sub_dir i k temp real else Inr (i, real)))"

text \<open>The loop; the first argument is what \<open>dir_name + j\<close> points to, and \<open>k\<close> its value at the loop head.\<close>

fun path_loop :: "u8 list \<Rightarrow> nat \<Rightarrow> nat \<Rightarrow> u8 list \<Rightarrow> u8 list \<Rightarrow> u8 list exec" where
  "path_loop [] i k temp real = Inl OutOfRange"
| "path_loop (x # p) i k temp real =
     (if x = 47 \<or> x = 0 then
        bindE (put_char k 0 temp) (\<lambda>temp.
        bindE (component i k temp real) (\<lambda>(i, real).
          if x = 0 then Inr real
          else if p = [] then Inl OutOfRange
          else if hd p = 0 then Inr real
          else path_loop p i 0 temp real))
      else bindE (put_char k x temp) (\<lambda>temp. path_loop p i (k + 1) temp real))"

text \<open>\<open>dir_name\<close> may be \<open>NULL\<close>; a pointer to no bytes is none.\<close>

definition convert_to_full_path :: "u8 list \<Rightarrow> u8 list option \<Rightarrow> u8 list \<Rightarrow> u8 list \<Rightarrow> u8 list exec" where
  "convert_to_full_path current_dir dir temp real =
     (case dir of
        None \<Rightarrow> strcpy_at 0 current_dir real
      | Some d \<Rightarrow> guardE OutOfRange (d \<noteq> [])
          (bindE (if hd d \<noteq> 47 then bindE (strcpy_at 0 current_dir real) (\<lambda>real. Inr (d, real))
                  else bindE (put_char 0 47 real) (\<lambda>real. bindE (put_char 1 0 real) (\<lambda>real. Inr (tl d, real))))
             (\<lambda>(d, real). bindE (strlen real) (\<lambda>i. path_loop d i 0 temp real))))"

section \<open>Commands\<close>

text \<open>\<open>parse\<close>: the first word into \<open>cmd_type\<close>, and where the rest begins.\<close>

fun parse_loop :: "u8 list \<Rightarrow> nat \<Rightarrow> u8 list \<Rightarrow> (int \<times> u8 list) exec" where
  "parse_loop [] i ty = Inl OutOfRange"
| "parse_loop (c # cmd) i ty =
     (if c = 0 then bindE (put_char i 0 ty) (\<lambda>ty. Inr (- 1, ty))
      else if c = 32 then bindE (put_char i 0 ty) (\<lambda>ty. Inr (int i + 1, ty))
      else bindE (put_char i c ty) (parse_loop cmd (i + 1)))"

definition parse :: "u8 list \<Rightarrow> u8 list \<Rightarrow> (int \<times> u8 list) exec" where
  "parse cmd ty = parse_loop cmd 0 ty"

definition put_to_shell_tty :: "'w os \<Rightarrow> locals \<Rightarrow> u8 list \<Rightarrow> u8 list option \<Rightarrow> 'w \<Rightarrow> 'w exec" where
  "put_to_shell_tty os l current_dir out w =
     (let w = (case out of None \<Rightarrow> w | Some b \<Rightarrow> does os (Puts b) w) in
      bindE (if out \<noteq> None then bindE (put_char 0 10 (l_stdout l)) (\<lambda>b. Inr (1, b)) else Inr (0, l_stdout l)) (\<lambda>(i, b).
      bindE (strcpy_at i current_dir b) (\<lambda>b.
      bindE (strlen current_dir) (\<lambda>n.
      bindE (put_char (n + i) 36 b) (\<lambda>b.
      bindE (put_char (n + i + 1) 32 b) (\<lambda>b.
      bindE (put_char (n + i + 2) 0 b) (\<lambda>b. Inr (does os (Puts b) w))))))))"

definition full_path :: "locals \<Rightarrow> u8 list \<Rightarrow> u8 list option \<Rightarrow> u8 list exec" where
  "full_path l current_dir dir = convert_to_full_path current_dir dir (l_temp l) (l_real l)"

definition cd :: "'w os \<Rightarrow> locals \<Rightarrow> u8 list \<Rightarrow> u8 list option \<Rightarrow> 'w \<Rightarrow> (u8 list \<times> 'w) exec" where
  "cd os l current_dir dir w =
     bindE (full_path l current_dir dir) (\<lambda>real.
       let ((r, _), w) = os (Chdir real) w in
       if r = 0 then bindE (strcpy_at 0 real current_dir) (\<lambda>current_dir.
         bindE (put_to_shell_tty os l current_dir None w) (\<lambda>w. Inr (current_dir, w)))
       else bindE (put_to_shell_tty os l current_dir (Some (lit ''no such dir'')) w) (\<lambda>w. Inr (current_dir, w)))"

definition ls :: "'w os \<Rightarrow> locals \<Rightarrow> u8 list \<Rightarrow> u8 list option \<Rightarrow> 'w \<Rightarrow> 'w exec" where
  "ls os l current_dir dir w =
     bindE (full_path l current_dir dir) (\<lambda>real.
       let ((r, bs), w) = os (Lsdir real) w in
       if r = 0 then put_to_shell_tty os l current_dir (Some bs) w
       else put_to_shell_tty os l current_dir (Some (lit ''no such dir'')) w)"

text \<open>\<open>mkfile\<close>, \<open>rmfile\<close>, \<open>_mkdir\<close>, \<open>_rmdir\<close>: a call on the full path and its message.\<close>

definition on_path :: "(u8 list \<Rightarrow> call) \<Rightarrow> string \<Rightarrow> 'w os \<Rightarrow> locals \<Rightarrow> u8 list \<Rightarrow> u8 list option \<Rightarrow> 'w \<Rightarrow> 'w exec" where
  "on_path c msg os l current_dir name w =
     bindE (full_path l current_dir name) (\<lambda>real.
       let ((r, _), w) = os (c real) w in
       put_to_shell_tty os l current_dir (if r = 0 then None else Some (lit msg)) w)"

definition mkfile :: "'w os \<Rightarrow> locals \<Rightarrow> u8 list \<Rightarrow> u8 list option \<Rightarrow> 'w \<Rightarrow> 'w exec" where
  "mkfile = on_path (\<lambda>p. Create p 0) ''can't create file''"

definition rmfile :: "'w os \<Rightarrow> locals \<Rightarrow> u8 list \<Rightarrow> u8 list option \<Rightarrow> 'w \<Rightarrow> 'w exec" where
  "rmfile = on_path Delete_file ''can't delete file''"

definition sh_mkdir :: "'w os \<Rightarrow> locals \<Rightarrow> u8 list \<Rightarrow> u8 list option \<Rightarrow> 'w \<Rightarrow> 'w exec" where
  "sh_mkdir = on_path Mkdir ''can't create dir''"

definition sh_rmdir :: "'w os \<Rightarrow> locals \<Rightarrow> u8 list \<Rightarrow> u8 list option \<Rightarrow> 'w \<Rightarrow> 'w exec" where
  "sh_rmdir = on_path Rmdir ''can't delete dir''"

definition echo :: "'w os \<Rightarrow> locals \<Rightarrow> u8 list \<Rightarrow> u8 list option \<Rightarrow> 'w \<Rightarrow> 'w exec" where
  "echo os l current_dir s w = put_to_shell_tty os l current_dir s w"

partial_function (option) cat_loop :: "'w os \<Rightarrow> int \<Rightarrow> u8 list \<Rightarrow> 'w \<Rightarrow> 'w exec option" where
  "cat_loop os fd b w =
     (let ((n, bs), w) = os (Read fd 256) w in
      case store_bytes bs b of
        Inl e \<Rightarrow> Some (Inl e)
      | Inr b \<Rightarrow> if n \<noteq> 0 then cat_loop os fd b (does os (Puts b) w) else Some (Inr w))"

definition cat :: "'w os \<Rightarrow> locals \<Rightarrow> u8 list \<Rightarrow> u8 list option \<Rightarrow> 'w \<Rightarrow> 'w exec" where
  "cat os l current_dir name w =
     bindE (full_path l current_dir name) (\<lambda>real.
       let ((fd, _), w) = os (Open real 1 0) w in
       bindE (case cat_loop os fd (l_buf l) w of None \<Rightarrow> Inl Loops | Some r \<Rightarrow> r) (\<lambda>w.
         put_to_shell_tty os l current_dir None (does os (Puts [10, 0]) w)))"

text \<open>The flag: this process goes on. An \<open>exec\<close> that succeeds does not return to the shell's code.\<close>

definition sh_exec :: "'w os \<Rightarrow> locals \<Rightarrow> u8 list \<Rightarrow> u8 list \<Rightarrow> u8 list \<Rightarrow> 'w \<Rightarrow> (bool \<times> 'w) exec" where
  "sh_exec os l current_dir filename args w =
     bindE (full_path l current_dir (Some filename)) (\<lambda>real.
       let ((pid, _), w) = os Fork w;
           prompt = (\<lambda>w. bindE (put_to_shell_tty os l current_dir None w) (\<lambda>w. Inr (True, w))) in
       if pid = 0 then
         let ((r, _), w) = os (Exec real args) w in
         if r = - 1 then Inr (False, does os (Exit 0) (does os (Puts (map of_char ''no such elf file!'' @ [10, 0])) w)) else prompt w
       else prompt (does os (Waitpid pid) w))"

text \<open>A round of the loop of \<open>main\<close>, and what is done before it.\<close>

definition shell_round :: "'w os \<Rightarrow> locals \<Rightarrow> u8 list \<times> 'w \<Rightarrow> (bool \<times> u8 list \<times> 'w) exec" where
  "shell_round os l s =
     (let (current_dir, w) = s; ((_, bs), w) = os Read_line w in
      bindE (store_bytes bs (l_cmd l)) (\<lambda>cmd.
      bindE (parse cmd (l_type l)) (\<lambda>(pos, ty).
        let args = (if pos \<noteq> - 1 then Some (drop (nat pos) cmd) else None);
            keep = (\<lambda>r. bindE r (\<lambda>w. Inr (True, current_dir, w))) in
        if strcmp ty (lit ''cd'') = Inr 0 then bindE (cd os l current_dir args w) (\<lambda>s. Inr (True, s))
        else if strcmp ty (lit ''ls'') = Inr 0 then keep (ls os l current_dir args w)
        else if strcmp ty (lit ''mkfile'') = Inr 0 then keep (mkfile os l current_dir args w)
        else if strcmp ty (lit ''rmfile'') = Inr 0 then keep (rmfile os l current_dir args w)
        else if strcmp ty (lit ''mkdir'') = Inr 0 then keep (sh_mkdir os l current_dir args w)
        else if strcmp ty (lit ''rmdir'') = Inr 0 then keep (sh_rmdir os l current_dir args w)
        else if strcmp ty (lit ''echo'') = Inr 0 then keep (echo os l current_dir args w)
        else if strcmp ty (lit ''cat'') = Inr 0 then keep (cat os l current_dir args w)
        else bindE (sh_exec os l current_dir ty cmd w) (\<lambda>(go, w). Inr (go, current_dir, w)))))"

definition shell_start :: "'w os \<Rightarrow> u8 list \<times> 'w \<Rightarrow> (u8 list \<times> 'w) exec" where
  "shell_start os s =
     bindE (put_char 0 47 (fst s)) (\<lambda>d. bindE (put_char 1 0 d) (\<lambda>d. Inr (d, does os (Puts (lit ''/$ '')) (snd s))))"

section \<open>What a path means\<close>

text \<open>A directory is the list of its names from the root; \<open>..\<close> leaves it, \<open>.\<close> stays.\<close>

definition step_dir :: "u8 list \<Rightarrow> u8 list list \<Rightarrow> u8 list list" where
  "step_dir c cs = (if c = [46, 46] then butlast cs else if c = [46] then cs else cs @ [c])"

definition render :: "u8 list list \<Rightarrow> u8 list" where
  "render cs = (if cs = [] then [47] else concat (map (\<lambda>c. 47 # c) cs))"

definition is_name :: "u8 list \<Rightarrow> bool" where
  "is_name c \<longleftrightarrow> c \<noteq> [] \<and> 0 \<notin> set c \<and> 47 \<notin> set c"

fun join :: "u8 list list \<Rightarrow> u8 list" where
  "join [] = []"
| "join [c] = c"
| "join (c # cs) = c @ 47 # join cs"

text \<open>The buffer holds the directory, and \<open>i\<close> is its length; the root may also have \<open>i = 0\<close>.\<close>

definition at_dir :: "nat \<Rightarrow> u8 list list \<Rightarrow> u8 list \<Rightarrow> bool" where
  "at_dir i cs real \<longleftrightarrow> length real = 256 \<and> (\<exists>rest. real = render cs @ 0 # rest) \<and>
     (i = length (render cs) \<or> cs = [] \<and> i = 0) \<and> (\<forall>c \<in> set cs. is_name c)"

lemma strlen_text: "0 \<notin> set s \<Longrightarrow> strlen (s @ 0 # rest) = Inr (length s)"
  by (induction s) auto

lemma strcpy_at_text:
  "0 \<notin> set s \<Longrightarrow> n + length s < length b \<Longrightarrow>
     strcpy_at n (s @ 0 # rest) b = Inr (take n b @ s @ 0 # drop (n + length s + 1) b)"
  by (simp add: strcpy_at_def strcpy_def strlen_text memcpy_def add.commute add.left_commute)

lemma strcmp_text:
  "0 \<notin> set s \<Longrightarrow> 0 \<notin> set t \<Longrightarrow> \<exists>r. strcmp (s @ 0 # u) (t @ 0 # v) = Inr r \<and> (r = 0 \<longleftrightarrow> s = t)"
proof (induction s arbitrary: t)
  case Nil
  then show ?case by (cases t) auto
next
  case (Cons a s)
  show ?case
  proof (cases t)
    case (Cons b t')
    have ab: "a = b" if "\<not> sint a > sint b" "\<not> sint a < sint b"
      using that signed_word_eqI [where ?'a = int and v = a and w = b] by simp
    show ?thesis using Cons.IH [of t'] Cons.prems ab \<open>t = b # t'\<close> by auto
  qed (use Cons.prems in auto)
qed

text \<open>Scanning a name copies it to \<open>temp\<close>.\<close>

lemma path_loop_scan:
  assumes "0 \<notin> set c" and "47 \<notin> set c" and "k + length c \<le> length temp"
  shows "path_loop (c @ p) i k temp real = path_loop p i (k + length c) (take k temp @ c @ drop (k + length c) temp) real"
  using assms
proof (induction c arbitrary: k temp)
  case (Cons x c)
  have "take (Suc k) (temp[k := x]) = take k temp @ [x]" using Cons.prems by (simp add: take_Suc_conv_app_nth)
  then show ?case using Cons by (auto simp: put_char_def)
qed simp

lemma back_slash_found:
  assumes "j \<le> i" and "b ! j = 47" and "j \<noteq> 0" and "\<forall>n. j < n \<and> n \<le> i \<longrightarrow> b ! n \<noteq> 47"
  shows "back_slash b i = j"
  using assms by (induction i) (auto simp: le_Suc_eq)

lemma back_slash_root: "\<forall>n. 0 < n \<and> n \<le> i \<longrightarrow> b ! n \<noteq> 47 \<Longrightarrow> back_slash b i = 0"
  by (induction i) auto

lemma render_snoc: "render (cs @ [c]) = (if cs = [] then 47 # c else render cs @ 47 # c)"
  by (simp add: render_def)

lemma render_one [simp]: "render [c] = 47 # c" and render_root [simp]: "render [] = [47]"
  by (simp_all add: render_def)

lemma render_long: "cs \<noteq> [] \<Longrightarrow> \<forall>c \<in> set cs. is_name c \<Longrightarrow> 1 < length (render cs)"
  by (cases cs) (auto simp: render_def is_name_def)

lemma render_no_nul: "\<forall>c \<in> set cs. is_name c \<Longrightarrow> 0 \<notin> set (render cs)"
  by (auto simp: render_def is_name_def)

lemma at_root:
  assumes "at_dir i [] real"
  obtains rest where "real = 47 # 0 # rest" and "length rest = 254" and "i = 0 \<or> i = 1"
  using assms by (auto simp: at_dir_def render_def)

lemma parent_dir_ok:
  assumes h: "at_dir i cs real" and len: "length (render cs) < 255"
  shows "\<exists>i' real'. parent_dir i real = Inr (i', real') \<and> at_dir i' (butlast cs) real'"
proof (cases cs rule: rev_cases)
  case Nil
  with h obtain rest where r: "real = 47 # 0 # rest" "length rest = 254" "i = 0 \<or> i = 1" using at_root by blast
  then have "back_slash real i = 0" by auto
  then have "parent_dir i real = Inr (0, 47 # 0 # rest)" using r by (auto simp: parent_dir_def put_char_def Let_def)
  then show ?thesis using Nil r by (simp add: at_dir_def render_def)
next
  case (snoc bs n)
  have n: "is_name n" "\<forall>c \<in> set bs. is_name c" using h snoc by (auto simp: at_dir_def)
  obtain rest where rest: "real = render cs @ 0 # rest" and i: "i = length (render cs)" and l: "length real = 256"
    using h snoc by (auto simp: at_dir_def)
  show ?thesis
  proof (cases "bs = []")
    case True
    then have r: "real = 47 # n @ 0 # rest" "i = Suc (length n)" using rest i snoc by (simp_all add: render_snoc)
    have "real ! k \<noteq> 47" if "0 < k \<and> k \<le> i" for k
      using that n(1) unfolding r by (cases k) (auto simp: nth_append is_name_def less_Suc_eq_le in_set_conv_nth)
    then have b: "back_slash real i = 0" by (intro back_slash_root) blast
    obtain y ys where "n @ 0 # rest = y # ys" by (cases "n @ 0 # rest") auto
    then have "parent_dir i real = Inr (0, 47 # 0 # ys)" and "length ys = 254"
      using b l i len by (simp_all add: parent_dir_def put_char_def Let_def r(1))
    then show ?thesis using snoc True by (simp add: at_dir_def render_def)
  next
    case False
    let ?j = "length (render bs)"
    have r: "real = render bs @ 47 # n @ 0 # rest" and ij: "i = ?j + length n + 1"
      using rest i snoc False by (simp_all add: render_snoc)
    have j: "1 < ?j" using render_long [OF False n(2)] .
    then have ne: "render bs \<noteq> []" by auto
    have "real ! k \<noteq> 47" if "?j < k \<and> k \<le> i" for k
    proof -
      from that obtain d where d: "k = ?j + Suc d" "d \<le> length n" using ij by (auto dest!: less_imp_Suc_add)
      then show ?thesis using n(1) unfolding r
        by (cases "d = length n") (auto simp: nth_append is_name_def in_set_conv_nth)
    qed
    moreover have "real ! ?j = 47" by (simp add: r)
    ultimately have b: "back_slash real i = ?j" using j ij by (intro back_slash_found) auto
    then have "parent_dir i real = Inr (?j, render bs @ 0 # n @ 0 # rest)"
      using j l i len ne by (simp add: parent_dir_def put_char_def Let_def) (simp add: r)
    then show ?thesis using snoc n l by (simp add: at_dir_def r)
  qed
qed

lemma sub_dir_ok:
  assumes h: "at_dir i cs real" and c: "is_name c" and len: "length (render cs) + length c + 1 < 256"
  shows "\<exists>i' real'. sub_dir i (length c) (c @ 0 # t) real = Inr (i', real') \<and> at_dir i' (cs @ [c]) real'"
proof -
  have l: "length real = 256" and n: "\<forall>c \<in> set cs. is_name c" using h by (auto simp: at_dir_def)
  have c0: "0 \<notin> set c" using c by (simp add: is_name_def)
  show ?thesis
  proof (cases "cs = []")
    case True
    with h obtain rest where r: "real = 47 # 0 # rest" "length rest = 254" "i = 0 \<or> i = 1" using at_root by blast
    have "sub_dir i (length c) (c @ 0 # t) real = Inr (1 + length c, 47 # c @ 0 # drop (length c + 2) real)"
      using r len c0 True by (auto simp: sub_dir_def put_char_def strcpy_at_text render_def)
    then show ?thesis using True r len c by (simp add: at_dir_def render_def)
  next
    case False
    then obtain rest where r: "real = render cs @ 0 # rest" and i: "i = length (render cs)" using h by (auto simp: at_dir_def)
    have "i \<noteq> 1" using render_long [OF False n] i by simp
    then have "sub_dir i (length c) (c @ 0 # t) real =
        Inr (i + 1 + length c, render cs @ 47 # c @ 0 # drop (i + 1 + length c + 1) real)"
      using i l len c0 by (simp add: sub_dir_def put_char_def strcpy_at_text) (simp add: r)
    then show ?thesis using False i l len c n by (simp add: at_dir_def render_snoc)
  qed
qed

lemma component_ok:
  assumes h: "at_dir i cs real" and c: "is_name c" and len: "length (render cs) + length c + 1 < 256"
  shows "\<exists>i' real'. component i (length c) (c @ 0 # t) real = Inr (i', real') \<and> at_dir i' (step_dir c cs) real'"
proof -
  have c0: "0 \<notin> set c" using c by (simp add: is_name_def)
  have lits: "lit ''..'' = [46, 46] @ 0 # []" "lit ''.'' = [46] @ 0 # []" by (simp_all add: lit_def)
  obtain r1 where r1: "strcmp (c @ 0 # t) (lit ''..'') = Inr r1" "r1 = 0 \<longleftrightarrow> c = [46, 46]"
    unfolding lits using strcmp_text [OF c0, of "[46, 46]" t "[]"] by auto
  obtain r2 where r2: "strcmp (c @ 0 # t) (lit ''.'') = Inr r2" "r2 = 0 \<longleftrightarrow> c = [46]"
    unfolding lits using strcmp_text [OF c0, of "[46]" t "[]"] by auto
  consider "c = [46, 46]" | "c = [46]" | "c \<noteq> [46, 46]" "c \<noteq> [46]" by blast
  then show ?thesis
  proof cases
    case 1
    then show ?thesis using r1 parent_dir_ok [OF h] len by (auto simp: component_def step_dir_def)
  next
    case 2
    then show ?thesis using r1 r2 h by (auto simp: component_def step_dir_def)
  next
    case 3
    then show ?thesis using r1 r2 sub_dir_ok [OF h c len, of t] by (auto simp: component_def step_dir_def)
  qed
qed

section \<open>Whole paths\<close>

text \<open>What the directories on the way need in the buffer.\<close>

lemma step_dir_length:
  assumes "is_name c"
  shows "length (render (step_dir c cs)) \<le> length (render cs) + length c + 1"
proof -
  have "length (render (butlast cs)) \<le> length (render cs)"
    by (cases cs rule: rev_cases) (auto simp: render_snoc)
  then show ?thesis by (auto simp: step_dir_def render_snoc)
qed

lemma join_Cons: "cs \<noteq> [] \<Longrightarrow> join (c # cs) = c @ 47 # join cs"
  by (cases cs) auto

text \<open>The loop from the beginning of a component; one slash may follow the last.\<close>

lemma path_loop_ok:
  assumes "at_dir i cs real" and "ns \<noteq> []" and "\<forall>n \<in> set ns. is_name n" and "length temp = 256"
    and "length (render cs) + length (join ns) + 1 < 256" and "slash = [] \<or> slash = [47]"
  shows "\<exists>i' real'. path_loop (join ns @ slash @ 0 # rest) i 0 temp real = Inr real' \<and>
    at_dir i' (fold step_dir ns cs) real'"
  using assms
proof (induction ns arbitrary: i cs real temp)
  case (Cons n ns)
  have n: "0 \<notin> set n" "47 \<notin> set n" "is_name n" using Cons.prems(3) by (auto simp: is_name_def)
  have ln: "length n \<le> length (join (n # ns))" by (cases ns) auto
  let ?t = "n @ 0 # drop (length n + 1) temp"
  have scan: "path_loop (n @ p) i 0 temp real = path_loop p i (length n) (n @ drop (length n) temp) real" for p
    using path_loop_scan [of n 0 temp p i real] n ln Cons.prems(4,5) by simp
  have z: "put_char (length n) 0 (n @ drop (length n) temp) = Inr ?t"
    using ln Cons.prems(4,5) Cons_nth_drop_Suc [of "length n" temp, symmetric] by (simp add: put_char_def)
  have "length (render cs) + length n + 1 < 256" using ln Cons.prems(5) by linarith
  then obtain i1 real1 where c: "component i (length n) ?t real = Inr (i1, real1)" "at_dir i1 (step_dir n cs) real1"
    using component_ok [OF Cons.prems(1) n(3)] by blast
  show ?case
  proof (cases "ns = []")
    case True
    then show ?thesis using scan z c Cons.prems(6) by auto
  next
    case False
    then have j: "length (join (n # ns)) = length n + 1 + length (join ns)" by (simp add: join_Cons)
    have "length (render (step_dir n cs)) + length (join ns) + 1 < 256"
      using step_dir_length [OF n(3), of cs] Cons.prems(5) j by linarith
    then obtain i' real' where IH: "path_loop (join ns @ slash @ 0 # rest) i1 0 ?t real1 = Inr real'"
        "at_dir i' (fold step_dir ns (step_dir n cs)) real'"
      using Cons.IH [OF c(2) False, of ?t] Cons.prems ln by auto
    obtain x xs where x: "ns = x # xs" using False by (cases ns) auto
    then obtain y ys where y: "x = y # ys" "y \<noteq> 0" using Cons.prems(3) by (cases x) (auto simp: is_name_def)
    have "hd (join ns @ slash @ 0 # rest) = y" "join ns @ slash @ 0 # rest \<noteq> []"
      using x y by (cases xs; simp)+
    then show ?thesis using scan z c IH y(2) False by (auto simp: join_Cons)
  qed
qed simp

text \<open>The directory the shell is in, as its buffer holds it.\<close>

definition in_dir :: "u8 list list \<Rightarrow> u8 list \<Rightarrow> bool" where
  "in_dir cs b \<longleftrightarrow> at_dir (length (render cs)) cs b"

lemma strlen_at_dir: "in_dir cs b \<Longrightarrow> strlen b = Inr (length (render cs))"
  using strlen_text [OF render_no_nul] by (auto simp: in_dir_def at_dir_def)

lemma strcpy_at_dir:
  assumes h: "in_dir cs b" and "length d = 256"
  shows "\<exists>d'. strcpy_at 0 b d = Inr d' \<and> in_dir cs d'"
proof -
  obtain rest where b: "b = render cs @ 0 # rest" using h by (auto simp: in_dir_def at_dir_def)
  have n: "0 \<notin> set (render cs)" "length (render cs) < 256" using h render_no_nul b by (auto simp: in_dir_def at_dir_def)
  then show ?thesis using strcpy_at_text [of "render cs" 0 d rest] assms by (auto simp: b in_dir_def at_dir_def)
qed

section \<open>The prompt and \<open>cd\<close>\<close>

definition locals_ok :: "locals \<Rightarrow> bool" where
  "locals_ok l \<longleftrightarrow> length (l_real l) = 256 \<and> length (l_temp l) = 256 \<and> length (l_buf l) = 256 \<and>
     length (l_stdout l) = 256 \<and> length (l_cmd l) = 256 \<and> length (l_type l) = 256"

lemma cstr_text: "0 \<notin> set s \<Longrightarrow> cstr (s @ 0 # t) = s"
  by (induction s) auto

lemma put_text:
  assumes "length a = n"
  shows "put_char n x (a @ y # b) = Inr (a @ x # b)"
  by (simp add: put_char_def assms [symmetric])

lemma prompt_ok:
  assumes l: "locals_ok l" and h: "in_dir cs d" and len: "length (render cs) + 4 \<le> 256"
  shows "\<exists>b. put_to_shell_tty os l d out w =
      Inr (does os (Puts b) (case out of None \<Rightarrow> w | Some t \<Rightarrow> does os (Puts t) w)) \<and>
    cstr b = (if out = None then [] else [10]) @ render cs @ [36, 32]"
proof -
  define pre where "pre = (if out = None then [] else [10 :: u8])"
  obtain rest where d: "d = render cs @ 0 # rest" using h by (auto simp: in_dir_def at_dir_def)
  have n: "0 \<notin> set (render cs)" using h render_no_nul by (auto simp: in_dir_def at_dir_def)
  have sd: "strlen d = Inr (length (render cs))" by (rule strlen_at_dir [OF h])
  have lb: "length (l_stdout l) = 256" using l by (simp add: locals_ok_def)
  then obtain x xs where x: "l_stdout l = x # xs" by (cases "l_stdout l") auto
  define b1 where "b1 = pre @ drop (length pre) (l_stdout l)"
  have b1: "(if out \<noteq> None then bindE (put_char 0 10 (l_stdout l)) (\<lambda>b. Inr (1, b)) else Inr (0, l_stdout l)) = Inr (length pre, b1)"
    using x by (auto simp: pre_def b1_def put_char_def)
  have lp: "length pre \<le> 1" by (simp add: pre_def)
  then have l1: "length b1 = 256" "take (length pre) b1 = pre" using lb by (simp_all add: b1_def)
  have "length (drop (length pre + length (render cs) + 1) b1) \<ge> 2" using l1 lp len by simp
  then obtain u v r where r: "drop (length pre + length (render cs) + 1) b1 = u # v # r"
    by (metis (no_types, opaque_lifting) Suc_le_length_iff numeral_2_eq_2)
  have sc: "strcpy_at (length pre) d b1 = Inr (pre @ render cs @ 0 # u # v # r)"
    using strcpy_at_text [OF n, of "length pre" b1 rest] l1 lp len r by (simp add: d)
  let ?n = "length (render cs) + length pre"
  have p1: "put_char ?n 36 (pre @ render cs @ 0 # u # v # r) = Inr (pre @ render cs @ 36 # u # v # r)"
    using put_text [of "pre @ render cs" ?n 36 0 "u # v # r"] by simp
  have p2: "put_char (?n + 1) 32 (pre @ render cs @ 36 # u # v # r) = Inr (pre @ render cs @ 36 # 32 # v # r)"
    using put_text [of "pre @ render cs @ [36]" "?n + 1" 32 u "v # r"] by simp
  have p3: "put_char (?n + 2) 0 (pre @ render cs @ 36 # 32 # v # r) = Inr (pre @ render cs @ 36 # 32 # 0 # r)"
    using put_text [of "pre @ render cs @ [36, 32]" "?n + 2" 0 v r] by simp
  have "cstr (pre @ render cs @ 36 # 32 # 0 # r) = pre @ render cs @ [36, 32]"
    using cstr_text [of "pre @ render cs @ [36, 32]" r] n by (simp add: pre_def)
  then show ?thesis
    unfolding put_to_shell_tty_def Let_def b1 bindE_Inr prod.case sc sd p1 p2 p3 by (auto simp: pre_def)
qed

definition path_text :: "bool \<Rightarrow> u8 list list \<Rightarrow> u8 list \<Rightarrow> u8 list" where
  "path_text absolute ns slash = (if absolute then [47] else []) @ join ns @ slash"

lemma parse_cd:
  assumes "length ty = 256"
  shows "\<exists>ty'. parse (99 # 100 # 32 # p) ty = Inr (3, 99 # 100 # 0 # ty')"
proof -
  obtain a b c t where "ty = a # b # c # t" 
    using assms by (cases ty; cases "tl ty"; cases "tl (tl ty)") auto
  then show ?thesis by (simp add: parse_def put_char_def)
qed

lemma full_path_ok:
  assumes "in_dir cs current_dir" and "length temp = 256" and "length real = 256"
    and "ns \<noteq> []" and "\<forall>n \<in> set ns. is_name n" and "slash = [] \<or> slash = [47]"
    and "length (render cs) + length (join ns) + 1 < 256"
  shows "\<exists>r. convert_to_full_path current_dir (Some (path_text absolute ns slash @ 0 # rest)) temp real = Inr r \<and>
    in_dir (fold step_dir ns (if absolute then [] else cs)) r \<and>
    cstr r = render (fold step_dir ns (if absolute then [] else cs))"
proof -
  have pt: "path_text absolute ns slash @ 0 # rest = (if absolute then [47] else []) @ join ns @ slash @ 0 # rest"
    by (simp add: path_text_def)
  obtain n ms where ns: "ns = n # ms" using assms(4) by (cases ns) auto
  then obtain x xs where n: "n = x # xs" "x \<noteq> 0" "x \<noteq> 47" using assms(5) by (cases n) (auto simp: is_name_def)
  then have hd: "hd (join ns @ slash @ 0 # rest) = x" "join ns \<noteq> []" using ns by (cases ms; simp)+
  define start where "start = (if absolute then [] else cs)"
  have len: "length (render start) + length (join ns) + 1 < 256"
    using assms(7) render_long [of cs] assms(1) by (cases "cs = []") (auto simp: start_def in_dir_def at_dir_def)
  obtain d where d: "convert_to_full_path current_dir (Some (path_text absolute ns slash @ 0 # rest)) temp real =
      path_loop (join ns @ slash @ 0 # rest) (length (render start)) 0 temp d" "in_dir start d"
  proof (cases absolute)
    case True
    obtain a b t where real: "real = a # b # t" using assms(3) by (cases real; cases "tl real") auto
    then have "in_dir [] (47 # 0 # t)" using assms(3) by (simp add: in_dir_def at_dir_def)
    then show ?thesis using that [of "47 # 0 # t"] True real strlen_at_dir
      unfolding pt by (simp add: convert_to_full_path_def put_char_def start_def)
  next
    case False
    obtain d where d: "strcpy_at 0 current_dir real = Inr d" "in_dir cs d" using strcpy_at_dir [OF assms(1,3)] by blast
    then show ?thesis using that [of d] False hd n strlen_at_dir [OF d(2)]
      unfolding pt by (simp add: convert_to_full_path_def start_def)
  qed
  obtain i r where r: "path_loop (join ns @ slash @ 0 # rest) (length (render start)) 0 temp d = Inr r"
      "at_dir i (fold step_dir ns start) r"
    using path_loop_ok [OF d(2) [unfolded in_dir_def] assms(4,5,2) len assms(6)] by blast
  obtain t where t: "r = render (fold step_dir ns start) @ 0 # t" and nm: "\<forall>c \<in> set (fold step_dir ns start). is_name c"
    using r(2) by (auto simp: at_dir_def)
  have c: "cstr r = render (fold step_dir ns start)"
    using render_no_nul [OF nm] unfolding t cstr_def by (simp add: takeWhile_append)
  have "in_dir (fold step_dir ns start) r" using r(2) t nm by (auto simp: in_dir_def at_dir_def)
  then show ?thesis using d(1) r(1) c by (auto simp: start_def)
qed

section \<open>Properties\<close>

text \<open>
  C27. The shell's paths. Given any current directory and a path of names, relative or absolute, with or
  without a slash at the end, that fits the buffers, \<open>convert_to_full_path\<close> returns the absolute path of
  the directory the names lead to, \<open>..\<close> leaving a directory (the root not) and \<open>.\<close> staying, whatever the
  local arrays held.
\<close>

theorem full_path_normalises:
  assumes "in_dir cs current_dir" and "length temp = 256" and "length real = 256"
    and "ns \<noteq> []" and "\<forall>n \<in> set ns. is_name n" and "slash = [] \<or> slash = [47]"
    and "length (render cs) + length (join ns) + 1 < 256"
  shows "\<exists>r. convert_to_full_path current_dir (Some (path_text absolute ns slash @ 0 # rest)) temp real = Inr r \<and>
    in_dir (fold step_dir ns (if absolute then [] else cs)) r \<and>
    cstr r = render (fold step_dir ns (if absolute then [] else cs))"
  by (rule full_path_ok [OF assms])

lemma full_path_normalises_witness:
  "\<exists>r. convert_to_full_path (lit ''/bin'' @ replicate 251 0) (Some (lit ''../home/./me'')) (replicate 256 7) (replicate 256 9) = Inr r \<and>
     cstr r = map of_char ''/home/me''"
proof -
  have "in_dir [map of_char ''bin''] (lit ''/bin'' @ replicate 251 0)"
    by (simp add: in_dir_def at_dir_def lit_def is_name_def)
  from full_path_normalises [OF this, of "replicate 256 7" "replicate 256 9"
      "[map of_char ''..'', map of_char ''home'', map of_char ''.'', map of_char ''me'']" "[]" False "[]"]
  show ?thesis by (auto simp: is_name_def path_text_def lit_def step_dir_def render_def)
qed

text \<open>
  C35. \<open>cd\<close>: when the line read is \<open>cd\<close> with a path of names, the kernel is asked to change to the
  absolute path of the directory the names lead to, and the shell's own current directory becomes that
  directory exactly when the kernel answers 0. The shell's directory is well-formed again, and the last
  thing written is the prompt with it.
\<close>

theorem cd_follows_kernel:
  assumes "in_dir cs d" and "locals_ok l" and "ns \<noteq> []" and "\<forall>n \<in> set ns. is_name n" and "slash = [] \<or> slash = [47]"
    and "length (render cs) + length (join ns) + 1 < 256"
    and "length (render (fold step_dir ns (if absolute then [] else cs))) + 4 \<le> 256" and "length (render cs) + 4 \<le> 256"
    and "os Read_line w = ((r0, [99, 100, 32] @ path_text absolute ns slash @ [0]), w0)"
    and "length (path_text absolute ns slash) + 4 \<le> 256"
  shows "\<exists>real d' b w1. cstr real = render (fold step_dir ns (if absolute then [] else cs)) \<and>
    shell_round os l (d, w) = Inr (True, d', does os (Puts b) w1) \<and>
    in_dir (if fst (fst (os (Chdir real) w0)) = 0 then fold step_dir ns (if absolute then [] else cs) else cs) d' \<and>
    cstr b = (if fst (fst (os (Chdir real) w0)) = 0 then render (fold step_dir ns (if absolute then [] else cs))
              else 10 # render cs) @ [36, 32]"
proof -
  define ds where "ds = fold step_dir ns (if absolute then [] else cs)"
  define p where "p = path_text absolute ns slash"
  have lo: "length (l_real l) = 256" "length (l_temp l) = 256" "length (l_cmd l) = 256" "length (l_type l) = 256"
    using assms(2) by (simp_all add: locals_ok_def)
  define rest where "rest = drop (length p + 4) (l_cmd l)"
  have cmd: "store_bytes ([99, 100, 32] @ p @ [0]) (l_cmd l) = Inr (99 # 100 # 32 # p @ 0 # rest)"
    using assms(10) lo by (simp add: store_bytes_def p_def rest_def numeral_eq_Suc)
  obtain ty where ty: "parse (99 # 100 # 32 # p @ 0 # rest) (l_type l) = Inr (3, 99 # 100 # 0 # ty)"
    using parse_cd [OF lo(4)] by blast
  have cmp: "strcmp (99 # 100 # 0 # ty) (lit ''cd'') = Inr 0" by (simp add: lit_def)
  obtain real where real: "full_path l d (Some (p @ 0 # rest)) = Inr real" "in_dir ds real" "cstr real = render ds"
    using full_path_ok [OF assms(1) lo(2,1) assms(3-6), of absolute rest] by (auto simp: full_path_def p_def ds_def)
  obtain r bs w1 where os: "os (Chdir real) w0 = ((r, bs), w1)" by (metis surj_pair)
  have ld: "length d = 256" using assms(1) by (simp add: in_dir_def at_dir_def)
  have rnd: "shell_round os l (d, w) = bindE (cd os l d (Some (p @ 0 # rest)) w0) (\<lambda>s. Inr (True, s))"
    using assms(9) cmd ty cmp by (simp add: shell_round_def p_def)
  show ?thesis
  proof (cases "r = 0")
    case True
    obtain d' where d': "strcpy_at 0 real d = Inr d'" "in_dir ds d'" using strcpy_at_dir [OF real(2) ld] by blast
    obtain b where b: "put_to_shell_tty os l d' None w1 = Inr (does os (Puts b) w1)" "cstr b = render ds @ [36, 32]"
      using prompt_ok [OF assms(2) d'(2), of os None w1] assms(7) by (auto simp: ds_def)
    have "shell_round os l (d, w) = Inr (True, d', does os (Puts b) w1)"
      using rnd real(1) os True d'(1) b(1) by (simp add: cd_def)
    then show ?thesis using real(3) os True d'(2) b(2) unfolding ds_def
      by (intro exI [of _ real] exI [of _ d'] exI [of _ b] exI [of _ w1]) simp
  next
    case False
    let ?e = "lit ''no such dir''"
    obtain b where b: "put_to_shell_tty os l d (Some ?e) w1 = Inr (does os (Puts b) (does os (Puts ?e) w1))"
        "cstr b = 10 # render cs @ [36, 32]"
      using prompt_ok [OF assms(2,1,8), of os "Some ?e" w1] by auto
    have "shell_round os l (d, w) = Inr (True, d, does os (Puts b) (does os (Puts ?e) w1))"
      using rnd real(1) os False b(1) by (simp add: cd_def)
    then show ?thesis using real(3) os False assms(1) b(2) unfolding ds_def
      by (intro exI [of _ real] exI [of _ d] exI [of _ b] exI [of _ "does os (Puts ?e) w1"]) simp
  qed
qed

text \<open>A kernel that knows one directory; the world is what has been written.\<close>

definition try_os :: "u8 list \<Rightarrow> u8 list list os" where
  "try_os line c w =
     (case c of
        Read_line \<Rightarrow> ((0, line), w)
      | Puts b \<Rightarrow> ((0, []), w @ [cstr b])
      | Chdir p \<Rightarrow> ((if cstr p = map of_char ''/home'' then 0 else - 1, []), w)
      | _ \<Rightarrow> ((0, []), w))"

lemma cd_follows_kernel_witness:
  "\<exists>d w. shell_round (try_os (lit ''cd ../home'')) \<lparr>l_real = replicate 256 1, l_temp = replicate 256 2, l_buf = replicate 256 3,
       l_stdout = replicate 256 4, l_cmd = replicate 256 5, l_type = replicate 256 6\<rparr> (lit ''/bin'' @ replicate 251 0, []) = Inr (True, d, w) \<and>
     in_dir [map of_char ''home''] d \<and> last w = map of_char ''/home$ ''"
proof -
  let ?l = "\<lparr>l_real = replicate 256 1, l_temp = replicate 256 2, l_buf = replicate 256 3,
       l_stdout = replicate 256 4, l_cmd = replicate 256 5, l_type = replicate 256 6\<rparr>"
  have d: "in_dir [map of_char ''bin''] (lit ''/bin'' @ replicate 251 0)"
    by (simp add: in_dir_def at_dir_def lit_def is_name_def)
  have l: "locals_ok ?l" by (simp add: locals_ok_def)
  let ?os = "try_os (lit ''cd ../home'')"
  have ds: "fold step_dir [[46, 46], [104, 111, 109, 101]] (if False then [] else [map of_char ''bin'']) = [[104, 111, 109, 101]]"
    by (simp add: step_dir_def)
  obtain real d' b w1 where r: "cstr real = [47, 104, 111, 109, 101]"
    "shell_round ?os ?l (lit ''/bin'' @ replicate 251 0, []) = Inr (True, d', does ?os (Puts b) w1)"
    "in_dir (if fst (fst (?os (Chdir real) [])) = 0 then [[104, 111, 109, 101]] else [map of_char ''bin'']) d'"
    "cstr b = (if fst (fst (?os (Chdir real) [])) = 0 then [47, 104, 111, 109, 101] else 10 # render [map of_char ''bin'']) @ [36, 32]"
    using cd_follows_kernel [OF d l, of "[[46, 46], [104, 111, 109, 101]]" "[]" False ?os "[]" 0 "[]", unfolded ds]
    by (auto simp: is_name_def try_os_def [of _ Read_line] path_text_def) (auto simp: lit_def)
  have "fst (fst (?os (Chdir real) [])) = 0" by (simp add: try_os_def r(1))
  then show ?thesis using r by (simp add: try_os_def does_def)
qed

end
