(* ===== verification/Screen.thy ===== *)
theory Screen
  imports Tty_Line
begin

text \<open>
  What is on the screen. A console keeps two screens of cells and moves its window down them row by row; only
  when the window has reached the end are the cells moved back. The visible part is compared with a plain
  terminal: 24 rows of 80 cells and a cursor, whose rows move up at once when the last one is passed.
\<close>

section \<open>The reference terminal\<close>

type_synonym screen = "u16 list \<times> nat"

definition row_up :: "u16 list \<Rightarrow> u16 list" where
  "row_up v = drop 80 v @ replicate 80 (draw 32)"

fun show_char :: "u8 \<Rightarrow> screen \<Rightarrow> screen" where
  "show_char ch (v, k) =
     (if ch = 13 then (v, k - k mod 80)
      else if ch = 10 then (if k div 80 = 23 then (row_up v, 1840) else (v, 80 * (k div 80 + 1)))
      else if k = 1919 then (row_up (v[k := draw ch]), 1840)
      else (v[k := draw ch], k + 1))"

lemma length_row_up [simp]: "length v = 1920 \<Longrightarrow> length (row_up v) = 1920"
  by (simp add: row_up_def)

lemma row_up_nth:
  "length v = 1920 \<Longrightarrow> i < 1920 \<Longrightarrow> row_up v ! i = (if i < 1840 then v ! (i + 80) else draw 32)"
  by (auto simp: row_up_def nth_append add.commute)

section \<open>The visible part\<close>

definition base :: "nat \<Rightarrow> ttys \<Rightarrow> nat" where
  "base t s = 3840 * t + nat (scr (consoles s t))"

definition view :: "nat \<Rightarrow> ttys \<Rightarrow> u16 list" where
  "view t s = map (\<lambda>i. vbuf s (base t s + i)) [0..<1920]"

text \<open>Console \<open>t\<close> shows the screen \<open>a\<close>; writing to it changed the window, the position and its own cells only.\<close>

definition on_screen :: "nat \<Rightarrow> screen \<Rightarrow> ttys \<Rightarrow> bool" where
  "on_screen t a s \<longleftrightarrow>
     t < 4 \<and> window (consoles s t) \<and> view t s = fst a \<and> pos (consoles s t) = scr (consoles s t) + int (snd a) \<and> snd a < 1920"

definition only_screen :: "nat \<Rightarrow> ttys \<Rightarrow> ttys \<Rightarrow> bool" where
  "only_screen t s s' \<longleftrightarrow>
     (\<exists>a b v. s' = (upd_consl t (\<lambda>c. c\<lparr>scr := a, pos := b\<rparr>) s)\<lparr>vbuf := v\<rparr> \<and>
       (\<forall>k. k div 3840 \<noteq> t \<longrightarrow> v k = vbuf s k))"

lemma length_view [simp]: "length (view t s) = 1920"
  by (simp add: view_def)

lemma view_nth [simp]: "i < 1920 \<Longrightarrow> view t s ! i = vbuf s (base t s + i)"
  by (simp add: view_def)

lemma base_upd [simp]: "base t (s\<lparr>vbuf := v\<rparr>) = base t s"
  by (simp add: base_def)

lemma only_screenI:
  "s' = (upd_consl t (\<lambda>c. c\<lparr>scr := a, pos := b\<rparr>) s)\<lparr>vbuf := v\<rparr> \<Longrightarrow> (\<And>k. k div 3840 \<noteq> t \<Longrightarrow> v k = vbuf s k) \<Longrightarrow>
     only_screen t s s'"
  by (auto simp: only_screen_def)

lemma only_screen_refl: "only_screen t s s"
  by (rule only_screenI [where a = "scr (consoles s t)" and b = "pos (consoles s t)" and v = "vbuf s"])
    (simp_all add: upd_consl_def)

lemma only_screen_trans: "only_screen t s s' \<Longrightarrow> only_screen t s' s'' \<Longrightarrow> only_screen t s s''"
  unfolding only_screen_def by (auto simp: upd_consl_def) metis

section \<open>Loops over cells\<close>

lemma upto_map: "[a..a + int n - 1] = map (\<lambda>j. a + int j) [0..<n]"
proof (induction n)
  case (Suc n)
  have "[a..a + int (Suc n) - 1] = [a..a + int n - 1] @ [a + int n]" using upto_rec2 [of a "a + int n"] by simp
  with Suc show ?case by simp
qed simp

lemma vbuf_same: "f = vbuf s \<Longrightarrow> s = s\<lparr>vbuf := f\<rparr>"
  by simp

lemma set_cell_at: "t < 4 \<Longrightarrow> k < 3840 \<Longrightarrow> set_cell t (int k) x s = Inr (s\<lparr>vbuf := (vbuf s)(3840 * t + k := x)\<rparr>)"
  by (simp add: set_cell_def cell_at_def nat_add_distrib nat_mult_distrib)

lemma get_cell_at: "t < 4 \<Longrightarrow> k < 3840 \<Longrightarrow> get_cell t (int k) s = Inr (vbuf s (3840 * t + k))"
  by (simp add: get_cell_def cell_at_def nat_add_distrib nat_mult_distrib)

lemma shift_cells:
  assumes "t < 4" and "n \<le> 3760"
  shows "fold_exec (shift_cell t) (map (\<lambda>j. SCR_W + int j) [0..<n]) s =
    Inr (s\<lparr>vbuf := (\<lambda>k. if 3840 * t \<le> k \<and> k < 3840 * t + n then vbuf s (k + 80) else vbuf s k)\<rparr>)"
  using assms(2)
proof (induction n)
  case 0
  show ?case by simp (rule vbuf_same, auto simp: fun_eq_iff)
next
  case (Suc n)
  let ?v = "\<lambda>n k. if 3840 * t \<le> k \<and> k < 3840 * t + n then vbuf s (k + 80) else vbuf s k"
  have "shift_cell t (int (n + 80)) (s\<lparr>vbuf := ?v n\<rparr>) = Inr (s\<lparr>vbuf := (?v n)(3840 * t + n := vbuf s (3840 * t + n + 80))\<rparr>)"
    using Suc.prems assms(1) get_cell_at [of t "n + 80"] set_cell_at [of t n]
    by (simp add: shift_cell_def add.assoc)
  moreover have "(?v n)(3840 * t + n := vbuf s (3840 * t + n + 80)) = ?v (Suc n)"
    by (auto simp: fun_eq_iff)
  ultimately show ?case using Suc by (simp add: fold_exec_append add.commute)
qed

lemma clear_cells:
  assumes "t < 4" and "a + n \<le> 3840" and "scr (consoles s t) + 1920 = int a"
  shows "fold_exec (\<lambda>i s. set_cell t (scr (consoles s t) + WH + i) x s) (map int [0..<n]) s =
    Inr (s\<lparr>vbuf := (\<lambda>k. if 3840 * t + a \<le> k \<and> k < 3840 * t + a + n then x else vbuf s k)\<rparr>)"
  using assms(2)
proof (induction n)
  case 0
  show ?case by simp (rule vbuf_same, auto simp: fun_eq_iff)
next
  case (Suc n)
  let ?v = "\<lambda>n k. if 3840 * t + a \<le> k \<and> k < 3840 * t + a + n then x else vbuf s k"
  have "(?v n)(3840 * t + (a + n) := x) = ?v (Suc n)" by (auto simp: fun_eq_iff)
  then show ?case using Suc assms(1,3) set_cell_at [of t "a + n" x "s\<lparr>vbuf := ?v n\<rparr>"]
    by (simp add: fold_exec_append add.assoc [symmetric])
qed

section \<open>Scrolling\<close>

lemma scr_same [simp]: "scr c = a \<Longrightarrow> c\<lparr>scr := a\<rparr> = c"
  by auto

text \<open>Moving the window down, or the cells up when it is at the end, is the same for what is visible.\<close>

lemma scrup_view:
  assumes t: "t < 4" and w: "window (consoles s t)"
  shows "\<exists>v. scrup t s = Inr (upd_consl t scrolled (s\<lparr>vbuf := v\<rparr>)) \<and>
    view t (upd_consl t scrolled (s\<lparr>vbuf := v\<rparr>)) = row_up (view t s) \<and> (\<forall>k. k div 3840 \<noteq> t \<longrightarrow> v k = vbuf s k)"
proof -
  define b where "b = nat (scr (consoles s t))"
  have b1: "scr (consoles s t) = int b" using w by (simp add: window_def b_def)
  then have "int 80 dvd int b" "b \<le> 1920" using w by (simp_all add: window_def)
  then have b: "scr (consoles s t) = int b" "80 dvd b" "b \<le> 1920" using b1 of_nat_dvd_iff [of 80 b] by blast+
  have sh: "[SCR_W..VSIZE - 1] = map (\<lambda>j. SCR_W + int j) [0..<3760]" using upto_map [of 80 3760] by (simp del: upt_rec_numeral upto_rec_numeral)
  have cl: "[0..SCR_W - 1] = map int [0..<80]" using upto_map [of 0 80] by (simp del: upt_rec_numeral upto_rec_numeral)
  define s1 where "s1 = (if b = 1920 then (upd_consl t (\<lambda>c. c\<lparr>scr := scr c - SCR_W, pos := pos c - SCR_W\<rparr>) s)
      \<lparr>vbuf := (\<lambda>k. if 3840 * t \<le> k \<and> k < 3840 * t + 3760 then vbuf s (k + 80) else vbuf s k)\<rparr> else s)"
  define a where "a = (if b = 1920 then 1840 else b)"
  have a: "scr (consoles s1 t) = int a" using b by (simp add: s1_def a_def)
  have "a \<le> 1840" using b by (auto simp: a_def dvd_def)
  then have "a + 1920 + 80 \<le> 3840" by simp
  note c = clear_cells [OF t this, of s1 "draw 32", folded cl] and sc = shift_cells [OF t, of 3760 s, folded sh]
  define v where "v = (\<lambda>k. if 3840 * t + (a + 1920) \<le> k \<and> k < 3840 * t + (a + 1920) + 80 then draw 32 else vbuf s1 k)"
  have "scrup t s = Inr (upd_consl t (\<lambda>c. c\<lparr>scr := scr c + SCR_W\<rparr>) (s1\<lparr>vbuf := v\<rparr>))"
  proof (cases "b = 1920")
    case True
    then show ?thesis using c sc a b unfolding scrup_def s1_def v_def by (simp del: upt_rec_numeral upto_rec_numeral)
  next
    case False
    then show ?thesis using c a b unfolding scrup_def by (simp add: v_def s1_def del: upt_rec_numeral upto_rec_numeral)
  qed
  moreover have "upd_consl t (\<lambda>c. c\<lparr>scr := scr c + SCR_W\<rparr>) (s1\<lparr>vbuf := v\<rparr>) = upd_consl t scrolled (s\<lparr>vbuf := v\<rparr>)"
    using b by (simp add: s1_def scrolled_def upd_consl_def)
  moreover have "view t (upd_consl t scrolled (s\<lparr>vbuf := v\<rparr>)) = row_up (view t s)"
  proof (rule nth_equalityI)
    fix i assume "i < length (view t (upd_consl t scrolled (s\<lparr>vbuf := v\<rparr>)))"
    then have i: "i < 1920" by simp
    have n: "nat (scr (scrolled (consoles s t))) = a + 80" using b by (auto simp: scrolled_def a_def nat_add_distrib)
    have "v (3840 * t + (a + 80) + i) = (if i < 1840 then vbuf s (3840 * t + b + (i + 80)) else draw 32)"
    proof (cases "i < 1840")
      case True
      then have "v (3840 * t + (a + 80) + i) = vbuf s1 (3840 * t + (a + 80) + i)" by (simp add: v_def)
      also have "\<dots> = vbuf s (3840 * t + b + (i + 80))"
        using True by (cases "b = 1920") (auto simp: s1_def a_def intro!: arg_cong [of _ _ "vbuf s"])
      finally show ?thesis using True by simp
    qed (use i in \<open>simp add: v_def\<close>)
    then show "view t (upd_consl t scrolled (s\<lparr>vbuf := v\<rparr>)) ! i = row_up (view t s) ! i"
      using i b(1) n by (simp add: row_up_nth base_def)
  qed simp
  moreover have "v k = vbuf s k" if "k div 3840 \<noteq> t" for k
  proof -
    have "\<not> (3840 * t \<le> k \<and> k < 3840 * t + 3840)" using that by (metis add.commute div_nat_eqI mult.commute mult_Suc_right)
    then show ?thesis using \<open>a \<le> 1840\<close> by (auto simp: v_def s1_def)
  qed
  ultimately show ?thesis by auto
qed

section \<open>Writing\<close>

lemma only_scrolled:
  "\<forall>k. k div 3840 \<noteq> t \<longrightarrow> v k = vbuf s k \<Longrightarrow> only_screen t s (upd_consl t scrolled (s\<lparr>vbuf := v\<rparr>))"
  by (rule only_screenI [where a = "scr (scrolled (consoles s t))" and b = "pos (scrolled (consoles s t))" and v = v])
    (auto simp: upd_consl_def scrolled_def)

lemma only_pos: "only_screen t s (upd_consl t (\<lambda>c. c\<lparr>pos := f c\<rparr>) s)"
  by (rule only_screenI [where a = "scr (consoles s t)" and b = "f (consoles s t)" and v = "vbuf s"])
    (simp_all add: upd_consl_def)

lemma on_screenI:
  "t < 4 \<Longrightarrow> window (consoles s t) \<Longrightarrow> view t s = v \<Longrightarrow> pos (consoles s t) = scr (consoles s t) + int k \<Longrightarrow> k < 1920 \<Longrightarrow>
     on_screen t (v, k) s"
  by (simp add: on_screen_def)

lemma view_upd: "scr (f (consoles s t)) = scr (consoles s t) \<Longrightarrow> view t (upd_consl t f s) = view t s"
  by (simp add: view_def base_def)

lemma putc_view:
  assumes "on_screen t (v, k) s"
  shows "\<exists>s'. putc t ch s = Inr s' \<and> on_screen t (v[k := draw ch], k) s' \<and> only_screen t s s' \<and> consoles s' = consoles s"
proof -
  let ?b = "nat (scr (consoles s t))"
  let ?v = "(vbuf s)(3840 * t + (?b + k) := draw ch)"
  have a: "t < 4" "window (consoles s t)" "view t s = v" "pos (consoles s t) = scr (consoles s t) + int k" "k < 1920"
    using assms by (simp_all add: on_screen_def)
  have b: "int (?b + k) = pos (consoles s t)" "?b + k < 3840" using a by (auto simp: window_def)
  have "putc t ch s = Inr (s\<lparr>vbuf := ?v\<rparr>)" using set_cell_at [OF a(1) b(2), of "draw ch" s] unfolding b(1) by (simp add: putc_def)
  moreover have "view t (s\<lparr>vbuf := ?v\<rparr>) = v[k := draw ch]"
    using a(3,5) by (auto simp: base_def add.assoc nth_list_update intro!: nth_equalityI simp flip: a(3))
  moreover have "?v j = vbuf s j" if "j div 3840 \<noteq> t" for j
    using that b(2) div_nat_eqI [of 3840 t "3840 * t + (?b + k)"] by (auto simp: mult.commute)
  then have "only_screen t s (s\<lparr>vbuf := ?v\<rparr>)"
    by (intro only_screenI [where a = "scr (consoles s t)" and b = "pos (consoles s t)" and v = ?v])
      (simp_all add: upd_consl_def)
  ultimately show ?thesis using a by (auto simp: on_screen_def)
qed

lemma scrup_screen:
  assumes "t < 4" and "window (consoles s t)" and "view t s = v"
    and "pos (consoles s t) = scr (consoles s t) + int k" and "80 \<le> k" and "k < 2000"
  shows "\<exists>s'. scrup t s = Inr s' \<and> on_screen t (row_up v, k - 80) s' \<and> only_screen t s s'"
proof -
  obtain u where u: "scrup t s = Inr (upd_consl t scrolled (s\<lparr>vbuf := u\<rparr>))"
      "view t (upd_consl t scrolled (s\<lparr>vbuf := u\<rparr>)) = row_up (view t s)" "\<forall>k. k div 3840 \<noteq> t \<longrightarrow> u k = vbuf s k"
    using scrup_view [OF assms(1,2)] by blast
  have "on_screen t (row_up v, k - 80) (upd_consl t scrolled (s\<lparr>vbuf := u\<rparr>))"
    using assms u(2) window_scrolled [OF assms(2)] by (auto intro!: on_screenI simp: scrolled_def)
  then show ?thesis using u(1) only_scrolled [OF u(3)] by blast
qed

lemma moved:
  assumes "on_screen t (v, k) s" and "\<And>c. f c = pos c - int k + int j" and "j < 1920"
  shows "on_screen t (v, j) (upd_consl t (\<lambda>c. c\<lparr>pos := f c\<rparr>) s)"
  using assms view_upd [of "\<lambda>c. c\<lparr>pos := f c\<rparr>" s t] by (auto simp: on_screen_def window_def)

lemma cr_screen:
  assumes "on_screen t (v, k) s"
  shows "on_screen t (v, k - k mod 80) (cr t s) \<and> only_screen t s (cr t s)"
proof -
  have w: "window (consoles s t)" "pos (consoles s t) = scr (consoles s t) + int k" "k < 1920"
    using assms by (simp_all add: on_screen_def)
  obtain a where a: "scr (consoles s t) = 80 * a" "0 \<le> a" using w(1) by (auto simp: window_def dvd_def)
  have "cmod (pos (consoles s t)) SCR_W = int (k mod 80)" using w a by (simp add: zmod_int)
  then have "cr t s = upd_consl t (\<lambda>c. c\<lparr>pos := pos c - int k + int (k - k mod 80)\<rparr>) s"
    by (simp add: cr_def upd_consl_def of_nat_diff)
  then show ?thesis
    using moved [OF assms, of "\<lambda>c. pos c - int k + int (k - k mod 80)" "k - k mod 80"] only_pos w(3) by simp
qed

lemma consl_writec_screen:
  assumes "on_screen t a s"
  shows "\<exists>s'. consl_writec t ch s = Inr s' \<and> on_screen t (show_char ch a) s' \<and> only_screen t s s'"
proof -
  obtain v k where a: "a = (v, k)" by (cases a)
  note on = assms [unfolded a]
  have k: "k < 1920" using on by (simp add: on_screen_def)
  consider "ch = 13" | "ch = 10" | "ch \<noteq> 13" "ch \<noteq> 10" by blast
  then show ?thesis
  proof cases
    case 1
    then show ?thesis using cr_screen [OF on] by (auto simp: consl_writec_def a)
  next
    case 2
    let ?j = "k - k mod 80" and ?s = "upd_consl t (\<lambda>c. c\<lparr>pos := pos c + SCR_W\<rparr>) (cr t s)"
    have o: "on_screen t (v, ?j) (cr t s)" "only_screen t s (cr t s)" using cr_screen [OF on] by auto
    have j: "?j = 80 * (k div 80)" by (simp add: minus_mod_eq_mult_div)
    have p: "pos (consoles (cr t s) t) = scr (consoles (cr t s) t) + int ?j" using o(1) by (simp add: on_screen_def)
    show ?thesis
    proof (cases "k div 80 = 23")
      case True
      have "\<exists>s'. scrup t ?s = Inr s' \<and> on_screen t (row_up v, ?j + 80 - 80) s' \<and> only_screen t ?s s'"
        using o(1) p j True by (intro scrup_screen) (auto simp: on_screen_def window_def view_def base_def)
      then show ?thesis using 2 True j p only_screen_trans [OF o(2)] only_screen_trans [OF only_pos]
        by (auto simp: consl_writec_def lf_def a Let_def)
    next
      case False
      with k have "k div 80 < 23" by linarith
      then have "80 * (k div 80 + 1) < 1920" by simp
      with moved [OF o(1), of "\<lambda>c. pos c + SCR_W" "80 * (k div 80 + 1)"] j
      have "on_screen t (v, 80 * (k div 80 + 1)) ?s" by simp
      moreover have "only_screen t s ?s" using only_screen_trans [OF o(2) only_pos] .
      ultimately show ?thesis using 2 False j p \<open>k div 80 < 23\<close> by (auto simp: consl_writec_def lf_def a Let_def)
    qed
  next
    case 3
    obtain s1 where s1: "putc t ch s = Inr s1" "on_screen t (v[k := draw ch], k) s1" "only_screen t s s1"
      using putc_view [OF on] by blast
    have p: "pos (consoles s1 t) = scr (consoles s1 t) + int k" using s1(2) by (simp add: on_screen_def)
    show ?thesis
    proof (cases "k = 1919")
      case True
      obtain s2 where s2: "scrup t s1 = Inr s2" "on_screen t (row_up (v[k := draw ch]), 1839) s2" "only_screen t s1 s2"
        using scrup_screen [of t s1 "v[k := draw ch]" k] s1(2) True by (auto simp: on_screen_def)
      then show ?thesis
        using 3 True s1 p moved [OF s2(2), of "\<lambda>c. pos c + 1" 1840] only_screen_trans [OF s1(3) only_screen_trans [OF s2(3) only_pos]]
        by (auto simp: consl_writec_def next_pos_def a)
    next
      case False
      then show ?thesis
        using 3 k s1 p moved [OF s1(2), of "\<lambda>c. pos c + 1" "k + 1"] only_screen_trans [OF s1(3) only_pos]
        by (auto simp: consl_writec_def next_pos_def a)
    qed
  qed
qed

section \<open>Texts\<close>

text \<open>Writing simulates the reference, for every text: the interface of runs with characters for keys.\<close>

interpretation writer: simulation "consl_writec t" show_char "\<lambda>ch a. True" "\<lambda>a s'. on_screen t a s' \<and> only_screen t s s'"
  for t s
  by unfold_locales (use consl_writec_screen only_screen_trans in blast)

lemma admissible_all: "admissible (\<lambda>k a. True) ref ks a"
  by (induction ks arbitrary: a) simp_all

lemma write_chars_screen:
  assumes "on_screen t a s"
  shows "\<exists>s'. write_chars t cs s = Inr s' \<and> on_screen t (fold show_char cs a) s' \<and> only_screen t s s'"
  using writer.run_sim [of t a s s cs] assms only_screen_refl [of t s] admissible_all [of show_char cs a]
  by (simp add: write_chars_def)

lemma only_screen_frame:
  assumes "only_screen t s s'"
  shows "current_consl s' = current_consl s" and "\<And>u. u \<noteq> t \<Longrightarrow> consoles s' u = consoles s u"
    and "lbuf (consoles s' t) = lbuf (consoles s t)" and "ci (consoles s' t) = ci (consoles s t)"
    and "cbuf (consoles s' t) = cbuf (consoles s t)"
    and "\<And>u. u \<noteq> t \<Longrightarrow> window (consoles s u) \<Longrightarrow> view u s' = view u s"
proof -
  obtain a b v where s': "s' = (upd_consl t (\<lambda>c. c\<lparr>scr := a, pos := b\<rparr>) s)\<lparr>vbuf := v\<rparr>"
      and v: "\<And>k. k div 3840 \<noteq> t \<Longrightarrow> v k = vbuf s k"
    using assms by (auto simp: only_screen_def)
  show "current_consl s' = current_consl s" and "\<And>u. u \<noteq> t \<Longrightarrow> consoles s' u = consoles s u"
      and "lbuf (consoles s' t) = lbuf (consoles s t)" and "ci (consoles s' t) = ci (consoles s t)"
      and "cbuf (consoles s' t) = cbuf (consoles s t)"
    by (simp_all add: s' upd_consl_def)
  fix u assume u: "u \<noteq> t" and w: "window (consoles s u)"
  have "vbuf s' (base u s' + i) = vbuf s (base u s + i)" if "i < 1920" for i
  proof -
    have b: "base u s' = base u s" using u by (simp add: s' base_def)
    have "nat (scr (consoles s u)) \<le> 1920" using w by (auto simp: window_def)
    then have "(base u s + i) div 3840 = u"
      using that div_nat_eqI [of 3840 u "base u s + i"] by (simp add: base_def)
    then show ?thesis using u v b by (simp add: s')
  qed
  then show "view u s' = view u s" by (simp add: view_def)
qed

lemma sync_screen:
  assumes "on_screen t (v, k) s" and "current_consl s = t"
  shows "\<exists>s'. consl_sync t s = Inr s' \<and> consoles s' = consoles s \<and> vbuf s' = vbuf s \<and>
    (\<forall>i < 1920. vmem s' (80 + i) = v ! i) \<and> cursor s' = int (80 + k)"
proof -
  have a: "t < 4" "0 \<le> scr (consoles s t)" "scr (consoles s t) \<le> 1920" "view t s = v"
      "pos (consoles s t) = scr (consoles s t) + int k" "k < 1920"
    using assms(1) by (auto simp: on_screen_def window_def)
  have b: "nat (cell_at t (scr (consoles s t))) = base t s"
    using a(2) by (simp add: cell_at_def base_def nat_add_distrib nat_mult_distrib)
  have "v ! i = vbuf s (base t s + i)" if "i < 1920" for i using that a(4) by auto
  then show ?thesis using a assms(2) b by (auto simp: consl_sync_def Let_def cell_at_def)
qed

text \<open>
  C15. What a write shows. Whatever a console showed before and wherever its window lies in the buffer,
  after a write to the visible terminal the video memory under the banner is that of a plain terminal of
  24 rows of 80 cells that takes the characters one by one, carriage returns, line feeds and full last rows
  included, and the cursor stands where that terminal's does. The writer gets its number of characters; the
  line that is being typed, finished lines and what the other consoles show do not change.
\<close>

theorem write_shows:
  assumes "on_screen t a s" and "current_consl s = t" and "dev_id m = int t"
    and "0 \<le> req_pid m \<and> req_pid m < POOL_NUM" and "cs = map mem [0..<nat (i4 m)]"
  shows "\<exists>s'. tty_write self m mem s = Inr (Some (src m, m\<lparr>mtype := i4 m, src := self\<rparr>, []), s') \<and>
    (\<forall>i < 1920. vmem s' (80 + i) = fst (fold show_char cs a) ! i) \<and>
    cursor s' = int (80 + snd (fold show_char cs a)) \<and>
    lbuf (consoles s' t) = lbuf (consoles s t) \<and> ci (consoles s' t) = ci (consoles s t) \<and>
    cbuf (consoles s' t) = cbuf (consoles s t) \<and>
    (\<forall>u. u \<noteq> t \<longrightarrow> consoles s' u = consoles s u \<and> (window (consoles s u) \<longrightarrow> view u s' = view u s))"
proof -
  obtain s1 where s1: "write_chars t cs s = Inr s1" "on_screen t (fold show_char cs a) s1" "only_screen t s s1"
    using write_chars_screen [OF assms(1)] by blast
  obtain v k where vk: "fold show_char cs a = (v, k)" by force
  note f = only_screen_frame [OF s1(3)]
  obtain s2 where s2: "consl_sync t s1 = Inr s2" "consoles s2 = consoles s1" "vbuf s2 = vbuf s1"
      "\<forall>i < 1920. vmem s2 (80 + i) = v ! i" "cursor s2 = int (80 + k)"
    using sync_screen [OF s1(2) [unfolded vk]] f(1) assms(2) by auto
  have view: "view u s2 = view u s1" for u using s2(2,3) by (simp add: view_def base_def)
  have "t < 4" using assms(1) by (simp add: on_screen_def)
  then have "tty_write self m mem s = Inr (Some (src m, m\<lparr>mtype := i4 m, src := self\<rparr>, []), s2)"
    using s1(1) s2(1) assms(3-5) by (simp add: tty_write_def)
  then show ?thesis using s2 f view by (auto simp: vk)
qed

text \<open>
  The last console, its window at the end of the buffer and the cursor in front of the last cell: "ab" fills
  the last row, the cells are moved back, and "b" starts the new last row.
\<close>

definition try_ttys :: "ttys \<Rightarrow> ttys" where
  "try_ttys s = s\<lparr>consoles := (consoles s)(3 := (consoles s 3)\<lparr>scr := 1920, pos := 3839\<rparr>),
     vbuf := \<lambda>_. draw 46, current_consl := 3\<rparr>"

definition try_msg :: msg where
  "try_msg = \<lparr>src = 9, dest = 1, mtype = 2, i0 = 9, i1 = 3, i2 = 0, i3 = 0, i4 = 2\<rparr>"

lemma try_screen: "on_screen 3 (replicate 1920 (draw 46), 1919) (try_ttys s)"
  by (auto simp: on_screen_def window_def try_ttys_def view_def map_replicate_const)

theorem write_shows_witness:
  "\<forall>s. \<exists>s'. tty_write 1 try_msg (\<lambda>i. if i = 0 then 97 else 98) (try_ttys s) = Inr (Some (9, try_msg\<lparr>src := 1\<rparr>, []), s') \<and>
     vmem s' 80 = draw 46 \<and> vmem s' (80 + 1839) = draw 97 \<and> vmem s' (80 + 1840) = draw 98 \<and>
     vmem s' (80 + 1919) = draw 32 \<and> cursor s' = 80 + 1841"
proof
  fix s
  let ?mem = "\<lambda>i :: nat. if i = 0 then 97 else 98 :: u8"
  have cs: "[97, 98] = map ?mem [0..<nat (i4 try_msg)]" by (simp add: try_msg_def upt_rec)
  have f: "fold show_char [97, 98] (replicate 1920 (draw 46), 1919) =
      ((row_up ((replicate 1920 (draw 46))[1919 := draw 97]))[1840 := draw 98], 1841)" by simp
  have r: "row_up ((replicate 1920 (draw 46))[1919 := draw 97]) ! i =
      (if i < 1840 then if i = 1839 then draw 97 else draw 46 else draw 32)" if "i < 1920" for i
    using that by (auto simp: row_up_nth nth_list_update)
  obtain s' where s': "tty_write 1 try_msg ?mem (try_ttys s) = Inr (Some (9, try_msg\<lparr>src := 1\<rparr>, []), s')"
      "\<forall>i < 1920. vmem s' (80 + i) = (row_up ((replicate 1920 (draw 46))[1919 := draw 97]))[1840 := draw 98] ! i"
      "cursor s' = 80 + 1841"
    using write_shows [OF try_screen, of s try_msg "[97, 98]" ?mem 1] cs unfolding f
    by (auto simp: try_ttys_def try_msg_def POOL_NUM_def)
  have "vmem s' (80 + i) = (if i = 1840 then draw 98 else if i < 1840 then if i = 1839 then draw 97 else draw 46 else draw 32)"
    if "i < 1920" for i using s'(2) r [OF that] that by (simp add: nth_list_update)
  from this [of 0] this [of 1839] this [of 1840] this [of 1919] s'(1,3)
  show "\<exists>s'. tty_write 1 try_msg ?mem (try_ttys s) = Inr (Some (9, try_msg\<lparr>src := 1\<rparr>, []), s') \<and>
     vmem s' 80 = draw 46 \<and> vmem s' (80 + 1839) = draw 97 \<and> vmem s' (80 + 1840) = draw 98 \<and>
     vmem s' (80 + 1919) = draw 32 \<and> cursor s' = 80 + 1841" by auto
qed

end
