(* ===== verification/Round_Robin.thy ===== *)
theory Round_Robin
  imports Process
begin

text \<open>
  The scheduler (process/schedule.c) over many switches: every ready thread gets its turn within one round,
  and a thread that is woken comes last in it.
\<close>

section \<open>Switches\<close>

primrec switches :: "layout \<Rightarrow> nat \<Rightarrow> kernel \<Rightarrow> kernel exec" where
  "switches l 0 s = Inr s"
| "switches l (Suc n) s = bindE (switches l n s) (switch l)"

text \<open>Where in the ring the scheduler stands: \<open>- 1\<close> is the head.\<close>

definition at_ring :: "int \<Rightarrow> kernel \<Rightarrow> bool" where
  "at_ring i s \<longleftrightarrow>
     distinct (IDLE # ready s) \<and> - 1 \<le> i \<and> i < int (length (ready s)) \<and>
     pre_current s = (if i = - 1 then IDLE else ready s ! nat i)"

lemma next_in_nth:
  assumes "distinct xs" and "i < length xs"
  shows "next_in xs (xs ! i) = Some (if Suc i < length xs then xs ! Suc i else hd xs)"
proof -
  have xs: "xs = take i xs @ xs ! i # drop (Suc i) xs" using id_take_nth_drop [OF assms(2)] .
  have "xs ! i \<notin> set (take i xs)" using assms by (metis distinct_append xs disjoint_iff list.set_intros(1))
  then have "\<forall>y \<in> set (take i xs). y \<noteq> xs ! i" by blast
  then have "dropWhile (\<lambda>y. y \<noteq> xs ! i) (take i xs @ xs ! i # drop (Suc i) xs) = xs ! i # drop (Suc i) xs"
    by (subst dropWhile_append2) auto
  then have d: "dropWhile (\<lambda>y. y \<noteq> xs ! i) xs = xs ! i # drop (Suc i) xs" using xs by simp
  show ?thesis
  proof (cases "Suc i < length xs")
    case True
    then show ?thesis using d by (simp add: next_in_def flip: Cons_nth_drop_Suc)
  next
    case False
    then show ?thesis using d by (simp add: next_in_def)
  qed
qed

lemma ring_next:
  assumes "at_ring i s" and "ready s \<noteq> []"
  defines "j \<equiv> (i + 1) mod int (length (ready s))"
  shows "\<exists>s'. switch l s = Inr s' \<and> at_ring j s' \<and> ready s' = ready s \<and> current s' = ready s ! nat j"
proof -
  let ?r = "ready s" and ?n = "int (length (ready s))"
  have d: "distinct (IDLE # ?r)" and i: "- 1 \<le> i" "i < ?n" using assms(1) by (simp_all add: at_ring_def)
  have p: "pre_current s = (IDLE # ?r) ! nat (i + 1)" using assms(1) i by (cases "i = - 1") (auto simp: at_ring_def nat_add_distrib)
  have "nat (i + 1) < length (IDLE # ?r)" using i by simp
  from next_in_nth [OF d this] have nx: "next_in (IDLE # ?r) (pre_current s) =
      Some (if i + 1 < ?n then ?r ! nat (i + 1) else IDLE)" using i by (auto simp: p)
  have j: "nat j < length ?r" "0 \<le> j" "j < ?n" using assms(2) by (simp_all add: j_def nat_less_iff)
  have "(if (if i + 1 < ?n then ?r ! nat (i + 1) else IDLE) = IDLE then hd (?r @ [IDLE]) else ?r ! nat (i + 1)) = ?r ! nat j"
  proof (cases "i + 1 < ?n")
    case True
    then have "nat (i + 1) < length ?r" using i by linarith
    from nth_mem [OF this] have "?r ! nat (i + 1) \<noteq> IDLE" using d by auto
    then show ?thesis using True i by (simp add: j_def)
  next
    case False
    then have "i + 1 = ?n" using i by simp
    then have "j = 0" by (simp add: j_def)
    then show ?thesis using assms(2) False by (cases ?r) auto
  qed
  then show ?thesis using d j nx by (auto simp: switch_def schedule_def at_ring_def Let_def)
qed

lemma switches_ring:
  assumes "at_ring i s" and "ready s \<noteq> []"
  shows "\<exists>s'. switches l (Suc n) s = Inr s' \<and> at_ring ((i + 1 + int n) mod int (length (ready s))) s' \<and> ready s' = ready s \<and>
    current s' = ready s ! nat ((i + 1 + int n) mod int (length (ready s)))"
proof (induction n)
  case 0
  then show ?case using ring_next [OF assms] by simp
next
  case (Suc n)
  then obtain s1 where s1: "switches l (Suc n) s = Inr s1" "at_ring ((i + 1 + int n) mod int (length (ready s))) s1"
      "ready s1 = ready s" by blast
  have "((i + 1 + int n) mod int (length (ready s)) + 1) mod int (length (ready s)) = (i + 1 + int (Suc n)) mod int (length (ready s))"
    by (simp add: mod_simps algebra_simps)
  then show ?case using s1(1,3) ring_next [OF s1(2)] assms(2) by fastforce
qed

text \<open>
  C13. No ready thread starves. Wherever the scheduler stands in the ring, every thread that is ready runs
  after at most as many switches as there are ready threads, and all these switches succeed; in between
  the ring is not changed.
\<close>

theorem every_ready_thread_runs:
  assumes "distinct (IDLE # ready s)" and "pre_current s \<in> set (IDLE # ready s)" and "p \<in> set (ready s)"
  shows "\<exists>n s'. 0 < n \<and> n \<le> length (ready s) \<and> switches l n s = Inr s' \<and> current s' = p \<and> ready s' = ready s"
proof -
  let ?n = "int (length (ready s))"
  obtain i where i: "at_ring i s"
  proof (cases "pre_current s = IDLE")
    case True
    then show thesis using assms(1) that [of "- 1"] by (simp add: at_ring_def)
  next
    case False
    then obtain k where "k < length (ready s)" "pre_current s = ready s ! k" using assms(2) by (auto simp: in_set_conv_nth)
    then show thesis using assms(1) that [of "int k"] by (simp add: at_ring_def)
  qed
  obtain j where j: "j < length (ready s)" "p = ready s ! j" using assms(3) by (auto simp: in_set_conv_nth)
  have ne: "ready s \<noteq> []" using assms(3) by auto
  then have pos: "0 < ?n" by simp
  define m where "m = nat ((int j - (i + 1)) mod ?n)"
  have m: "int m = (int j - (i + 1)) mod ?n" "m < length (ready s)"
    using pos by (simp_all add: m_def nat_less_iff)
  have "(i + 1 + int m) mod ?n = int j" using j(1) pos by (simp add: m(1) mod_simps)
  then show ?thesis using switches_ring [OF i ne, of l m] m(2) j(2) by (auto intro!: exI [of _ "Suc m"])
qed

text \<open>Three threads, the second one running: the first one has its turn after two switches.\<close>

theorem every_ready_thread_runs_witness:
  "\<forall>l k. \<exists>n s'. 0 < n \<and> n \<le> 3 \<and> switches l n (k\<lparr>ready := [4, 7, 9], pre_current := 7\<rparr>) = Inr s' \<and> current s' = 4"
proof (intro allI)
  fix l k
  show "\<exists>n s'. 0 < n \<and> n \<le> 3 \<and> switches l n (k\<lparr>ready := [4, 7, 9], pre_current := 7\<rparr>) = Inr s' \<and> current s' = 4"
    using every_ready_thread_runs [of "k\<lparr>ready := [4, 7, 9], pre_current := 7\<rparr>" 4 l] by (auto simp: IDLE_def)
qed

end
