(* ===== verification/Startup.thy ===== *)
theory Startup
  imports Syscall Hal Ide_Cache Screen Round_Robin
begin

text \<open>
  The start of the kernel: kernel/main.c, the \<open>init_\<close> functions of the drivers and servers
  (drivers/drivers.c, timer.c, tty.c, console.c, getty.c, ide.c, ramdisk.c, hal.c, fm_syscall.c, manager.c),
  process/util.c (\<open>init_proc\<close>) and lib/serial.c. It composes the states of the components: each server's
  thread is created, its pid stored in the server's variable, its devices and interrupt routines registered.
\<close>

section \<open>State\<close>

text \<open>The functions that threads run and the interrupt routines, whose addresses the linker chooses.\<close>

datatype thread = Timer_driver | Ttyd | Getty | Ide_driver | Ram_driver | File_server | Memory_server | Pcb_server | Create_shell

datatype isr = Update_jiffy | Send_keymsg | Send_updatemsg | Ide_intr | Time_intr

record symbols =
  code_of :: "thread \<Rightarrow> u32"
  isr_of :: "isr \<Rightarrow> routine"
  tss_at :: u32
  ents :: entries

text \<open>\<open>pid_var\<close>: the variables \<open>TIMER\<close>, \<open>TTY\<close>, ..., by the thread they name. \<open>ports\<close>: the bytes written.\<close>

record machine =
  kn :: kernel
  devs :: hal
  irqt :: irqs
  clk :: timer
  terms :: ttys
  hd :: ide
  fsv :: fs
  pages :: mm
  pid_var :: "thread \<Rightarrow> int"
  gdt :: "segdesc option list"
  idt :: "gate list"
  ports :: "(u16 \<times> u8) list"
  serial :: "u8 list"

section \<open>The serial port\<close>

definition init_serial :: "(u16 \<times> u8) list" where
  "init_serial =
     [(0x3F8 + 1, 0x00), (0x3F8 + 3, 0x80), (0x3F8 + 0, 0x01), (0x3F8 + 1, 0x00), (0x3F8 + 3, 0x03), (0x3F8 + 2, 0xC7),
      (0x3F8 + 4, 0x0B)]"

definition serial_idle :: "u8 \<Rightarrow> bool" where
  "serial_idle status \<longleftrightarrow> status AND 0x20 \<noteq> 0"

text \<open>The wait of \<open>serial_printc\<close>: \<open>st k\<close> is the \<open>k\<close>-th byte read from the status port.\<close>

partial_function (option) serial_wait :: "(nat \<Rightarrow> u8) \<Rightarrow> nat \<Rightarrow> nat option" where
  "serial_wait st k = (if serial_idle (st k) then Some (Suc k) else serial_wait st (Suc k))"

definition serial_printc :: "(nat \<Rightarrow> u8) \<Rightarrow> u8 \<Rightarrow> nat \<Rightarrow> (nat \<times> (u16 \<times> u8)) option" where
  "serial_printc st ch k = (case serial_wait st k of None \<Rightarrow> None | Some k \<Rightarrow> Some (k, (0x3F8, ch)))"

section \<open>Steps of the start\<close>

definition line :: "string \<Rightarrow> u8 list" where
  "line cs = map of_char cs @ [10, 0]"

definition name_of :: "string \<Rightarrow> u8 list" where
  "name_of cs = map of_char cs @ [0]"

definition say :: "u8 list \<Rightarrow> parg list \<Rightarrow> machine \<Rightarrow> machine exec" where
  "say format args s = bindE (printk format args) (\<lambda>cs. Inr (s\<lparr>serial := serial s @ cs\<rparr>))"

text \<open>\<open>PCB *p = create_kthread(f); X = p->pid;\<close> and \<open>wakeup(p)\<close>\<close>

definition create_thread :: "layout \<Rightarrow> symbols \<Rightarrow> thread \<Rightarrow> machine \<Rightarrow> (int \<times> machine) exec" where
  "create_thread l y th s = bindE (create_kthread l (code_of y th) (kn s)) (\<lambda>(p, k). Inr (p, s\<lparr>kn := k\<rparr>))"

definition create_server :: "layout \<Rightarrow> symbols \<Rightarrow> thread \<Rightarrow> machine \<Rightarrow> (int \<times> machine) exec" where
  "create_server l y th s =
     bindE (create_thread l y th s) (\<lambda>(p, s). Inr (p, s\<lparr>pid_var := (pid_var s)(th := p)\<rparr>))"

definition wake :: "int \<Rightarrow> machine \<Rightarrow> machine" where
  "wake p s = s\<lparr>kn := wakeup p (kn s)\<rparr>"

definition register :: "string \<Rightarrow> int \<Rightarrow> int \<Rightarrow> machine \<Rightarrow> machine exec" where
  "register nm pid did s = bindE (hal_register (name_of nm) pid did (devs s)) (\<lambda>h. Inr (s\<lparr>devs := h\<rparr>))"

definition on_irq :: "symbols \<Rightarrow> int \<Rightarrow> isr \<Rightarrow> machine \<Rightarrow> machine exec" where
  "on_irq y irq f s = bindE (add_irq_handle irq (isr_of y f) (irqt s)) (\<lambda>h. Inr (s\<lparr>irqt := h\<rparr>))"

section \<open>Drivers\<close>

text \<open>\<open>rtc\<close>: the registers of the real-time clock.\<close>

definition init_timer :: "layout \<Rightarrow> symbols \<Rightarrow> (nat \<Rightarrow> u8) \<Rightarrow> machine \<Rightarrow> machine exec" where
  "init_timer l y rtc s =
     bindE init_i8253 (\<lambda>bs.
     bindE (on_irq y 0 Update_jiffy
              (s\<lparr>ports := ports s @ bs, clk := init_wait_list ((clk s)\<lparr>rt := init_rt rtc\<rparr>)\<rparr>)) (\<lambda>s.
     bindE (create_server l y Timer_driver s) (\<lambda>(p, s). register ''timer'' (pid_var s Timer_driver) 0 (wake p s))))"

definition ttynames :: "string list" where
  "ttynames = [''tty1'', ''tty2'', ''tty3'', ''tty4'']"

text \<open>\<open>init_console\<close> with the registrations between its steps.\<close>

definition init_console_dev :: "nat \<Rightarrow> machine \<Rightarrow> machine exec" where
  "init_console_dev i s =
     bindE (init_consl i (terms s)) (\<lambda>t. register (ttynames ! i) (pid_var s Ttyd) (int i) (s\<lparr>terms := t\<rparr>))"

definition init_consoles :: "symbols \<Rightarrow> machine \<Rightarrow> machine exec" where
  "init_consoles y s =
     bindE (fold_exec init_console_dev [0..<4] (s\<lparr>terms := (terms s)\<lparr>banner := replicate 80 32 @ [0]\<rparr>\<rparr>)) (\<lambda>s.
       on_irq y 0 Send_updatemsg (s\<lparr>terms := (terms s)\<lparr>current_consl := 0\<rparr>\<rparr>))"

definition init_getty_step :: "layout \<Rightarrow> symbols \<Rightarrow> nat \<Rightarrow> machine \<Rightarrow> machine exec" where
  "init_getty_step l y i s = bindE (create_thread l y Getty s) (\<lambda>(p, s). Inr (wake p s))"

definition init_getty :: "layout \<Rightarrow> symbols \<Rightarrow> machine \<Rightarrow> machine exec" where
  "init_getty l y = fold_exec (init_getty_step l y) [0..<3]"

definition init_tty :: "layout \<Rightarrow> symbols \<Rightarrow> machine \<Rightarrow> machine exec" where
  "init_tty l y s =
     bindE (on_irq y 1 Send_keymsg s) (\<lambda>s.
     bindE (create_server l y Ttyd s) (\<lambda>(p, s).
     bindE (init_consoles y (wake p s)) (init_getty l y)))"

definition init_ide :: "layout \<Rightarrow> symbols \<Rightarrow> machine \<Rightarrow> machine exec" where
  "init_ide l y s =
     bindE (on_irq y 14 Ide_intr (s\<lparr>hd := cache_init (hd s)\<rparr>)) (\<lambda>s.
     bindE (on_irq y 0 Time_intr s) (\<lambda>s.
     bindE (create_server l y Ide_driver s) (\<lambda>(p, s).
     bindE (register ''hda'' (pid_var s Ide_driver) 0 s) (\<lambda>s. Inr (wake p s)))))"

definition init_ramdisk :: "layout \<Rightarrow> symbols \<Rightarrow> machine \<Rightarrow> machine exec" where
  "init_ramdisk l y s =
     bindE (create_server l y Ram_driver s) (\<lambda>(p, s). register ''ram'' (pid_var s Ram_driver) 0 (wake p s))"

definition hal_list :: "machine \<Rightarrow> machine exec" where
  "hal_list s =
     bindE (say (line ''listing all registed devices:'') [] s)
       (fold_exec (\<lambda>d s. let e = dev_pool (devs s) d in
          say (line ''%s #%d, #%d'') [PStr (dname e), PWord (dpid e), PWord (ddev e)] s) (devices (devs s)))"

definition init_driver :: "layout \<Rightarrow> symbols \<Rightarrow> (nat \<Rightarrow> u8) \<Rightarrow> machine \<Rightarrow> machine exec" where
  "init_driver l y rtc s =
     bindE (init_timer l y rtc (s\<lparr>devs := init_hal (devs s)\<rparr>)) (\<lambda>s.
     bindE (init_tty l y s) (\<lambda>s.
     bindE (init_ide l y s) (\<lambda>s.
     bindE (init_ramdisk l y s) hal_list)))"

section \<open>Servers\<close>

definition init_file :: "layout \<Rightarrow> symbols \<Rightarrow> machine \<Rightarrow> machine exec" where
  "init_file l y s =
     bindE (create_server l y File_server (s\<lparr>fsv := init_file_table (init_vnode_array (fsv s))\<rparr>)) (\<lambda>(p, s). Inr (wake p s))"

definition init_memory :: "layout \<Rightarrow> symbols \<Rightarrow> machine \<Rightarrow> machine exec" where
  "init_memory l y s =
     bindE (create_server l y Memory_server (s\<lparr>pages := (pages s)\<lparr>bitmap_idx := 0\<rparr>\<rparr>)) (\<lambda>(p, s).
     bindE (say (line ''MEMORY%d'') [PWord (pid_var s Memory_server)] s) (\<lambda>s. Inr (wake p s)))"

definition init_pcb_manager :: "layout \<Rightarrow> symbols \<Rightarrow> machine \<Rightarrow> machine exec" where
  "init_pcb_manager l y s =
     bindE (create_server l y Pcb_server s) (\<lambda>(p, s).
     bindE (say (line ''pcb pid%d'') [PWord (pid_var s Pcb_server)] s) (\<lambda>s. Inr (wake p s)))"

definition init_manager :: "layout \<Rightarrow> symbols \<Rightarrow> machine \<Rightarrow> machine exec" where
  "init_manager l y s = bindE (init_memory l y s) (init_pcb_manager l y)"

text \<open>\<open>init_proc\<close>, from the lists (see Process) to the thread that starts the shell.\<close>

definition init_proc_all :: "layout \<Rightarrow> symbols \<Rightarrow> (nat \<Rightarrow> u8) \<Rightarrow> machine \<Rightarrow> machine exec" where
  "init_proc_all l y rtc s =
     bindE (init_driver l y rtc (s\<lparr>kn := init_proc l (kn s)\<rparr>)) (\<lambda>s.
     bindE (init_file l y s) (\<lambda>s.
     bindE (init_manager l y s) (\<lambda>s.
     bindE (create_thread l y Create_shell s) (\<lambda>(p, s). Inr (wake p s)))))"

text \<open>\<open>os_init_cont\<close> up to the loop of the idle thread.\<close>

definition os_init_cont :: "layout \<Rightarrow> symbols \<Rightarrow> (nat \<Rightarrow> u8) \<Rightarrow> machine \<Rightarrow> machine exec" where
  "os_init_cont l y rtc s =
     bindE (init_proc_all l y rtc (s\<lparr>gdt := init_segment (tss_at y), idt := init_idt (ents y),
              ports := ports s @ init_serial @ init_intr\<rparr>)) (\<lambda>s.
     bindE (say (line ''Hello, OS World!'') [] s) (\<lambda>s. Inr (s\<lparr>kn := (kn s)\<lparr>intr := True\<rparr>\<rparr>)))"

section \<open>Interrupt routines\<close>

text \<open>
  What the routines do when their interrupt comes; \<open>g\<close> is what the message on the stack (or the static
  message) holds. A message goes to the mailbox of a server, its source marks it as one of the hardware.
\<close>

definition post :: "int \<Rightarrow> msg \<Rightarrow> machine \<Rightarrow> machine exec" where
  "post d m s = bindE (send d m (kn s)) (\<lambda>k. Inr (s\<lparr>kn := k\<rparr>))"

definition send_keymsg :: "msg \<Rightarrow> machine \<Rightarrow> machine exec" where
  "send_keymsg g s = post (pid_var s Ttyd) (g\<lparr>mtype := 1, src := MSG_HARD_INTR\<rparr>) s"

definition send_updatemsg :: "msg \<Rightarrow> machine \<Rightarrow> machine exec" where
  "send_updatemsg g s =
     (if cmod (get_jiffy (clk s)) (HZ div 10) = 0
      then post (pid_var s Ttyd) (g\<lparr>src := MSG_HARD_INTR, mtype := 2\<rparr>) s else Inr s)"

definition ide_intr :: "msg \<Rightarrow> machine \<Rightarrow> machine exec" where
  "ide_intr g s = post (pid_var s Ide_driver) (g\<lparr>mtype := IDE_READY, src := MSG_HARD_INTR\<rparr>) s"

definition ide_time_intr :: "msg \<Rightarrow> machine \<Rightarrow> machine exec" where
  "ide_time_intr g s =
     (let (due, d) = time_intr (hd s); s = s\<lparr>hd := d\<rparr> in
      if due then post (pid_var s Ide_driver) (g\<lparr>mtype := IDE_WRITEBACK, src := MSG_HARD_INTR\<rparr>) s else Inr s)"

definition timer_tick :: "msg \<Rightarrow> machine \<Rightarrow> machine exec" where
  "timer_tick g s =
     (let (out, t) = update_jiffy (pid_var s Timer_driver) g (clk s) in
      fold_exec (\<lambda>(d, m). post d m) out (s\<lparr>clk := t\<rparr>))"

fun run_isr :: "msg \<Rightarrow> isr \<Rightarrow> machine \<Rightarrow> machine exec" where
  "run_isr g Update_jiffy s = timer_tick g s"
| "run_isr g Send_keymsg s = send_keymsg g s"
| "run_isr g Send_updatemsg s = send_updatemsg g s"
| "run_isr g Ide_intr s = ide_intr g s"
| "run_isr g Time_intr s = ide_time_intr g s"

text \<open>\<open>irq_handle\<close> for the device interrupt \<open>n\<close>: its routines one by one, then the next thread.\<close>

definition isrs :: "isr list" where
  "isrs = [Update_jiffy, Send_keymsg, Send_updatemsg, Ide_intr, Time_intr]"

definition device_interrupt :: "layout \<Rightarrow> symbols \<Rightarrow> msg \<Rightarrow> nat \<Rightarrow> trapframe \<Rightarrow> machine \<Rightarrow> machine exec" where
  "device_interrupt l y g n tf s =
     bindE (irq_handle (irqt s) (current (kn s)) (tf\<lparr>t_irq := 1000 + int n\<rparr>)) (\<lambda>a.
       case a of
         Routines rs \<Rightarrow>
           bindE (fold_exec (\<lambda>r s. case find (\<lambda>i. isr_of y i = r) isrs of None \<Rightarrow> Inl NullPointer | Some i \<Rightarrow> run_isr g i s) rs s)
             (\<lambda>s. bindE (switch l (kn s)) (\<lambda>k. Inr (s\<lparr>kn := k\<rparr>)))
       | Syscall tf \<Rightarrow> Inl Panic)"

section \<open>Threads in the ring\<close>

text \<open>The stacks of the PCBs are different memory, as parts of different elements of \<open>pcb_pool\<close>.\<close>

definition stacks_apart :: "layout \<Rightarrow> bool" where
  "stacks_apart l \<longleftrightarrow>
     (\<forall>p \<in> {0..<50}. \<forall>q \<in> {0..<50}. p \<noteq> q \<longrightarrow> (\<forall>i < 4096. 4096 \<le> unat (kstack l p + of_nat i - kstack l q)))"

text \<open>The address \<open>wrap\<close> finds its function at.\<close>

definition runs :: "layout \<Rightarrow> int \<Rightarrow> kernel \<Rightarrow> u32" where
  "runs l p k = load32 (kmem k) (kstack l p + 4084)"

text \<open>The threads 0, 1, ... run the functions \<open>fs\<close> and are ready in this order; the other PCBs are free.\<close>

definition threads_run :: "layout \<Rightarrow> u32 list \<Rightarrow> kernel \<Rightarrow> bool" where
  "threads_run l fs k \<longleftrightarrow>
     length fs \<le> 50 \<and> ready k = map int [0..<length fs] \<and> kernel.waiting k = [] \<and> free_pcbs k = map int [length fs..<50] \<and>
     current k = IDLE \<and> pre_current k = IDLE \<and> (\<forall>i < length fs. runs l (int i) k = fs ! i \<and> saved_intr k (int i))"

lemma lock_sel [simp]:
  "ready (lock k) = ready k" "kernel.waiting (lock k) = kernel.waiting k" "free_pcbs (lock k) = free_pcbs k"
  "current (lock k) = current k" "pre_current (lock k) = pre_current k" "kmem (lock k) = kmem k" "saved_intr (lock k) = saved_intr k"
  by (simp_all add: lock_def upd_pcb_def)

lemma unlock_sel [simp]:
  "ready (unlock k) = ready k" "kernel.waiting (unlock k) = kernel.waiting k" "free_pcbs (unlock k) = free_pcbs k"
  "current (unlock k) = current k" "pre_current (unlock k) = pre_current k" "kmem (unlock k) = kmem k" "saved_intr (unlock k) = saved_intr k"
  by (simp_all add: unlock_def upd_pcb_def Let_def)

lemma kthread_frame_other: "4096 \<le> unat (x - kstack l q) \<Longrightarrow> kthread_frame l q f argc argv m x = m x"
proof -
  assume x: "4096 \<le> unat (x - kstack l q)"
  have "\<not> unat (x - (kstack l q + off)) < 4" if "unat off \<le> 4092" for off
  proof
    assume d: "unat (x - (kstack l q + off)) < 4"
    have "x - kstack l q = (x - (kstack l q + off)) + off" by simp
    also have "unat \<dots> = unat (x - (kstack l q + off)) + unat off" using d that by (subst unat_add_lem [THEN iffD1]) simp_all
    finally show False using d that x by simp
  qed
  then show ?thesis
    by (simp add: kthread_frame_def stores_def store32_def store_bytes_def Let_def add.assoc)
qed

lemma kthread_frame_runs: "load32 (kthread_frame l p f argc argv m) (kstack l p + 4084) = f"
  by (simp add: kthread_frame_def stores_def Let_def load32_def store32_def store_bytes_def u32_bytes_def bytes_u32_roundtrip)

lemma runs_other:
  assumes "stacks_apart l" and "p \<in> {0..<50}" and "q \<in> {0..<50}" and "p \<noteq> q"
  shows "load32 (kthread_frame l q f argc argv m) (kstack l p + 4084) = load32 m (kstack l p + 4084)"
proof -
  have "kthread_frame l q f argc argv m (kstack l p + of_nat i) = m (kstack l p + of_nat i)" if "i < 4096" for i
    using assms that by (intro kthread_frame_other) (auto simp: stacks_apart_def)
  from this [of 4084] this [of 4085] this [of 4086] this [of 4087] show ?thesis
    by (simp add: load32_def add.assoc)
qed

text \<open>A thread that is created and woken is the last one of the ring.\<close>

lemma create_wakeup:
  assumes "stacks_apart l" and "threads_run l fs k" and "length fs < 50"
  shows "\<exists>k'. create_kthread l f k = Inr (int (length fs), k') \<and> threads_run l (fs @ [f]) (wakeup (int (length fs)) k')"
proof -
  let ?n = "length fs"
  have k: "ready k = map int [0..<?n]" "kernel.waiting k = []" "free_pcbs k = int ?n # map int [Suc ?n..<50]"
      "current k = IDLE" "pre_current k = IDLE" "\<forall>i < ?n. runs l (int i) k = fs ! i \<and> saved_intr k (int i)"
    using assms(2,3) by (auto simp: threads_run_def upt_conv_Cons)
  have last: "insert_before IDLE x ys = ys @ [x]" if "IDLE \<notin> set ys" for x ys using that by (induction ys) auto
  then have ins: "insert_before IDLE x (map int zs) = map int zs @ [x]" for x zs by (intro last) (auto simp: IDLE_def)
  have "load32 (kthread_frame l (int ?n) f 0 0 m) (kstack l (int i) + 4084) = load32 m (kstack l (int i) + 4084)"
    if "i < ?n" for i m using runs_other [OF assms(1), of "int i" "int ?n"] that assms(3) by simp
  then show ?thesis using k ins assms(3)
    by (auto simp: create_kthread_def create_kthread_1_def Let_def wakeup_def threads_run_def upd_pcb_def runs_def
      kthread_frame_runs nth_append less_Suc_eq)
qed

section \<open>What a step adds\<close>

definition enter_irq :: "nat \<times> routine \<Rightarrow> irqs \<Rightarrow> irqs" where
  "enter_irq x h = (let n = handle_count h in
     h\<lparr>handle_count := n + 1, handle_pool := (handle_pool h)(n := (snd x, handles h (fst x))),
       handles := (handles h)(fst x := Some n)\<rparr>)"

text \<open>Threads \<open>fs\<close>, devices \<open>ds\<close> and interrupt routines \<open>rs\<close> are in place; \<open>h\<close> is the empty table of routines.\<close>

definition up :: "layout \<Rightarrow> irqs \<Rightarrow> u32 list \<Rightarrow> (string \<times> int \<times> int) list \<Rightarrow> (nat \<times> routine) list \<Rightarrow> machine \<Rightarrow> bool" where
  "up l h fs ds rs s \<longleftrightarrow>
     threads_run l fs (kn s) \<and> hal_inv (devs s) \<and> dev_table (devs s) = map (\<lambda>(nm, x). (cstr (name_of nm), x)) ds \<and>
     irqt s = fold enter_irq rs h"

text \<open>The thread \<open>f\<close> is created, but not yet woken.\<close>

definition pending :: "layout \<Rightarrow> irqs \<Rightarrow> u32 list \<Rightarrow> (string \<times> int \<times> int) list \<Rightarrow> (nat \<times> routine) list \<Rightarrow> u32 \<Rightarrow> machine \<Rightarrow> bool" where
  "pending l h fs ds rs f s \<longleftrightarrow> up l h (fs @ [f]) ds rs (wake (int (length fs)) s)"

lemma wake_sel [simp]:
  "devs (wake p s) = devs s" "irqt (wake p s) = irqt s" "pid_var (wake p s) = pid_var s" "terms (wake p s) = terms s"
  "serial (wake p s) = serial s"
  by (simp_all add: wake_def)

lemma wake_upd [simp]:
  "wake p (s\<lparr>devs := h\<rparr>) = (wake p s)\<lparr>devs := h\<rparr>" "wake p (s\<lparr>serial := c\<rparr>) = (wake p s)\<lparr>serial := c\<rparr>"
  "wake p (s\<lparr>pid_var := v\<rparr>) = (wake p s)\<lparr>pid_var := v\<rparr>"
  by (simp_all add: wake_def)

lemma up_other [simp]:
  "up l h fs ds rs (s\<lparr>ports := a\<rparr>) = up l h fs ds rs s" "up l h fs ds rs (s\<lparr>clk := b\<rparr>) = up l h fs ds rs s"
  "up l h fs ds rs (s\<lparr>terms := c\<rparr>) = up l h fs ds rs s" "up l h fs ds rs (s\<lparr>hd := d\<rparr>) = up l h fs ds rs s"
  "up l h fs ds rs (s\<lparr>fsv := e\<rparr>) = up l h fs ds rs s" "up l h fs ds rs (s\<lparr>pages := f\<rparr>) = up l h fs ds rs s"
  "up l h fs ds rs (s\<lparr>serial := g\<rparr>) = up l h fs ds rs s" "up l h fs ds rs (s\<lparr>pid_var := v\<rparr>) = up l h fs ds rs s"
  by (simp_all add: up_def)

lemma pending_pid [simp]: "pending l h fs ds rs f (s\<lparr>pid_var := v\<rparr>) = pending l h fs ds rs f s"
  by (simp add: pending_def)

text \<open>What the steps do not touch: the terminals, and the variables of other servers.\<close>

definition same :: "machine \<Rightarrow> machine \<Rightarrow> bool" where
  "same s s' \<longleftrightarrow> terms s' = terms s \<and> pid_var s' = pid_var s"

lemma create_thread_up:
  assumes "stacks_apart l" and "up l h fs ds rs s" and "length fs < 50"
  shows "\<exists>s'. create_thread l y th s = Inr (int (length fs), s') \<and> pending l h fs ds rs (code_of y th) s' \<and> same s s'"
proof -
  obtain k where "create_kthread l (code_of y th) (kn s) = Inr (int (length fs), k)"
      "threads_run l (fs @ [code_of y th]) (wakeup (int (length fs)) k)"
    using create_wakeup [OF assms(1) _ assms(3)] assms(2) by (auto simp: up_def)
  then show ?thesis using assms(2) unfolding up_def by (simp add: create_thread_def pending_def up_def wake_def same_def)
qed

lemma create_server_up:
  assumes "stacks_apart l" and "up l h fs ds rs s" and "length fs < 50"
  shows "\<exists>s'. create_server l y th s = Inr (int (length fs), s') \<and> pending l h fs ds rs (code_of y th) s' \<and>
    terms s' = terms s \<and> pid_var s' = (pid_var s)(th := int (length fs))"
  using create_thread_up [OF assms, of y th] by (auto simp: create_server_def same_def)

lemma register_up:
  assumes "up l h fs ds rs s" and "\<forall>x \<in> set ds. cstr (name_of (fst x)) \<noteq> cstr (name_of nm)" and "length ds < 16"
  shows "\<exists>d. register nm p did s = Inr (s\<lparr>devs := d\<rparr>) \<and> up l h fs (ds @ [(nm, p, did)]) rs (s\<lparr>devs := d\<rparr>)"
proof -
  have a: "hal_inv (devs s)" "dev_table (devs s) = map (\<lambda>(nm, x). (cstr (name_of nm), x)) ds" using assms(1) by (simp_all add: up_def)
  have "length (dev_table (devs s)) = length ds" by (simp add: a(2))
  then have "length (devices (devs s)) < NR_DEV" using assms(3) by (simp add: dev_table_def NR_DEV_def)
  moreover have "map_of (dev_table (devs s)) (cstr (name_of nm)) = None"
    using assms(2) by (auto simp: a(2) map_of_eq_None_iff)
  moreover have "0 \<in> set (name_of nm)" by (simp add: name_of_def)
  ultimately obtain d where "hal_register (name_of nm) p did (devs s) = Inr d" "hal_inv d"
      "dev_table d = dev_table (devs s) @ [(cstr (name_of nm), p, did)]"
    using hal_register_ok [OF a(1)] by blast
  then show ?thesis using assms(1) a(2) by (auto simp: register_def up_def)
qed

lemma count_enter: "handle_count (fold enter_irq rs h) = handle_count h + length rs"
  by (induction rs arbitrary: h) (simp_all add: enter_irq_def Let_def)

lemma on_irq_up:
  assumes "up l h fs ds rs s" and "handle_count h = 0" and "length rs < 32" and "irq < 16"
  shows "\<exists>i. on_irq y (int irq) f s = Inr (s\<lparr>irqt := i\<rparr>) \<and> up l h fs ds (rs @ [(irq, isr_of y f)]) (s\<lparr>irqt := i\<rparr>)"
  using assms count_enter [of rs h] by (auto simp: on_irq_def add_irq_handle_def up_def enter_irq_def Let_def)

text \<open>\<open>hal_list\<close> and the messages only write to the serial port.\<close>

lemma printk_plain: "37 \<notin> set cs \<Longrightarrow> 0 \<in> set cs \<Longrightarrow> \<exists>out. printk cs args = Inr out"
  by (induction cs) (auto simp: bindE_def split: sum.splits)

lemma cstr_out_ok: "0 \<in> set cs \<Longrightarrow> \<exists>out. cstr_out cs = Inr out"
  by (induction cs) auto

lemma hal_line:
  assumes "0 \<in> set nm"
  shows "\<exists>out. printk (line ''%s #%d, #%d'') [PStr nm, PWord p, PWord d] = Inr out"
  using cstr_out_ok [OF assms] by (auto simp: line_def)

lemma hal_head: "\<exists>out. printk (line ''listing all registed devices:'') [] = Inr out"
  by (rule printk_plain) (simp_all add: line_def)

lemma hal_list_ok:
  assumes "hal_inv (devs s)"
  shows "\<exists>out. hal_list s = Inr (s\<lparr>serial := out\<rparr>)"
proof -
  have "\<exists>out. fold_exec (\<lambda>d s. let e = dev_pool (devs s) d in
      say (line ''%s #%d, #%d'') [PStr (dname e), PWord (dpid e), PWord (ddev e)] s) ds (s\<lparr>serial := c\<rparr>) = Inr (s\<lparr>serial := out\<rparr>)"
    if "\<forall>d \<in> set ds. 0 \<in> set (dname (dev_pool (devs s) d))" for ds c
    using that
  proof (induction ds arbitrary: c)
    case Nil
    show ?case by simp blast
  next
    case (Cons d ds)
    obtain out where "printk (line ''%s #%d, #%d'') [PStr (dname (dev_pool (devs s) d)), PWord (dpid (dev_pool (devs s) d)),
        PWord (ddev (dev_pool (devs s) d))] = Inr out"
      using hal_line Cons.prems by fastforce
    then show ?case using Cons by (simp add: say_def Let_def)
  qed
  moreover have "\<exists>out. say (line ''listing all registed devices:'') [] s = Inr (s\<lparr>serial := out\<rparr>)"
    using hal_head by (auto simp: say_def)
  ultimately show ?thesis using assms by (auto simp: hal_list_def hal_inv_def)
qed

section \<open>The drivers\<close>

text \<open>The tables of a machine on which the threads \<open>ths\<close> run.\<close>

definition codes :: "symbols \<Rightarrow> thread list \<Rightarrow> u32 list" where
  "codes y = map (code_of y)"

lemma codes_snoc: "codes y ths @ [code_of y th] = codes y (ths @ [th])" and length_codes [simp]: "length (codes y ths) = length ths"
  by (simp_all add: codes_def)

lemma server_up:
  assumes "stacks_apart l" and "up l h (codes y ths) ds rs s" and "length ths < 50"
  shows "\<exists>s'. create_server l y th s = Inr (int (length ths), s') \<and>
    up l h (codes y (ths @ [th])) ds rs (wake (int (length ths)) s') \<and>
    terms s' = terms s \<and> pid_var s' = (pid_var s)(th := int (length ths))"
  using create_server_up [OF assms(1,2), of y th] assms(3) by (simp add: pending_def codes_snoc)

lemma init_timer_up:
  assumes l: "stacks_apart l" and h: "handle_count h = 0" and u: "up l h (codes y []) [] [] s"
  shows "\<exists>s'. init_timer l y rtc s = Inr s' \<and>
    up l h (codes y [Timer_driver]) [(''timer'', 0, 0)] [(0, isr_of y Update_jiffy)] s' \<and>
    terms s' = terms s \<and> pid_var s' = (pid_var s)(Timer_driver := 0)"
proof -
  obtain bs where bs: "init_i8253 = Inr bs" by (simp add: init_i8253_def)
  let ?s = "s\<lparr>ports := ports s @ bs, clk := init_wait_list ((clk s)\<lparr>rt := init_rt rtc\<rparr>)\<rparr>"
  obtain i where i: "on_irq y 0 Update_jiffy ?s = Inr (?s\<lparr>irqt := i\<rparr>)" "up l h (codes y []) [] [(0, isr_of y Update_jiffy)] (?s\<lparr>irqt := i\<rparr>)"
    using on_irq_up [of l h "codes y []" "[]" "[]" ?s 0 y Update_jiffy] u h by auto
  obtain s2 where s2: "create_server l y Timer_driver (?s\<lparr>irqt := i\<rparr>) = Inr (0, s2)"
      "up l h (codes y [Timer_driver]) [] [(0, isr_of y Update_jiffy)] (wake 0 s2)"
      "terms s2 = terms s" "pid_var s2 = (pid_var s)(Timer_driver := 0)"
    using server_up [OF l i(2), of Timer_driver] by auto
  obtain d where d: "register ''timer'' 0 0 (wake 0 s2) = Inr ((wake 0 s2)\<lparr>devs := d\<rparr>)"
      "up l h (codes y [Timer_driver]) [(''timer'', 0, 0)] [(0, isr_of y Update_jiffy)] ((wake 0 s2)\<lparr>devs := d\<rparr>)"
    using register_up [OF s2(2), of "''timer''" 0 0] by auto
  then have "init_timer l y rtc s = Inr ((wake 0 s2)\<lparr>devs := d\<rparr>)"
    unfolding init_timer_def bs bindE_Inr i(1) s2(1) prod.case by (simp add: s2(4))
  then show ?thesis using d s2(3,4) by simp
qed

text \<open>The consoles show blank screens.\<close>

definition blank :: screen where
  "blank = (replicate 1920 (draw 32), 0)"

definition ttys_ok :: "nat \<Rightarrow> ttys \<Rightarrow> bool" where
  "ttys_ok n t \<longleftrightarrow> (\<forall>i < n. on_screen i blank t \<and> ci (consoles t i) = 0 \<and> cf (consoles t i) = 0 \<and> crr (consoles t i) = 0 \<and> rtop (consoles t i) = 0)"

lemma fill_cells:
  assumes "t < 4" and "n \<le> 3840"
  shows "fold_exec (\<lambda>i. set_cell t i x) (map int [0..<n]) s =
    Inr (s\<lparr>vbuf := (\<lambda>k. if 3840 * t \<le> k \<and> k < 3840 * t + n then x else vbuf s k)\<rparr>)"
  using assms(2)
proof (induction n)
  case 0
  show ?case by simp (rule vbuf_same, auto simp: fun_eq_iff)
next
  case (Suc n)
  let ?v = "\<lambda>n k. if 3840 * t \<le> k \<and> k < 3840 * t + n then x else vbuf s k"
  have "(?v n)(3840 * t + n := x) = ?v (Suc n)" by (auto simp: fun_eq_iff)
  then show ?case using Suc assms(1) set_cell_at [of t n x "s\<lparr>vbuf := ?v n\<rparr>"] by (simp add: fold_exec_append)
qed

lemma sync_any:
  assumes "on_screen t a s"
  shows "\<exists>v c. consl_sync t s = Inr (s\<lparr>vmem := v, cursor := c\<rparr>)"
proof (cases "current_consl s = t")
  case True
  then show ?thesis using assms by (auto simp: on_screen_def window_def consl_sync_def Let_def cell_at_def)
next
  case False
  then have "consl_sync t s = Inr (s\<lparr>vmem := (\<lambda>i. if i < 80 then 0x1F00 OR scast (banner s ! i) else vmem s i), cursor := cursor s\<rparr>)"
    by (simp add: consl_sync_def Let_def)
  then show ?thesis by blast
qed

lemma on_screen_sync [simp]: "on_screen i a (t\<lparr>vmem := v, cursor := c\<rparr>) = on_screen i a t"
  by (simp add: on_screen_def view_def base_def)

lemma init_consl_blank:
  assumes "n < 4" and "ttys_ok n s"
  shows "\<exists>s'. init_consl n s = Inr s' \<and> ttys_ok (Suc n) s'"
proof -
  define f where "f = (\<lambda>c :: console. c\<lparr>scr := 0, pos := 0, lbuf := (lbuf c)[0 := 0], ci := 0, cf := 0, crr := 0, rtop := 0\<rparr>)"
  define s1 where "s1 = (upd_consl n f s)\<lparr>vbuf := (\<lambda>k. if 3840 * n \<le> k \<and> k < 3840 * n + 1920 then draw 32 else vbuf s k)\<rparr>"
  have r: "[0..WH - 1] = map int [0..<1920]" using upto_map [of 0 1920] by (simp del: upt_rec_numeral upto_rec_numeral)
  have "fold_exec (\<lambda>i. set_cell n i (draw 32)) [0..WH - 1] (upd_consl n f s) = Inr s1"
    unfolding r s1_def using fill_cells [of n 1920 "draw 32" "upd_consl n f s", unfolded vbuf_upd] assms(1) by (simp del: upt_rec_numeral)
  moreover have on: "on_screen n blank s1"
    using assms(1) by (auto simp: on_screen_def window_def blank_def view_def base_def s1_def f_def intro!: nth_equalityI)
  moreover have "on_screen i blank s1" if "i < n" for i
  proof -
    have o: "on_screen i blank s" using assms(2) that by (simp add: ttys_ok_def)
    have "base i s = 3840 * i + nat (scr (consoles s i))" "nat (scr (consoles s i)) \<le> 1920" using o by (auto simp: base_def on_screen_def window_def)
    then have lt: "base i s + j < 3840 * n" if "j < 1920" for j using \<open>i < n\<close> that by linarith
    have "base i s1 = base i s" using that by (simp add: base_def s1_def)
    then have "vbuf s1 (base i s1 + j) = vbuf s (base i s + j)" if "j < 1920" for j
      using lt [OF that] by (simp add: s1_def)
    then have "view i s1 = view i s" by (simp add: view_def)
    then show ?thesis using o that by (simp add: on_screen_def s1_def)
  qed
  ultimately show ?thesis
    using sync_any [OF on] assms(2) by (auto simp: init_consl_def ttys_ok_def less_Suc_eq f_def [symmetric] s1_def upd_consl_def) (auto simp: f_def)
qed

lemma up_kn [simp]: "kn (s\<lparr>terms := t\<rparr>) = kn s"
  by simp

lemma register_sel:
  "register nm p d s = Inr s' \<Longrightarrow> terms s' = terms s \<and> pid_var s' = pid_var s"
  by (auto simp: register_def bindE_eq_Inr_iff)

text \<open>The four terminals are registered with the number of the terminal server.\<close>

definition tty_devs :: "int \<Rightarrow> nat \<Rightarrow> (string \<times> int \<times> int) list" where
  "tty_devs p n = map (\<lambda>i. (ttynames ! i, p, int i)) [0..<n]"

lemma tty_cstrs:
  "map (\<lambda>i. cstr (name_of (ttynames ! i))) [0..<4] = [[116, 116, 121, 49], [116, 116, 121, 50], [116, 116, 121, 51], [116, 116, 121, 52]]"
  "cstr (name_of ''timer'') = [116, 105, 109, 101, 114]"
  by (simp_all add: ttynames_def name_of_def upt_rec)

lemma tty_names:
  assumes "i < 4"
  shows "j < i \<Longrightarrow> cstr (name_of (ttynames ! j)) \<noteq> cstr (name_of (ttynames ! i))"
    and "cstr (name_of ''timer'') \<noteq> cstr (name_of (ttynames ! i))"
proof -
  let ?xs = "map (\<lambda>i. cstr (name_of (ttynames ! i))) [0..<4]"
  have n: "?xs ! k = cstr (name_of (ttynames ! k))" if "k < 4" for k using that by (subst nth_map) simp_all
  have "distinct ?xs" unfolding tty_cstrs by simp
  then show "j < i \<Longrightarrow> cstr (name_of (ttynames ! j)) \<noteq> cstr (name_of (ttynames ! i))"
    using nth_eq_iff_index_eq [of ?xs j i] n [of i] n [of j] assms by simp
  have "cstr (name_of ''timer'') \<notin> set ?xs" unfolding tty_cstrs by simp
  then show "cstr (name_of ''timer'') \<noteq> cstr (name_of (ttynames ! i))" using assms by auto
qed

lemma consoles_up:
  assumes "up l h fs [(''timer'', 0, 0)] rs s" and "ttys_ok 0 (terms s)" and "n \<le> 4" and "pid_var s Ttyd = p"
  shows "\<exists>s'. fold_exec init_console_dev [0..<n] s = Inr s' \<and> up l h fs ((''timer'', 0, 0) # tty_devs p n) rs s' \<and>
    ttys_ok n (terms s') \<and> pid_var s' = pid_var s"
  using assms(3)
proof (induction n)
  case 0
  then show ?case using assms by (simp add: tty_devs_def)
next
  case (Suc n)
  then obtain s1 where s1: "fold_exec init_console_dev [0..<n] s = Inr s1" "up l h fs ((''timer'', 0, 0) # tty_devs p n) rs s1"
      "ttys_ok n (terms s1)" "pid_var s1 = pid_var s" by auto
  obtain t where t: "init_consl n (terms s1) = Inr t" "ttys_ok (Suc n) t"
    using init_consl_blank [OF _ s1(3)] Suc.prems by auto
  let ?ds = "(''timer'', 0, 0) # tty_devs p n" and ?s = "s1\<lparr>terms := t\<rparr>"
  have "\<forall>x \<in> set ?ds. cstr (name_of (fst x)) \<noteq> cstr (name_of (ttynames ! n))"
    using tty_names [of n] Suc.prems by (auto simp: tty_devs_def)
  moreover have "length ?ds < 16" using Suc.prems by (simp add: tty_devs_def)
  moreover have "up l h fs ?ds rs ?s" using s1(2) by simp
  ultimately obtain d where d: "register (ttynames ! n) p (int n) ?s = Inr (?s\<lparr>devs := d\<rparr>)"
      "up l h fs (?ds @ [(ttynames ! n, p, int n)]) rs (?s\<lparr>devs := d\<rparr>)"
    using register_up [of l h fs ?ds rs ?s "ttynames ! n" p "int n"] by blast
  have "init_console_dev n s1 = Inr (?s\<lparr>devs := d\<rparr>)" using t(1) d(1) s1(4) assms(4) by (simp add: init_console_dev_def)
  moreover have "?ds @ [(ttynames ! n, p, int n)] = (''timer'', 0, 0) # tty_devs p (Suc n)" by (simp add: tty_devs_def)
  ultimately show ?case using s1(1,4) t(2) d(2) by (simp add: fold_exec_append)
qed

lemma thread_up:
  assumes "stacks_apart l" and "up l h (codes y ths) ds rs s" and "length ths < 50"
  shows "\<exists>s'. create_thread l y th s = Inr (int (length ths), s') \<and>
    up l h (codes y (ths @ [th])) ds rs (wake (int (length ths)) s') \<and> terms s' = terms s \<and> pid_var s' = pid_var s"
  using create_thread_up [OF assms(1,2), of y th] assms(3) by (simp add: pending_def codes_snoc same_def)

lemma getty_up:
  assumes "stacks_apart l" and "up l h (codes y ths) ds rs s" and "length ths + n < 50"
  shows "\<exists>s'. fold_exec (init_getty_step l y) [0..<n] s = Inr s' \<and> up l h (codes y (ths @ replicate n Getty)) ds rs s' \<and>
    terms s' = terms s \<and> pid_var s' = pid_var s"
  using assms(3)
proof (induction n)
  case 0
  then show ?case using assms by simp
next
  case (Suc n)
  then obtain s1 where s1: "fold_exec (init_getty_step l y) [0..<n] s = Inr s1" "up l h (codes y (ths @ replicate n Getty)) ds rs s1"
      "terms s1 = terms s" "pid_var s1 = pid_var s" by auto
  let ?ths = "ths @ replicate n Getty"
  obtain s2 where s2: "create_thread l y Getty s1 = Inr (int (length ?ths), s2)"
      "up l h (codes y (?ths @ [Getty])) ds rs (wake (int (length ?ths)) s2)" "terms s2 = terms s1" "pid_var s2 = pid_var s1"
    using thread_up [OF assms(1) s1(2)] Suc.prems by fastforce
  have "init_getty_step l y n s1 = Inr (wake (int (length ?ths)) s2)" using s2(1) by (simp add: init_getty_step_def)
  moreover have "ths @ replicate (Suc n) Getty = ?ths @ [Getty]" by (simp add: replicate_append_same)
  ultimately show ?case using s1 s2(2-4) by (simp add: fold_exec_append)
qed

lemma init_tty_up:
  assumes l: "stacks_apart l" and h: "handle_count h = 0"
    and u: "up l h (codes y [Timer_driver]) [(''timer'', 0, 0)] [(0, isr_of y Update_jiffy)] s"
  shows "\<exists>s'. init_tty l y s = Inr s' \<and>
    up l h (codes y [Timer_driver, Ttyd, Getty, Getty, Getty]) ((''timer'', 0, 0) # tty_devs 1 4)
      [(0, isr_of y Update_jiffy), (1, isr_of y Send_keymsg), (0, isr_of y Send_updatemsg)] s' \<and>
    ttys_ok 4 (terms s') \<and> current_consl (terms s') = 0 \<and> pid_var s' = (pid_var s)(Ttyd := 1)"
proof -
  let ?r1 = "[(0, isr_of y Update_jiffy), (1, isr_of y Send_keymsg)]"
  obtain i where i: "on_irq y 1 Send_keymsg s = Inr (s\<lparr>irqt := i\<rparr>)" "up l h (codes y [Timer_driver]) [(''timer'', 0, 0)] ?r1 (s\<lparr>irqt := i\<rparr>)"
    using on_irq_up [OF u h, of 1 y Send_keymsg] by auto
  obtain s1 where s1: "create_server l y Ttyd (s\<lparr>irqt := i\<rparr>) = Inr (1, s1)"
      "up l h (codes y [Timer_driver, Ttyd]) [(''timer'', 0, 0)] ?r1 (wake 1 s1)" "pid_var s1 = (pid_var s)(Ttyd := 1)"
    using server_up [OF l i(2), of Ttyd] by auto
  let ?s = "(wake 1 s1)\<lparr>terms := (terms (wake 1 s1))\<lparr>banner := replicate 80 32 @ [0]\<rparr>\<rparr>"
  obtain s2 where s2: "fold_exec init_console_dev [0..<4] ?s = Inr s2"
      "up l h (codes y [Timer_driver, Ttyd]) ((''timer'', 0, 0) # tty_devs 1 4) ?r1 s2" "ttys_ok 4 (terms s2)" "pid_var s2 = pid_var s1"
    using consoles_up [of l h _ ?r1 ?s 4 1] s1 by (auto simp: ttys_ok_def)
  let ?s3 = "s2\<lparr>terms := (terms s2)\<lparr>current_consl := 0\<rparr>\<rparr>"
  obtain j where j: "on_irq y 0 Send_updatemsg ?s3 = Inr (?s3\<lparr>irqt := j\<rparr>)"
      "up l h (codes y [Timer_driver, Ttyd]) ((''timer'', 0, 0) # tty_devs 1 4) (?r1 @ [(0, isr_of y Send_updatemsg)]) (?s3\<lparr>irqt := j\<rparr>)"
    using on_irq_up [of l h _ _ ?r1 ?s3 0 y Send_updatemsg] s2(2) h by fastforce
  obtain s4 where s4: "init_getty l y (?s3\<lparr>irqt := j\<rparr>) = Inr s4" "terms s4 = terms ?s3" "pid_var s4 = pid_var s1"
      "up l h (codes y ([Timer_driver, Ttyd] @ replicate 3 Getty)) ((''timer'', 0, 0) # tty_devs 1 4) (?r1 @ [(0, isr_of y Send_updatemsg)]) s4"
    using getty_up [OF l j(2), of 3] s2(4) by (auto simp: init_getty_def)
  have "init_tty l y s = Inr s4"
    unfolding init_tty_def i(1) bindE_Inr s1(1) prod.case init_consoles_def s2(1) j(1) s4(1) by simp
  moreover have "ttys_ok 4 (terms s4)" using s2(3) s4(2) by (simp add: ttys_ok_def on_screen_def view_def base_def)
  ultimately show ?thesis using s1(3) s4 by (simp add: numeral_eq_Suc)
qed

definition all_devs :: "(string \<times> int \<times> int) list" where
  "all_devs = [(''timer'', 0, 0), (''tty1'', 1, 0), (''tty2'', 1, 1), (''tty3'', 1, 2), (''tty4'', 1, 3), (''hda'', 5, 0),
     (''ram'', 6, 0)]"

definition all_routines :: "symbols \<Rightarrow> (nat \<times> routine) list" where
  "all_routines y = [(0, isr_of y Update_jiffy), (1, isr_of y Send_keymsg), (0, isr_of y Send_updatemsg),
     (14, isr_of y Ide_intr), (0, isr_of y Time_intr)]"

lemma tty_devs4: "tty_devs 1 4 = [(''tty1'', 1, 0), (''tty2'', 1, 1), (''tty3'', 1, 2), (''tty4'', 1, 3)]"
  by (simp add: tty_devs_def ttynames_def upt_rec)

lemma dev_names:
  "\<forall>x \<in> set (take 5 all_devs). cstr (name_of (fst x)) \<noteq> cstr (name_of ''hda'')"
  "\<forall>x \<in> set (take 6 all_devs). cstr (name_of (fst x)) \<noteq> cstr (name_of ''ram'')"
  by (simp_all add: all_devs_def name_of_def)

lemma init_driver_up:
  assumes l: "stacks_apart l" and h: "handle_count h = 0" and u: "up l h (codes y []) [] [] (s\<lparr>devs := init_hal (devs s)\<rparr>)"
  shows "\<exists>s'. init_driver l y rtc s = Inr s' \<and>
    up l h (codes y [Timer_driver, Ttyd, Getty, Getty, Getty, Ide_driver, Ram_driver]) all_devs (all_routines y) s' \<and>
    ttys_ok 4 (terms s') \<and> current_consl (terms s') = 0 \<and>
    pid_var s' = (pid_var s)(Timer_driver := 0, Ttyd := 1, Ide_driver := 5, Ram_driver := 6)"
proof -
  let ?t5 = "[Timer_driver, Ttyd, Getty, Getty, Getty]"
  obtain s1 where s1: "init_timer l y rtc (s\<lparr>devs := init_hal (devs s)\<rparr>) = Inr s1"
      "up l h (codes y [Timer_driver]) [(''timer'', 0, 0)] [(0, isr_of y Update_jiffy)] s1" "pid_var s1 = (pid_var s)(Timer_driver := 0)"
    using init_timer_up [OF l h u, of rtc] by auto
  obtain s2 where s2: "init_tty l y s1 = Inr s2" "up l h (codes y ?t5) (take 5 all_devs) (take 3 (all_routines y)) s2"
      "ttys_ok 4 (terms s2)" "current_consl (terms s2) = 0" "pid_var s2 = (pid_var s1)(Ttyd := 1)"
    using init_tty_up [OF l h s1(2)] by (auto simp: tty_devs4 all_devs_def all_routines_def)
  let ?s = "s2\<lparr>hd := cache_init (hd s2)\<rparr>"
  have u2: "up l h (codes y ?t5) (take 5 all_devs) (take 3 (all_routines y)) ?s" using s2(2) by simp
  obtain i where i: "on_irq y 14 Ide_intr ?s = Inr (?s\<lparr>irqt := i\<rparr>)" "up l h (codes y ?t5) (take 5 all_devs) (take 4 (all_routines y)) (?s\<lparr>irqt := i\<rparr>)"
    using on_irq_up [OF u2 h, of 14 y Ide_intr] by (auto simp: all_routines_def)
  obtain j where j: "on_irq y 0 Time_intr (?s\<lparr>irqt := i\<rparr>) = Inr (?s\<lparr>irqt := i, irqt := j\<rparr>)"
      "up l h (codes y ?t5) (take 5 all_devs) (all_routines y) (?s\<lparr>irqt := i, irqt := j\<rparr>)"
    using on_irq_up [OF i(2) h, of 0 y Time_intr] by (auto simp: all_routines_def)
  obtain s3 where s3: "create_server l y Ide_driver (?s\<lparr>irqt := i, irqt := j\<rparr>) = Inr (5, s3)"
      "up l h (codes y (?t5 @ [Ide_driver])) (take 5 all_devs) (all_routines y) (wake 5 s3)" "terms s3 = terms s2"
      "pid_var s3 = (pid_var s2)(Ide_driver := 5)"
    using server_up [OF l j(2), of Ide_driver] by auto
  obtain d where d: "register ''hda'' 5 0 (wake 5 s3) = Inr ((wake 5 s3)\<lparr>devs := d\<rparr>)"
      "up l h (codes y (?t5 @ [Ide_driver])) (take 6 all_devs) (all_routines y) ((wake 5 s3)\<lparr>devs := d\<rparr>)"
    using register_up [OF s3(2) dev_names(1), of 5 0] by (auto simp: all_devs_def)
  have d3: "register ''hda'' (pid_var s3 Ide_driver) 0 s3 = Inr (s3\<lparr>devs := d\<rparr>)"
  proof -
    obtain x where x: "hal_register (name_of ''hda'') 5 0 (devs s3) = Inr x" "(wake 5 s3)\<lparr>devs := x\<rparr> = (wake 5 s3)\<lparr>devs := d\<rparr>"
      using d(1) by (auto simp: register_def bindE_eq_Inr_iff)
    then show ?thesis using arg_cong [OF x(2), of devs] s3(4) by (simp add: register_def)
  qed
  have ide: "init_ide l y s2 = Inr ((wake 5 s3)\<lparr>devs := d\<rparr>)"
    unfolding init_ide_def i(1) bindE_Inr j(1) s3(1) prod.case d3 by simp
  obtain s4 where s4: "create_server l y Ram_driver ((wake 5 s3)\<lparr>devs := d\<rparr>) = Inr (6, s4)"
      "up l h (codes y (?t5 @ [Ide_driver, Ram_driver])) (take 6 all_devs) (all_routines y) (wake 6 s4)" "terms s4 = terms s2"
      "pid_var s4 = (pid_var s2)(Ide_driver := 5, Ram_driver := 6)"
    using server_up [OF l d(2), of Ram_driver] s3(3,4) by auto
  obtain e where e: "register ''ram'' 6 0 (wake 6 s4) = Inr ((wake 6 s4)\<lparr>devs := e\<rparr>)"
      "up l h (codes y (?t5 @ [Ide_driver, Ram_driver])) all_devs (all_routines y) ((wake 6 s4)\<lparr>devs := e\<rparr>)"
    using register_up [OF s4(2) dev_names(2), of 6 0] by (auto simp: all_devs_def)
  have ram: "init_ramdisk l y ((wake 5 s3)\<lparr>devs := d\<rparr>) = Inr ((wake 6 s4)\<lparr>devs := e\<rparr>)"
    unfolding init_ramdisk_def s4(1) bindE_Inr prod.case using e(1) s4(4) by simp
  obtain c where c: "hal_list ((wake 6 s4)\<lparr>devs := e\<rparr>) = Inr ((wake 6 s4)\<lparr>devs := e, serial := c\<rparr>)"
    using hal_list_ok [of "(wake 6 s4)\<lparr>devs := e\<rparr>"] e(2) by (auto simp: up_def)
  have "init_driver l y rtc s = Inr ((wake 6 s4)\<lparr>devs := e, serial := c\<rparr>)"
    unfolding init_driver_def s1(1) bindE_Inr s2(1) ide ram c ..
  then show ?thesis using e(2) s4(3,4) s2(3,4,5) s1(3) by (simp add: fun_upd_twist)
qed

section \<open>The whole start\<close>

definition all_threads :: "thread list" where
  "all_threads = [Timer_driver, Ttyd, Getty, Getty, Getty, Ide_driver, Ram_driver, File_server, Memory_server, Pcb_server,
     Create_shell]"

definition server_pids :: "thread \<Rightarrow> int option" where
  "server_pids = [Timer_driver \<mapsto> 0, Ttyd \<mapsto> 1, Ide_driver \<mapsto> 5, Ram_driver \<mapsto> 6, File_server \<mapsto> 7, Memory_server \<mapsto> 8, Pcb_server \<mapsto> 9]"

lemma say_ok: "37 \<notin> set f \<Longrightarrow> 0 \<in> set f \<Longrightarrow> \<exists>c. say f args s = Inr (s\<lparr>serial := c\<rparr>)"
  using printk_plain [of f args] by (auto simp: say_def)

lemma say_pid:
  "\<exists>c. say (line ''MEMORY%d'') [PWord p] s = Inr (s\<lparr>serial := c\<rparr>)" "\<exists>c. say (line ''pcb pid%d'') [PWord p] s = Inr (s\<lparr>serial := c\<rparr>)"
  by (simp_all add: say_def line_def) blast+

lemma servers_up:
  assumes l: "stacks_apart l" and u: "up l h (codes y ths) ds rs s" and n: "length ths = 7"
  shows "\<exists>s'. bindE (init_file l y s) (init_manager l y) = Inr s' \<and>
    up l h (codes y (ths @ [File_server, Memory_server, Pcb_server])) ds rs s' \<and> terms s' = terms s \<and>
    pid_var s' = (pid_var s)(File_server := 7, Memory_server := 8, Pcb_server := 9)"
proof -
  let ?s = "s\<lparr>fsv := init_file_table (init_vnode_array (fsv s))\<rparr>"
  have "up l h (codes y ths) ds rs ?s" using u by simp
  then obtain s1 where s1: "create_server l y File_server ?s = Inr (7, s1)" "up l h (codes y (ths @ [File_server])) ds rs (wake 7 s1)"
      "terms s1 = terms s" "pid_var s1 = (pid_var s)(File_server := 7)"
    using server_up [OF l, of h y ths ds rs ?s File_server] n by auto
  let ?t = "(wake 7 s1)\<lparr>pages := (pages (wake 7 s1))\<lparr>bitmap_idx := 0\<rparr>\<rparr>"
  have "up l h (codes y (ths @ [File_server])) ds rs ?t" using s1(2) by simp
  then obtain s2 where s2: "create_server l y Memory_server ?t = Inr (8, s2)"
      "up l h (codes y (ths @ [File_server, Memory_server])) ds rs (wake 8 s2)" "terms s2 = terms s"
      "pid_var s2 = (pid_var s1)(Memory_server := 8)"
    using server_up [OF l, of h y "ths @ [File_server]" ds rs ?t Memory_server] n s1(3) by auto
  obtain c where c: "say (line ''MEMORY%d'') [PWord (pid_var s2 Memory_server)] s2 = Inr (s2\<lparr>serial := c\<rparr>)" using say_pid(1) by blast
  have "up l h (codes y (ths @ [File_server, Memory_server])) ds rs (wake 8 (s2\<lparr>serial := c\<rparr>))" using s2(2) by simp
  then obtain s3 where s3: "create_server l y Pcb_server (wake 8 (s2\<lparr>serial := c\<rparr>)) = Inr (9, s3)"
      "up l h (codes y (ths @ [File_server, Memory_server, Pcb_server])) ds rs (wake 9 s3)" "terms s3 = terms s"
      "pid_var s3 = (pid_var s2)(Pcb_server := 9)"
    using server_up [OF l, of h y "ths @ [File_server, Memory_server]" ds rs _ Pcb_server] n s2(3) by fastforce
  obtain d where d: "say (line ''pcb pid%d'') [PWord (pid_var s3 Pcb_server)] s3 = Inr (s3\<lparr>serial := d\<rparr>)" using say_pid(2) by blast
  have "bindE (init_file l y s) (init_manager l y) = Inr (wake 9 (s3\<lparr>serial := d\<rparr>))"
    unfolding init_file_def s1(1) bindE_Inr prod.case init_manager_def init_memory_def s2(1) c init_pcb_manager_def s3(1) d ..
  then show ?thesis using s3 s2(4) s1(4) by simp
qed

lemma init_kernel_runs: "threads_run l [] (init_proc l k)"
  by (simp add: threads_run_def init_proc_def upd_pcb_def POOL_NUM_def del: upt_rec_numeral)

lemma switches_from_head:
  assumes "threads_run l fs k" and "n < length fs"
  shows "\<exists>k'. switches l' (Suc n) k = Inr k' \<and> current k' = int n"
proof -
  have r: "ready k = map int [0..<length fs]" using assms(1) by (simp add: threads_run_def)
  have "at_ring (- 1) k" using assms(1) by (auto simp: at_ring_def threads_run_def IDLE_def distinct_map)
  moreover have "ready k \<noteq> []" using assms(2) r by auto
  moreover have "int n mod int (length (ready k)) = int n" using assms(2) r by simp
  ultimately show ?thesis using switches_ring [of "- 1" k l' n] assms(2) r by auto
qed

lemma get_registered:
  assumes "up l h fs ds rs s" and "(nm, p, d) \<in> set ds" and "distinct (map (\<lambda>x. cstr (name_of (fst x))) ds)"
  shows "hal_get_id (name_of nm) (devs s) = Inr (p, d)"
proof -
  have i: "hal_inv (devs s)" "dev_table (devs s) = map (\<lambda>(nm, x). (cstr (name_of nm), x)) ds" using assms(1) by (simp_all add: up_def)
  have "map fst (dev_table (devs s)) = map (\<lambda>x. cstr (name_of (fst x))) ds" by (simp add: i(2) case_prod_beta)
  then have "distinct (map fst (dev_table (devs s)))" using assms(3) by simp
  moreover have "(cstr (name_of nm), p, d) \<in> set (dev_table (devs s))" using assms(2) by (force simp: i(2))
  ultimately have "map_of (dev_table (devs s)) (cstr (name_of nm)) = Some (p, d)" by (rule map_of_is_SomeI)
  moreover have "0 \<in> set (name_of nm)" by (simp add: name_of_def)
  ultimately show ?thesis using hal_get_table [OF i(1)] by (fastforce simp: hal_get_id_def)
qed

lemma irq_routines:
  assumes "handles h = (\<lambda>_. None)" and "handle_count h = 0" and i: "i = fold enter_irq (all_routines y) h"
  shows "routines i 33 (handles i 0) = [isr_of y Time_intr, isr_of y Send_updatemsg, isr_of y Update_jiffy]"
    and "routines i 33 (handles i 1) = [isr_of y Send_keymsg]" and "routines i 33 (handles i 14) = [isr_of y Ide_intr]"
  using assms(1,2) by (simp_all add: i all_routines_def enter_irq_def Let_def numeral_eq_Suc)

lemma all_devs_distinct: "distinct (map (\<lambda>x. cstr (name_of (fst x))) all_devs)"
  by (simp add: all_devs_def name_of_def)

lemma os_init_ok:
  assumes l: "stacks_apart l" and h: "handle_count (irqt s) = 0"
  shows "\<exists>s'. os_init_cont l y rtc s = Inr s' \<and> up l (irqt s) (codes y all_threads) all_devs (all_routines y) s' \<and>
    intr (kn s') \<and> ttys_ok 4 (terms s') \<and> current_consl (terms s') = 0 \<and>
    (\<forall>th \<in> dom server_pids. pid_var s' th = the (server_pids th))"
proof -
  let ?h = "irqt s"
  let ?s0 = "s\<lparr>gdt := init_segment (tss_at y), idt := init_idt (ents y), ports := ports s @ init_serial @ init_intr,
      kn := init_proc l (kn s)\<rparr>"
  have "up l ?h (codes y []) [] [] (?s0\<lparr>devs := init_hal (devs ?s0)\<rparr>)"
    using init_kernel_runs [of l "kn s"] init_hal_inv by (simp add: up_def codes_def dev_table_def init_hal_def)
  then obtain s1 where s1: "init_driver l y rtc ?s0 = Inr s1"
      "up l ?h (codes y (take 7 all_threads)) all_devs (all_routines y) s1" "ttys_ok 4 (terms s1)" "current_consl (terms s1) = 0"
      "pid_var s1 = (pid_var s)(Timer_driver := 0, Ttyd := 1, Ide_driver := 5, Ram_driver := 6)"
    using init_driver_up [OF l h, of y ?s0 rtc] by (auto simp: all_threads_def)
  obtain s2 where s2: "bindE (init_file l y s1) (init_manager l y) = Inr s2"
      "up l ?h (codes y (take 10 all_threads)) all_devs (all_routines y) s2" "terms s2 = terms s1"
      "pid_var s2 = (pid_var s1)(File_server := 7, Memory_server := 8, Pcb_server := 9)"
    using servers_up [OF l s1(2)] by (auto simp: all_threads_def)
  obtain s3 where s3: "create_thread l y Create_shell s2 = Inr (10, s3)"
      "up l ?h (codes y all_threads) all_devs (all_routines y) (wake 10 s3)" "terms s3 = terms s2" "pid_var s3 = pid_var s2"
    using thread_up [OF l s2(2), of Create_shell] by (auto simp: all_threads_def)
  obtain c where c: "say (line ''Hello, OS World!'') [] (wake 10 s3) = Inr ((wake 10 s3)\<lparr>serial := c\<rparr>)"
    using say_ok [of "line ''Hello, OS World!''"] by (auto simp: line_def)
  let ?t = "(wake 10 s3)\<lparr>serial := c\<rparr>"
  let ?s' = "?t\<lparr>kn := (kn ?t)\<lparr>intr := True\<rparr>\<rparr>"
  have "init_proc_all l y rtc (s\<lparr>gdt := init_segment (tss_at y), idt := init_idt (ents y), ports := ports s @ init_serial @ init_intr\<rparr>)
      = Inr (wake 10 s3)"
    using s1(1) s2(1) s3(1) by (simp add: init_proc_all_def bindE_assoc [symmetric])
  then have run: "os_init_cont l y rtc s = Inr ?s'" using c by (simp add: os_init_cont_def)
  have "up l ?h (codes y all_threads) all_devs (all_routines y) ?s'" using s3(2) by (simp add: up_def threads_run_def runs_def)
  moreover have "pid_var ?s' th = the (server_pids th)" if "th \<in> dom server_pids" for th
    using that s1(5) s2(4) s3(4) by (auto simp: server_pids_def split: if_splits)
  ultimately show ?thesis using run s1(3,4) s2(3) s3(3) by (intro exI [of _ ?s']) auto
qed

text \<open>
  C10. The kernel comes up. From the zeroed tables of the loaded image, \<open>os_init_cont\<close> reaches its idle loop
  with interrupts on and eleven threads ready, in this order: timer, terminals, three echo threads, IDE, RAM
  disk, file server, memory manager, process manager and the starter of the shell. Each of them finds its
  function on its own stack, will run with interrupts on, and has its turn after that many switches; the
  variables of the servers hold their pids; each device name leads to the thread that serves it; the timer
  interrupt calls the routines of the disk, the terminals and the timer; and the four terminals are blank.
\<close>

theorem kernel_starts:
  assumes l: "stacks_apart l" and h: "handles (irqt s) = (\<lambda>_. None)" "handle_count (irqt s) = 0"
  shows "\<exists>s'. os_init_cont l y rtc s = Inr s' \<and> intr (kn s') \<and> ready (kn s') = [0, 1, 2, 3, 4, 5, 6, 7, 8, 9, 10] \<and>
    (\<forall>i < 11. runs l (int i) (kn s') = code_of y (all_threads ! i) \<and> saved_intr (kn s') (int i) \<and>
       (\<exists>k. switches l (Suc i) (kn s') = Inr k \<and> current k = int i)) \<and>
    (\<forall>th \<in> dom server_pids. pid_var s' th = the (server_pids th)) \<and>
    (\<forall>(nm, p, d) \<in> set all_devs. hal_get_id (name_of nm) (devs s') = Inr (p, d)) \<and>
    routines (irqt s') 33 (handles (irqt s') 0) = [isr_of y Time_intr, isr_of y Send_updatemsg, isr_of y Update_jiffy] \<and>
    routines (irqt s') 33 (handles (irqt s') 1) = [isr_of y Send_keymsg] \<and>
    routines (irqt s') 33 (handles (irqt s') 14) = [isr_of y Ide_intr] \<and>
    (\<forall>t < 4. on_screen t blank (terms s')) \<and> current_consl (terms s') = 0"
proof -
  obtain s' where s': "os_init_cont l y rtc s = Inr s'" "up l (irqt s) (codes y all_threads) all_devs (all_routines y) s'"
      "intr (kn s')" "ttys_ok 4 (terms s')" "current_consl (terms s') = 0"
      "\<forall>th \<in> dom server_pids. pid_var s' th = the (server_pids th)"
    using os_init_ok [OF l h(2)] by blast
  have th: "threads_run l (codes y all_threads) (kn s')" and i: "irqt s' = fold enter_irq (all_routines y) (irqt s)"
    using s'(2) by (simp_all add: up_def)
  have n: "length (codes y all_threads) = 11" by (simp add: all_threads_def)
  have "map int [0..<11] = [0, 1, 2, 3, 4, 5, 6, 7, 8, 9, 10]" by (simp add: upt_rec)
  then have "ready (kn s') = [0, 1, 2, 3, 4, 5, 6, 7, 8, 9, 10]" using th n by (simp add: threads_run_def)
  moreover have "runs l (int i) (kn s') = code_of y (all_threads ! i) \<and> saved_intr (kn s') (int i)" if "i < 11" for i
    using th n that by (simp add: threads_run_def codes_def)
  moreover have "hal_get_id (name_of nm) (devs s') = Inr (p, d)" if "(nm, p, d) \<in> set all_devs" for nm p d
    using get_registered [OF s'(2) that all_devs_distinct] .
  ultimately show ?thesis
    using s' switches_from_head [OF th, of _ l] n irq_routines [OF h i] by (intro exI [of _ s']) (auto simp: ttys_ok_def)
qed

text \<open>Stacks of two pages each.\<close>

definition try_layout :: layout where
  "try_layout = \<lparr>kstack = (\<lambda>p. 0xC0200000 + word_of_int (8192 * p)), wrap_addr = 0xC0101000, kcr3 = 0x120000\<rparr>"

lemma unat_word_of_int32: "unat (word_of_int z :: u32) = nat (z mod 4294967296)"
  by (simp add: unsigned_of_int take_bit_eq_mod)

lemma try_apart: "stacks_apart try_layout"
  unfolding stacks_apart_def
proof (intro ballI allI impI)
  fix p q :: int and i :: nat
  assume p: "p \<in> {0..<50}" "q \<in> {0..<50}" "p \<noteq> q" and i: "i < 4096"
  let ?x = "8192 * (p - q) + int i"
  have e: "kstack try_layout p + of_nat i - kstack try_layout q = word_of_int ?x" by (simp add: try_layout_def algebra_simps)
  have "4096 \<le> ?x mod 4294967296"
  proof (cases "q < p")
    case True
    then have "?x mod 4294967296 = ?x" using p i by (intro mod_pos_pos_trivial) auto
    then show ?thesis using True by simp
  next
    case False
    then have "?x mod 4294967296 = (?x + 4294967296) mod 4294967296" by simp
    also have "\<dots> = ?x + 4294967296" using False p i by (intro mod_pos_pos_trivial) auto
    finally show ?thesis using p by auto
  qed
  then show "4096 \<le> unat (kstack try_layout p + of_nat i - kstack try_layout q)"
    unfolding e unat_word_of_int32 by simp
qed

theorem kernel_starts_witness:
  "\<forall>y rtc s. \<exists>s'. os_init_cont try_layout y rtc (s\<lparr>irqt := \<lparr>handle_pool = \<lambda>_. (0, None), handles = \<lambda>_. None, handle_count = 0\<rparr>\<rparr>) = Inr s' \<and>
     hal_get_id (name_of ''ram'') (devs s') = Inr (6, 0) \<and> runs try_layout 6 (kn s') = code_of y Ram_driver"
proof (intro allI)
  fix y rtc and s :: machine
  let ?s = "s\<lparr>irqt := \<lparr>handle_pool = \<lambda>_. (0, None), handles = \<lambda>_. None, handle_count = 0\<rparr>\<rparr>"
  obtain s' where s': "os_init_cont try_layout y rtc ?s = Inr s'"
      "\<forall>i < 11. runs try_layout (int i) (kn s') = code_of y (all_threads ! i)"
      "\<forall>(nm, p, d) \<in> set all_devs. hal_get_id (name_of nm) (devs s') = Inr (p, d)"
    using kernel_starts [OF try_apart, of ?s y rtc] by auto
  then show "\<exists>s'. os_init_cont try_layout y rtc ?s = Inr s' \<and> hal_get_id (name_of ''ram'') (devs s') = Inr (6, 0) \<and>
      runs try_layout 6 (kn s') = code_of y Ram_driver"
    using s'(2) [rule_format, of 6] by (auto simp: all_devs_def all_threads_def)
qed

section \<open>The first process\<close>

text \<open>
  C30. A fault in the shell stops the machine. The test for a fault of a user process is \<open>pid > 11\<close>, but the
  start takes the numbers 0 to 10 for the kernel's threads, so that the first process, the shell, is number
  11: an exception in it is handled as one of the kernel and panics, while a later process only exits.
\<close>

theorem shell_fault_panics:
  assumes "stacks_apart l" and "handle_count (irqt s) = 0" and "os_init_cont l y rtc s = Inr s'"
    and "free_pcbs (kern t) = free_pcbs (kn s')" and "0 \<le> t_irq tf" and "t_irq tf < 1000" and "t_irq tf \<noteq> 0x80"
  shows "(\<exists>t'. take_pcb NullPointer t = Inr (11, t')) \<and> irq_handle h 11 tf = Inl Panic \<and>
    (\<forall>pid > 11. irq_handle h pid tf = Inr (Syscall (tf\<lparr>t_eax := 3, t_ebx := 8\<rparr>)))"
proof -
  have "threads_run l (codes y all_threads) (kn s')" using os_init_ok [OF assms(1,2), of y rtc] assms(3) by (auto simp: up_def)
  moreover have "length all_threads = 11" by (simp add: all_threads_def)
  ultimately have "free_pcbs (kern t) = map int [11..<50]" using assms(4) by (simp add: threads_run_def del: upt_rec_numeral)
  also have "\<dots> = 11 # map int [12..<50]" by (simp add: upt_conv_Cons del: upt_rec_numeral)
  finally show ?thesis using assms(5-7) by (simp add: take_pcb_def irq_handle_def Let_def)
qed

text \<open>A page fault (14).\<close>

theorem shell_fault_panics_witness:
  "\<forall>y rtc s t h. \<exists>s'. os_init_cont try_layout y rtc (s\<lparr>irqt := \<lparr>handle_pool = \<lambda>_. (0, None), handles = \<lambda>_. None, handle_count = 0\<rparr>\<rparr>) = Inr s' \<and>
     (\<exists>t'. take_pcb NullPointer (t\<lparr>kern := kn s'\<rparr>) = Inr (11, t')) \<and>
     irq_handle h 11 \<lparr>t_eax = 0, t_ebx = 0, t_ecx = 0, t_edx = 0, t_irq = 14\<rparr> = Inl Panic"
proof (intro allI)
  fix y rtc h and s :: machine and t :: sys
  let ?s = "s\<lparr>irqt := \<lparr>handle_pool = \<lambda>_. (0, None), handles = \<lambda>_. None, handle_count = 0\<rparr>\<rparr>"
  have c: "handle_count (irqt ?s) = 0" by simp
  obtain s' where s': "os_init_cont try_layout y rtc ?s = Inr s'" using os_init_ok [OF try_apart c] by blast
  then show "\<exists>s'. os_init_cont try_layout y rtc ?s = Inr s' \<and> (\<exists>t'. take_pcb NullPointer (t\<lparr>kern := kn s'\<rparr>) = Inr (11, t')) \<and>
      irq_handle h 11 \<lparr>t_eax = 0, t_ebx = 0, t_ecx = 0, t_edx = 0, t_irq = 14\<rparr> = Inl Panic"
    using shell_fault_panics [OF try_apart c s', of "t\<lparr>kern := kn s'\<rparr>" "\<lparr>t_eax = 0, t_ebx = 0, t_ecx = 0, t_edx = 0, t_irq = 14\<rparr>" h]
    by simp
qed

end
