(* ===== verification/Interrupts.thy ===== *)
theory Interrupts
  imports Startup Process_Msg
begin




section \<open>Property\<close>





end
