(* ===== verification/Echo.thy ===== *)
theory Echo
  imports Screen
begin

text \<open>
  The echo threads (drivers/tty/getty.c), which write every line of a terminal back in capitals, composed with
  the line editor and the screen; and a line after which the output of a terminal is no longer visible.
\<close>

section \<open>The echo thread\<close>

text \<open>The name of the next terminal; \<open>tty_idx\<close> starts with 2.\<close>

definition getty_name :: "nat \<Rightarrow> u8 list \<times> nat" where
  "getty_name tty_idx = ([116, 116, 121, 48, 0][3 := 48 + of_nat tty_idx], tty_idx + 1)"






section \<open>A line that ends behind the last cell\<close>

lemma type_exact:
  assumes "t < 3" and h: "holds_line (l, r) (consoles s t)" and "length l + length r < 255"
  shows "\<exists>s'. consl_accept t ch s = Inr s' \<and> consoles s' t = typed ch (length l) (length r) (consoles s t) \<and>
    current_consl s' = current_consl s"
proof -
  obtain rest where b: "lbuf (consoles s t) = l @ r @ 0 # rest" using h by (auto simp: holds_line_def)
  then have st: "strlen (drop (length l) (lbuf (consoles s t))) = Inr (length r)"
    using h strlen_line [of r rest] by (simp add: holds_line_def)
  show ?thesis using h assms(3) by (intro consl_accept_ok assms(1) st) (simp_all add: holds_line_def)
qed

text \<open>Behind a letter typed in front of the last one, the \<open>end\<close> key leads to the cell behind the screen.\<close>

lemma end_behind:
  assumes t: "t < 3" and h: "holds_line ([], []) (consoles s t)" and p: "pos (consoles s t) = scr (consoles s t) + 1918"
    and ab: "x \<noteq> 0" "y \<noteq> 0"
  shows "\<exists>s'. fold_exec (press self t) [Type x, Left, Type y, End] s = Inr s' \<and> holds_line ([y, x], []) (consoles s' t) \<and>
    kept (consoles s' t) = kept (consoles s t) \<and> scr (consoles s' t) = scr (consoles s t) \<and> pos (consoles s' t) = scr (consoles s' t) + 1920"
proof -
  let ?b = "scr (consoles s t)"
  obtain s1 where s1: "consl_accept t x s = Inr s1" "consoles s1 t = typed x 0 0 (consoles s t)"
    using type_exact [OF t h, of x] by auto
  have h1: "holds_line ([x], []) (consoles s1 t)" "kept (consoles s1 t) = kept (consoles s t)" using typed_line [OF h ab(1)] s1(2) by auto
  have p1: "scr (consoles s1 t) = ?b" "pos (consoles s1 t) = ?b + 1919" using p s1(2) by (simp_all add: typed_def Let_def)
  let ?s2 = "upd_consl t (\<lambda>c. c\<lparr>ci := ci c - 1, pos := pos c - 1\<rparr>) s1"
  have "ci (consoles s1 t) \<noteq> 0" using h1 by (simp add: holds_line_def)
  then have mv: "movl t s1 = (True, ?s2)" by (simp add: movl_def)
  have h2: "holds_line ([], [x]) (consoles ?s2 t)" "kept (consoles ?s2 t) = kept (consoles s t)" using movl_line [OF h1(1)] mv h1(2) by auto
  obtain s3 where s3: "consl_sync t ?s2 = Inr s3" "consoles s3 = consoles ?s2" using sync_line [OF t h2(1)] by blast
  have h3: "holds_line ([], [x]) (consoles s3 t)" "kept (consoles s3 t) = kept (consoles s t)" using h2 s3(2) by auto
  have p3: "scr (consoles s3 t) = ?b" "pos (consoles s3 t) = ?b + 1918" using p1 s3(2) by simp_all
  obtain s4 where s4: "consl_accept t y s3 = Inr s4" "consoles s4 t = typed y 0 1 (consoles s3 t)"
    using type_exact [OF t h3(1), of y] by auto
  have h4: "holds_line ([y], [x]) (consoles s4 t)" "kept (consoles s4 t) = kept (consoles s t)" using typed_line [OF h3(1) ab(2)] s4(2) h3(2) by auto
  have p4: "scr (consoles s4 t) = ?b" "pos (consoles s4 t) = ?b + 1919" using p3 s4(2) by (simp_all add: typed_def Let_def)
  obtain s5 where s5: "movr t s4 = Inr (True, s5)" "holds_line ([y, x], []) (consoles s5 t)" "kept (consoles s5 t) = kept (consoles s4 t)"
    using movr_line [OF h4(1)] by auto
  have p5: "scr (consoles s5 t) = ?b" "pos (consoles s5 t) = ?b + 1920"
    using s5(1) p4 by (auto simp: movr_def bindE_eq_Inr_iff split: if_splits)
  obtain s6 where s6: "movr t s5 = Inr (False, s6)" using movr_line [OF s5(2)] by auto
  then have "s6 = s5" by (auto simp: movr_def bindE_eq_Inr_iff split: if_splits)
  then have "to_end t s4 = Some (Inr s5)"
    by (subst to_end.simps) (simp add: s5(1), subst to_end.simps, use s6 in simp)
  moreover obtain s7 where s7: "consl_sync t s5 = Inr s7" "consoles s7 = consoles s5" using sync_line [OF t s5(2)] by blast
  ultimately have "fold_exec (press self t) [Type x, Left, Type y, End] s = Inr s7"
    using s1(1) mv s3(1) s4(1) by (simp add: consl_feed_def Let_def)
  then show ?thesis using s5(2,3) h4(2) p5 s7(2) by simp
qed

text \<open>Writing behind the screen: nothing of it is visible, and from the last row of the buffer it hits the next console.\<close>

lemma writec_behind:
  assumes t: "t < 3" and w: "window (consoles s t)" and p: "pos (consoles s t) = scr (consoles s t) + 1920"
    and ch: "ch \<noteq> 10" "ch \<noteq> 13"
  shows "\<exists>s'. consl_writec t ch s = Inr s' \<and> view t s' = view t s \<and> pos (consoles s' t) = scr (consoles s' t) + 1921 \<and>
    vbuf s' (base t s + 1920) = draw ch"
proof -
  let ?k = "nat (scr (consoles s t)) + 1920"
  have k: "int ?k = pos (consoles s t)" "?k \<le> 3840" using w p by (auto simp: window_def)
  have c: "nat (cell_at t (pos (consoles s t))) = base t s + 1920" "0 \<le> cell_at t (pos (consoles s t))"
      "cell_at t (pos (consoles s t)) < NR_TTY * VSIZE"
    using t w p by (auto simp: cell_at_def base_def window_def nat_add_distrib nat_mult_distrib)
  have pc: "putc t ch s = Inr (s\<lparr>vbuf := (vbuf s)(base t s + 1920 := draw ch)\<rparr>)"
    using c by (simp add: putc_def set_cell_def)
  let ?s = "upd_consl t (\<lambda>c. c\<lparr>pos := pos c + 1\<rparr>) (s\<lparr>vbuf := (vbuf s)(base t s + 1920 := draw ch)\<rparr>)"
  have "consl_writec t ch s = Inr ?s" using pc p ch by (simp add: consl_writec_def next_pos_def)
  moreover have "view t ?s = view t s" by (simp add: view_def base_def)
  ultimately show ?thesis using p by simp
qed

lemma feed_behind:
  assumes w: "window c" and p: "pos c = scr c + 1920"
  shows "pos (line_feed c) = scr (line_feed c) + 1920 \<and> window (line_feed c) \<and>
    scr (line_feed c) = (if scr c = 1920 then 1920 else scr c + 80)"
proof -
  have "pos c mod 80 = 0" using w p by (auto simp: window_def)
  then show ?thesis using w p by (auto simp: line_feed_def Let_def scrolled_def window_def)
qed

text \<open>
  C32. The end of a line can put a terminal's output out of sight for good. With the cursor two cells before
  the end of the screen, type a letter, step back, type another one in front of it, press \<open>end\<close> and enter: the
  cursor is then in the cell behind the visible screen, every further line feed leaves it there, and what
  is written is not visible; when the window is at the end of the buffer of the console, it overwrites the
  first cells of the next console.
\<close>

theorem output_leaves_screen:
  assumes "t < 3" and "idle ls (consoles s t)" and "pos (consoles s t) = scr (consoles s t) + 1918" and "x \<noteq> 0" and "y \<noteq> 0"
    and "length (stored ls) < 1021"
  shows "\<exists>s1. enter_line self t [Type x, Left, Type y, End] s = Inr (None, s1) \<and>
    pos (consoles s1 t) = scr (consoles s1 t) + 1920 \<and>
    scr (consoles s1 t) = (if scr (consoles s t) = 1920 then 1920 else scr (consoles s t) + 80) \<and>
    (\<exists>s2. consl_writec t 10 s1 = Inr s2 \<and> pos (consoles s2 t) = scr (consoles s2 t) + 1920) \<and>
    (\<forall>ch. ch \<noteq> 10 \<and> ch \<noteq> 13 \<longrightarrow> (\<exists>s2. consl_writec t ch s1 = Inr s2 \<and> view t s2 = view t s1 \<and>
       (scr (consoles s1 t) = 1920 \<longrightarrow> vbuf s2 (3840 * (t + 1)) = draw ch)))"
proof -
  have h: "holds_line ([], []) (consoles s t)" using assms(2) by (simp add: idle_def)
  obtain s0 where s0: "fold_exec (press self t) [Type x, Left, Type y, End] s = Inr s0" "holds_line ([y, x], []) (consoles s0 t)"
      "kept (consoles s0 t) = kept (consoles s t)" "pos (consoles s0 t) = scr (consoles s0 t) + 1920"
      "scr (consoles s0 t) = scr (consoles s t)"
    using end_behind [OF assms(1) h assms(3-5), of self] by blast
  have q: "holds_lines ls (consoles s0 t)" "rtop (consoles s0 t) = 0"
    using assms(2) s0(3) by (auto simp: idle_def holds_lines_def holds_ring_def kept_def)
  have "length (stored ls) + length ([y, x] @ []) < 1023" using assms(6) by simp
  note cook = cook_ok [OF assms(1) s0(2) q(1) this, of self, unfolded q(2)]
  then obtain s1 where s1: "cook self t s0 = Inr (None, s1)" "holds_line ([], []) (consoles s1 t)"
      "scr (consoles s1 t) = scr (line_feed (consoles s0 t))" "pos (consoles s1 t) = pos (line_feed (consoles s0 t))"
    by (elim exE conjE) (rule that, simp)
  obtain s2 where s2: "consl_sync t s1 = Inr s2" "consoles s2 = consoles s1" using sync_line [OF assms(1) s1(2)] by blast
  have w: "window (consoles s2 t)" "pos (consoles s2 t) = scr (consoles s2 t) + 1920"
      "scr (consoles s2 t) = (if scr (consoles s t) = 1920 then 1920 else scr (consoles s t) + 80)"
    using feed_behind [OF holds_window [OF s0(2)] s0(4)] holds_window [OF s1(2)] s1(3,4) s2(2) s0(5) by simp_all
  have "enter_line self t [Type x, Left, Type y, End] s = Inr (None, s2)"
    unfolding enter_line_def s0(1) using s1(1) s2(1) by (simp add: consl_feed_def Let_def)
  moreover have "\<exists>s3. consl_writec t 10 s2 = Inr s3 \<and> pos (consoles s3 t) = scr (consoles s3 t) + 1920"
  proof -
    have "0 \<le> pos (consoles s2 t)" using w by (simp add: window_def)
    then obtain v where "lf t (cr t s2) = Inr ((upd_consl t line_feed s2)\<lparr>vbuf := v\<rparr>)" using lf_ok [OF assms(1) w(1)] by blast
    then show ?thesis using feed_behind [OF w(1,2)] by (simp add: consl_writec_def)
  qed
  moreover have "\<exists>s3. consl_writec t ch s2 = Inr s3 \<and> view t s3 = view t s2 \<and>
      (scr (consoles s2 t) = 1920 \<longrightarrow> vbuf s3 (3840 * (t + 1)) = draw ch)" if "ch \<noteq> 10" "ch \<noteq> 13" for ch
    using writec_behind [OF assms(1) w(1,2) that] by (auto simp: base_def algebra_simps)
  ultimately show ?thesis using w(2,3) by blast
qed

text \<open>The first console at the end of its buffer: a letter it prints lands in the first cell of the second one.\<close>

theorem output_leaves_screen_witness:
  "\<exists>s1 s2. enter_line 5 0 [Type 97, Left, Type 98, End]
      (upd_consl 0 (\<lambda>c. c\<lparr>scr := 1920, pos := 3838\<rparr>) Tty_Line.try_ttys) = Inr (None, s1) \<and>
     consl_writec 0 65 s1 = Inr s2 \<and> view 0 s2 = view 0 s1 \<and> vbuf s2 3840 = draw 65"
proof -
  let ?s = "upd_consl 0 (\<lambda>c. c\<lparr>scr := 1920, pos := 3838\<rparr>) Tty_Line.try_ttys"
  have "idle [] (consoles Tty_Line.try_ttys 0)" by (rule try_idle)
  then have i: "idle [] (consoles ?s 0)" by (auto simp: idle_def holds_line_def holds_lines_def holds_ring_def window_def)
  obtain s1 where s1: "enter_line 5 0 [Type 97, Left, Type 98, End] ?s = Inr (None, s1)" "scr (consoles s1 0) = 1920"
      "\<forall>ch. ch \<noteq> 10 \<and> ch \<noteq> 13 \<longrightarrow> (\<exists>s2. consl_writec 0 ch s1 = Inr s2 \<and> view 0 s2 = view 0 s1 \<and>
         (scr (consoles s1 0) = 1920 \<longrightarrow> vbuf s2 3840 = draw ch))"
    using output_leaves_screen [OF _ i, of 97 98 5] by auto
  from s1(3) [rule_format, of 65] s1(1,2) show ?thesis by auto
qed

end
